(* ===== verification/Mirror_Prelude.thy ===== *)
theory Mirror_Prelude
  imports Main "HOL-Library.AList"
begin

text \<open>
  Shared vocabulary of the development: the parts of Rust's \<open>str\<close>, \<open>Option\<close>, \<open>Result\<close> and
  \<open>HashMap\<close> that the sources under \<^verbatim>\<open>src/src\<close> use, with the generic lemmas the component
  theories rely on.

  A Rust \<open>&str\<close> is a list of \<^typ>\<open>char\<close>, one \<^typ>\<open>char\<close> per UTF-8 byte, so \<^const>\<open>length\<close> is
  \<open>str::len\<close> and the byte predicates (\<open>is_ascii_digit\<close>, \<dots>) apply to its elements. A
  \<open>Result<T, E>\<close> is a sum \<open>'e + 'a\<close> with \<^const>\<open>Inl\<close> for \<open>Err\<close>. A \<open>HashMap\<close> whose size or
  iteration order matters is an association list with distinct keys, listed in iteration order.
\<close>

named_theorems str_simps \<open>equations about the string routines of the standard library\<close>
named_theorems char_defs \<open>definitions of the ASCII character classes\<close>

type_synonym ('e, 'a) result = "'e + 'a"
type_synonym ('k, 'v) hashmap = "('k \<times> 'v) list"

section \<open>Strings\<close>

subsection \<open>ASCII classes: \<open>u8::is_ascii_*\<close>\<close>

definition is_ascii_digit :: "char \<Rightarrow> bool" where
  "is_ascii_digit c \<longleftrightarrow> 48 \<le> (of_char c :: nat) \<and> (of_char c :: nat) \<le> 57"

definition is_ascii_lowercase :: "char \<Rightarrow> bool" where
  "is_ascii_lowercase c \<longleftrightarrow> 97 \<le> (of_char c :: nat) \<and> (of_char c :: nat) \<le> 122"

definition is_ascii_uppercase :: "char \<Rightarrow> bool" where
  "is_ascii_uppercase c \<longleftrightarrow> 65 \<le> (of_char c :: nat) \<and> (of_char c :: nat) \<le> 90"

definition is_ascii_alphanumeric :: "char \<Rightarrow> bool" where
  "is_ascii_alphanumeric c \<longleftrightarrow> is_ascii_digit c \<or> is_ascii_lowercase c \<or> is_ascii_uppercase c"

definition is_ascii_hexdigit :: "char \<Rightarrow> bool" where
  "is_ascii_hexdigit c \<longleftrightarrow> is_ascii_digit c \<or>
     (97 \<le> (of_char c :: nat) \<and> (of_char c :: nat) \<le> 102) \<or>
     (65 \<le> (of_char c :: nat) \<and> (of_char c :: nat) \<le> 70)"

definition to_ascii_lower_char :: "char \<Rightarrow> char" where
  "to_ascii_lower_char c = (if is_ascii_uppercase c then char_of ((of_char c :: nat) + 32) else c)"

definition to_ascii_lowercase :: "string \<Rightarrow> string" where
  "to_ascii_lowercase s = map to_ascii_lower_char s"

lemmas ascii_class_defs [char_defs] =
  is_ascii_digit_def is_ascii_lowercase_def is_ascii_uppercase_def
  is_ascii_alphanumeric_def is_ascii_hexdigit_def

subsection \<open>Prefixes, suffixes and splitting\<close>

definition strip_prefix :: "'a list \<Rightarrow> 'a list \<Rightarrow> 'a list option" where
  "strip_prefix p s = (if take (length p) s = p then Some (drop (length p) s) else None)"

definition strip_suffix :: "'a list \<Rightarrow> 'a list \<Rightarrow> 'a list option" where
  "strip_suffix q s =
     (if length q \<le> length s \<and> drop (length s - length q) s = q
      then Some (take (length s - length q) s) else None)"

text \<open>\<open>str::trim_start_matches\<close> and \<open>str::trim_end_matches\<close> with a single character.\<close>

definition trim_start_matches :: "'a \<Rightarrow> 'a list \<Rightarrow> 'a list" where
  "trim_start_matches c s = dropWhile (\<lambda>x. x = c) s"

definition trim_end_matches :: "'a \<Rightarrow> 'a list \<Rightarrow> 'a list" where
  "trim_end_matches c s = rev (dropWhile (\<lambda>x. x = c) (rev s))"

text \<open>\<open>str::split\<close>: \<open>n\<close> separators give \<open>n + 1\<close> parts; the empty string gives one empty part.\<close>

fun split_on :: "'a \<Rightarrow> 'a list \<Rightarrow> 'a list list" where
  "split_on c [] = [[]]"
| "split_on c (x # xs) =
     (if x = c then [] # split_on c xs
      else (case split_on c xs of [] \<Rightarrow> [[x]] | y # ys \<Rightarrow> (x # y) # ys))"

text \<open>Splitting at the last occurrence of a separator, and \<open>str::rsplitn\<close>, which yields at most
  \<open>n\<close> parts from the right; the last part it yields is everything that is left.\<close>

definition rsplit_once :: "'a \<Rightarrow> 'a list \<Rightarrow> ('a list \<times> 'a list) option" where
  "rsplit_once c s =
     (if c \<in> set s
      then Some (rev (tl (dropWhile (\<lambda>x. x \<noteq> c) (rev s))), rev (takeWhile (\<lambda>x. x \<noteq> c) (rev s)))
      else None)"

fun rsplitn :: "nat \<Rightarrow> 'a \<Rightarrow> 'a list \<Rightarrow> 'a list list" where
  "rsplitn 0 c s = []"
| "rsplitn (Suc 0) c s = [s]"
| "rsplitn (Suc (Suc n)) c s =
     (case rsplit_once c s of None \<Rightarrow> [s] | Some (before, after) \<Rightarrow> after # rsplitn (Suc n) c before)"

text \<open>\<open>str::trim\<close> removes the code points with the Unicode property \<open>White_Space\<close> at both ends.
  Their UTF-8 encodings: U+0009 to U+000D, U+0020, U+0085, U+00A0, U+1680, U+2000 to U+200A, U+2028,
  U+2029, U+202F, U+205F and U+3000.\<close>

definition utf8_whitespace :: "string list" where
  "utf8_whitespace = map (map char_of)
     ([[9], [10], [11], [12], [13], [32], [0xC2, 0x85], [0xC2, 0xA0], [0xE1, 0x9A, 0x80],
       [0xE2, 0x80, 0x80], [0xE2, 0x80, 0x81], [0xE2, 0x80, 0x82], [0xE2, 0x80, 0x83],
       [0xE2, 0x80, 0x84], [0xE2, 0x80, 0x85], [0xE2, 0x80, 0x86], [0xE2, 0x80, 0x87],
       [0xE2, 0x80, 0x88], [0xE2, 0x80, 0x89], [0xE2, 0x80, 0x8A], [0xE2, 0x80, 0xA8],
       [0xE2, 0x80, 0xA9], [0xE2, 0x80, 0xAF], [0xE2, 0x81, 0x9F], [0xE3, 0x80, 0x80]] :: nat list list)"

definition strip_any :: "('a list \<Rightarrow> 'a list \<Rightarrow> 'a list option) \<Rightarrow> 'a list list \<Rightarrow> 'a list \<Rightarrow> 'a list option" where
  "strip_any strip ws s =
     (case List.find (\<lambda>w. w \<noteq> [] \<and> strip w s \<noteq> None) ws of None \<Rightarrow> None | Some w \<Rightarrow> strip w s)"

fun strip_repeat :: "('a list \<Rightarrow> 'a list option) \<Rightarrow> nat \<Rightarrow> 'a list \<Rightarrow> 'a list" where
  "strip_repeat f 0 s = s"
| "strip_repeat f (Suc n) s = (case f s of None \<Rightarrow> s | Some r \<Rightarrow> strip_repeat f n r)"

text \<open>Every step removes at least one byte, so \<open>length s\<close> steps are enough.\<close>

definition str_trim :: "string \<Rightarrow> string" where
  "str_trim s =
     (let t = strip_repeat (strip_any strip_prefix utf8_whitespace) (length s) s
      in strip_repeat (strip_any strip_suffix utf8_whitespace) (length t) t)"

section \<open>Results and options\<close>

definition ok_or :: "'a option \<Rightarrow> 'e \<Rightarrow> ('e, 'a) result" where
  "ok_or x e = (case x of None \<Rightarrow> Inl e | Some a \<Rightarrow> Inr a)"

definition is_ok :: "('e, 'a) result \<Rightarrow> bool" where
  "is_ok r = (case r of Inl _ \<Rightarrow> False | Inr _ \<Rightarrow> True)"

abbreviation is_err :: "('e, 'a) result \<Rightarrow> bool" where
  "is_err r \<equiv> \<not> is_ok r"

text \<open>Rust's \<open>?\<close>: continue with the value or return the error.\<close>

definition try_bind :: "('e, 'a) result \<Rightarrow> ('a \<Rightarrow> ('e, 'b) result) \<Rightarrow> ('e, 'b) result" where
  "try_bind r f = (case r of Inl e \<Rightarrow> Inl e | Inr a \<Rightarrow> f a)"

definition map_err :: "('e \<Rightarrow> 'f) \<Rightarrow> ('e, 'a) result \<Rightarrow> ('f, 'a) result" where
  "map_err g r = (case r of Inl e \<Rightarrow> Inl (g e) | Inr a \<Rightarrow> Inr a)"

text \<open>A \<open>for\<close> loop whose body may return an error early.\<close>

fun try_all :: "('a \<Rightarrow> ('e, unit) result) \<Rightarrow> 'a list \<Rightarrow> ('e, unit) result" where
  "try_all f [] = Inr ()"
| "try_all f (x # xs) = (case f x of Inl e \<Rightarrow> Inl e | Inr _ \<Rightarrow> try_all f xs)"

section \<open>Hash maps as association lists\<close>

definition hm_wf :: "('k, 'v) hashmap \<Rightarrow> bool" where
  "hm_wf m \<longleftrightarrow> distinct (map fst m)"

abbreviation hm_get :: "('k, 'v) hashmap \<Rightarrow> 'k \<Rightarrow> 'v option" where
  "hm_get m k \<equiv> map_of m k"

abbreviation hm_insert :: "'k \<Rightarrow> 'v \<Rightarrow> ('k, 'v) hashmap \<Rightarrow> ('k, 'v) hashmap" where
  "hm_insert k v m \<equiv> AList.update k v m"

abbreviation hm_remove :: "'k \<Rightarrow> ('k, 'v) hashmap \<Rightarrow> ('k, 'v) hashmap" where
  "hm_remove k m \<equiv> AList.delete k m"

definition hm_contains :: "('k, 'v) hashmap \<Rightarrow> 'k \<Rightarrow> bool" where
  "hm_contains m k \<longleftrightarrow> hm_get m k \<noteq> None"

section \<open>Lemmas\<close>

lemma strip_prefix_eq_Some [str_simps]: "strip_prefix p s = Some r \<longleftrightarrow> s = p @ r"
proof
  assume "strip_prefix p s = Some r"
  then have "take (length p) s = p" and "drop (length p) s = r"
    by (auto simp: strip_prefix_def split: if_splits)
  then show "s = p @ r" by (metis append_take_drop_id)
qed (simp add: strip_prefix_def)

lemma strip_prefix_append [simp]: "strip_prefix p (p @ r) = Some r"
  by (simp add: strip_prefix_eq_Some)

lemma strip_suffix_eq_Some [str_simps]: "strip_suffix q s = Some r \<longleftrightarrow> s = r @ q"
proof
  assume "strip_suffix q s = Some r"
  then have "drop (length s - length q) s = q" and "take (length s - length q) s = r"
    by (auto simp: strip_suffix_def split: if_splits)
  then show "s = r @ q" by (metis append_take_drop_id)
qed (simp add: strip_suffix_def)

lemma strip_suffix_append [simp]: "strip_suffix q (r @ q) = Some r"
  by (simp add: strip_suffix_eq_Some)

lemma strip_prefix_simps [simp]:
  "strip_prefix [] s = Some s"
  "strip_prefix (c # p) [] = None"
  "strip_prefix (c # p) (x # xs) = (if x = c then strip_prefix p xs else None)"
  by (auto simp: strip_prefix_def)

lemma strip_prefix_single_eq_None: "strip_prefix [c] s = None \<longleftrightarrow> s = [] \<or> hd s \<noteq> c"
  by (cases s) (auto simp: strip_prefix_def)

lemma strip_any_eq_Some:
  "strip_any strip ws s = Some r \<Longrightarrow> \<exists>w \<in> set ws. w \<noteq> [] \<and> strip w s = Some r"
  by (auto simp: strip_any_def find_Some_iff split: option.splits)

lemma strip_repeat_fixpoint:
  assumes "\<And>s r. f s = Some r \<Longrightarrow> length r < length s" and "length s \<le> n"
  shows "f (strip_repeat f n s) = None"
  using assms(2)
proof (induction n arbitrary: s)
  case 0
  then show ?case using assms(1) [of s] by (cases "f s") auto
next
  case (Suc n)
  then show ?case using assms(1) [of s] by (force split: option.splits)
qed

lemma strip_repeat_set: "(\<And>s r. f s = Some r \<Longrightarrow> set r \<subseteq> set s) \<Longrightarrow> set (strip_repeat f n s) \<subseteq> set s"
  by (induction n arbitrary: s) (fastforce split: option.splits)+

text \<open>Enough steps: what \<open>str_trim\<close> returns neither starts nor ends with white space.\<close>

lemma str_trim_no_trailing:
  "strip_any strip_suffix utf8_whitespace (str_trim s) = None"
  unfolding str_trim_def Let_def
  by (rule strip_repeat_fixpoint) (auto dest!: strip_any_eq_Some simp: strip_suffix_eq_Some)

lemma set_str_trim: "set (str_trim s) \<subseteq> set s"
proof -
  let ?t = "strip_repeat (strip_any strip_prefix utf8_whitespace) (length s) s"
  have "set ?t \<subseteq> set s"
    by (rule strip_repeat_set) (auto dest!: strip_any_eq_Some simp: strip_prefix_eq_Some)
  moreover have "set (str_trim s) \<subseteq> set ?t" unfolding str_trim_def Let_def
    by (rule strip_repeat_set) (auto dest!: strip_any_eq_Some simp: strip_suffix_eq_Some)
  ultimately show ?thesis by blast
qed

lemma split_on_not_Nil [simp]: "split_on c s \<noteq> []"
  by (induction s) (auto split: list.splits)

lemma split_on_parts: "p \<in> set (split_on c s) \<Longrightarrow> c \<notin> set p \<and> set p \<subseteq> set s"
proof (induction s arbitrary: p)
  case Nil
  then show ?case by simp
next
  case (Cons x xs)
  show ?case
  proof (cases "x = c")
    case True
    with Cons show ?thesis by (auto split: list.splits)
  next
    case False
    obtain y ys where y: "split_on c xs = y # ys" by (cases "split_on c xs") auto
    with False Cons.prems have "p = x # y \<or> p \<in> set ys" by simp
    then show ?thesis
    proof
      assume "p = x # y"
      then show ?thesis using Cons.IH [of y] y False by auto
    next
      assume "p \<in> set ys"
      then show ?thesis using Cons.IH [of p] y by auto
    qed
  qed
qed

lemma split_on_chars: "set s \<subseteq> insert c (\<Union> (set ` set (split_on c s)))"
  by (induction s) (auto split: list.splits, blast)

lemma split_on_no_sep: "c \<notin> set s \<Longrightarrow> split_on c s = [s]"
  by (induction s) auto

lemma rsplit_once_eq_Some [str_simps]:
  "rsplit_once c s = Some (b, a) \<longleftrightarrow> s = b @ c # a \<and> c \<notin> set a"
proof
  assume asm: "rsplit_once c s = Some (b, a)"
  then have mem: "c \<in> set (rev s)" by (simp add: rsplit_once_def split: if_splits)
  let ?d = "dropWhile (\<lambda>x. x \<noteq> c) (rev s)"
  have "?d \<noteq> []" using mem by (simp add: dropWhile_eq_Nil_conv)
  then obtain t where t: "?d = c # t" using hd_dropWhile [of "\<lambda>x. x \<noteq> c" "rev s"] by (cases ?d) auto
  have ba: "b = rev t" "a = rev (takeWhile (\<lambda>x. x \<noteq> c) (rev s))"
    using asm t by (auto simp: rsplit_once_def split: if_splits)
  have "rev s = rev a @ c # t" using t ba(2) by (metis rev_rev_ident takeWhile_dropWhile_id)
  then have "s = b @ c # a" using ba(1) by (metis rev.simps(2) rev_append rev_rev_ident append.assoc append_Cons append_Nil)
  moreover have "c \<notin> set a" using ba(2) by (auto dest: set_takeWhileD)
  ultimately show "s = b @ c # a \<and> c \<notin> set a" ..
next
  assume "s = b @ c # a \<and> c \<notin> set a"
  then have s: "s = b @ c # a" and a: "\<And>x. x \<in> set (rev a) \<Longrightarrow> x \<noteq> c" by auto
  have "takeWhile (\<lambda>x. x \<noteq> c) (rev a @ c # rev b) = rev a"
    by (subst takeWhile_append2) (use a in auto)
  moreover have "dropWhile (\<lambda>x. x \<noteq> c) (rev a @ c # rev b) = c # rev b"
    by (subst dropWhile_append2) (use a in auto)
  ultimately show "rsplit_once c s = Some (b, a)" using s by (simp add: rsplit_once_def)
qed

lemma rsplitn_3_eq [str_simps]:
  "rsplitn 3 c s = [z, y, x] \<longleftrightarrow> s = x @ c # y @ c # z \<and> c \<notin> set y \<and> c \<notin> set z"
proof -
  have three: "(3::nat) = Suc (Suc (Suc 0))" by simp
  have "rsplitn 3 c s = [z, y, x] \<longleftrightarrow>
      (\<exists>b. rsplit_once c s = Some (b, z) \<and> rsplit_once c b = Some (x, y))"
    by (auto simp: three split: option.splits prod.splits)
  then show ?thesis by (auto simp: rsplit_once_eq_Some)
qed

lemma is_ok_simps [simp]: "is_ok (Inr a)" "is_ok (Inl e) = False"
  by (simp_all add: is_ok_def)

lemma is_ok_iff: "is_ok r \<longleftrightarrow> (\<exists>a. r = Inr a)"
  by (cases r) auto

lemma ok_or_simps [simp]: "ok_or None e = Inl e" "ok_or (Some a) e = Inr a"
  by (simp_all add: ok_or_def)

lemma ok_or_eq_Inr: "ok_or x e = Inr a \<longleftrightarrow> x = Some a"
  by (simp add: ok_or_def split: option.splits)

lemma try_bind_simps [simp]: "try_bind (Inl e) f = Inl e" "try_bind (Inr a) f = f a"
  by (simp_all add: try_bind_def)

lemma try_bind_eq_Inr: "try_bind r f = Inr b \<longleftrightarrow> (\<exists>a. r = Inr a \<and> f a = Inr b)"
  by (cases r) auto

lemma map_err_simps [simp]: "map_err g (Inl e) = Inl (g e)" "map_err g (Inr a) = Inr a"
  by (simp_all add: map_err_def)

lemma map_err_eq_Inr: "map_err g r = Inr a \<longleftrightarrow> r = Inr a"
  by (cases r) simp_all

lemma try_all_ok: "try_all f xs = Inr () \<longleftrightarrow> (\<forall>x \<in> set xs. f x = Inr ())"
  by (induction xs) (auto split: sum.splits)

lemma try_all_cong_ok: "is_ok (try_all f xs) \<longleftrightarrow> list_all (\<lambda>x. is_ok (f x)) xs"
  by (induction xs) (auto split: sum.splits)

lemma hm_insert_get: "hm_get (hm_insert k v m) k' = (if k' = k then Some v else hm_get m k')"
  by (simp add: update_conv')

lemma hm_remove_get: "hm_get (hm_remove k m) k' = (if k' = k then None else hm_get m k')"
  by (simp add: delete_conv')

lemma hm_wf_insert [simp]: "hm_wf m \<Longrightarrow> hm_wf (hm_insert k v m)"
  by (simp add: hm_wf_def distinct_update)

lemma hm_wf_remove [simp]: "hm_wf m \<Longrightarrow> hm_wf (hm_remove k m)"
  by (simp add: hm_wf_def distinct_delete)

lemma hm_wf_Nil [simp]: "hm_wf []"
  by (simp add: hm_wf_def)

lemma length_hm_insert:
  "length (hm_insert k v m) = (if hm_contains m k then length m else Suc (length m))"
  by (induction m) (auto simp: hm_contains_def)

lemma length_hm_remove_le: "length (hm_remove k m) \<le> length m"
  by (simp add: AList.delete_eq)

lemma hm_wf_filter: "hm_wf m \<Longrightarrow> hm_wf (filter P m)"
  by (induction m) (auto simp: hm_wf_def)

lemma hm_get_filter:
  "hm_wf m \<Longrightarrow> hm_get (filter (\<lambda>(k, v). P k v) m) k =
     (case hm_get m k of None \<Rightarrow> None | Some v \<Rightarrow> if P k v then Some v else None)"
proof (induction m)
  case (Cons p m)
  obtain k' v' where p: "p = (k', v')" by force
  have fresh: "hm_get m k' = None" and "hm_wf m"
    using Cons.prems p by (auto simp: hm_wf_def map_of_eq_None_iff)
  with Cons.IH p show ?case by (auto split: option.splits)
qed simp

end
