(* ===== verification/Archive_Name.thy ===== *)
theory Archive_Name
  imports Mirror_Prelude
begin

text \<open>
  Provider archive names (\<^verbatim>\<open>src/src/provider.rs\<close>): the record \<open>ArchiveName\<close>, its parser
  \<open>ArchiveName::parse\<close> with the helper \<open>from_parts\<close>, and the two archive naming styles the parser
  reads. \<open>Version::parse\<close> of the \<^verbatim>\<open>semver\<close> crate is the parameter \<open>semver\<close>: \<^const>\<open>None\<close> stands
  for its error.
\<close>

section \<open>Definitions\<close>

record archive_name =
  an_provider_type :: string
  an_version :: string
  an_os :: string
  an_arch :: string

type_synonym 'v semver_parser = "string \<Rightarrow> 'v option"

text \<open>\<open>version.strip_prefix('v').unwrap_or(version)\<close>, also \<open>normalize_version\<close> of
  \<^verbatim>\<open>metadata.rs\<close>.\<close>

definition strip_v :: "string \<Rightarrow> string" where
  "strip_v version = (case strip_prefix ''v'' version of Some r \<Rightarrow> r | None \<Rightarrow> version)"

definition os_chars_ok :: "string \<Rightarrow> bool" where
  "os_chars_ok os = list_all is_ascii_lowercase os"

definition arch_chars_ok :: "string \<Rightarrow> bool" where
  "arch_chars_ok arch = list_all (\<lambda>b. is_ascii_lowercase b \<or> is_ascii_digit b) arch"

definition from_parts ::
  "'v semver_parser \<Rightarrow> string \<Rightarrow> string \<Rightarrow> string \<Rightarrow> string \<Rightarrow> (string, archive_name) result" where
  "from_parts semver route_type version os arch =
     (if \<not> os_chars_ok os \<or> \<not> arch_chars_ok arch then Inl ''invalid platform''
      else (let version = strip_v version
            in case semver version of
                 None \<Rightarrow> Inl ''invalid semantic version''
               | Some _ \<Rightarrow> Inr \<lparr>an_provider_type = route_type, an_version = version,
                               an_os = os, an_arch = arch\<rparr>))"

text \<open>The three \<open>fields.next()\<close> calls on \<open>rsplitn(3, sep)\<close>: architecture, operating system,
  version, in this order; a missing field is an error.\<close>

definition parse_fields ::
  "'v semver_parser \<Rightarrow> string \<Rightarrow> char \<Rightarrow> string \<Rightarrow> (string, archive_name) result" where
  "parse_fields semver route_type sep remainder =
     (case rsplitn 3 sep remainder of
        arch # os # version # _ \<Rightarrow> from_parts semver route_type version os arch
      | _ \<Rightarrow> Inl ''invalid archive'')"

definition archive_prefix :: "string \<Rightarrow> string" where
  "archive_prefix route_type = ''terraform-provider-'' @ route_type"

definition parse_archive ::
  "'v semver_parser \<Rightarrow> string \<Rightarrow> string \<Rightarrow> (string, archive_name) result" where
  "parse_archive semver route_type archive =
     (case strip_prefix (archive_prefix route_type) archive of
        None \<Rightarrow> Inl ''invalid type''
      | Some remainder \<Rightarrow>
     (case strip_suffix ''.zip'' remainder of
        None \<Rightarrow> Inl ''invalid archive''
      | Some remainder \<Rightarrow>
     (case strip_prefix ''_'' remainder of
        Some remainder \<Rightarrow> parse_fields semver route_type CHR ''_'' remainder
      | None \<Rightarrow>
     (case strip_prefix ''-'' remainder of
        None \<Rightarrow> Inl ''invalid archive''
      | Some remainder \<Rightarrow>
     (case strip_suffix ''-bin'' remainder of
        None \<Rightarrow> Inl ''invalid archive suffix''
      | Some remainder \<Rightarrow> parse_fields semver route_type CHR ''-'' remainder)))))"

text \<open>
  The two naming styles, as a reference for the parser: the registry's own
  \<^verbatim>\<open>terraform-provider-T_V_OS_ARCH.zip\<close> and the dashed
  \<^verbatim>\<open>terraform-provider-T-V-OS-ARCH-bin.zip\<close>.
\<close>

datatype archive_style = Underscored | Dashed

fun style_sep :: "archive_style \<Rightarrow> char" where
  "style_sep Underscored = CHR ''_''"
| "style_sep Dashed = CHR ''-''"

fun style_suffix :: "archive_style \<Rightarrow> string" where
  "style_suffix Underscored = ''.zip''"
| "style_suffix Dashed = ''-bin.zip''"

definition render_archive ::
  "archive_style \<Rightarrow> string \<Rightarrow> string \<Rightarrow> string \<Rightarrow> string \<Rightarrow> string" where
  "render_archive st ty version os arch =
     archive_prefix ty @ [style_sep st] @ version @ [style_sep st] @ os @
     [style_sep st] @ arch @ style_suffix st"

section \<open>Lemmas\<close>

lemma strip_v_cases: "version = strip_v version \<or> version = CHR ''v'' # strip_v version"
  by (cases version) (auto simp: strip_v_def)

lemma strip_v_no_v [simp]: "strip_prefix ''v'' version = None \<Longrightarrow> strip_v version = version"
  by (simp add: strip_v_def)

lemma strip_v_Cons_v [simp]: "strip_v (CHR ''v'' # version) = version"
  by (simp add: strip_v_def)

lemma separator_not_platform:
  "os_chars_ok os \<Longrightarrow> style_sep st \<notin> set os"
  "arch_chars_ok arch \<Longrightarrow> style_sep st \<notin> set arch"
  by (cases st; auto simp: os_chars_ok_def arch_chars_ok_def list_all_iff char_defs)+

lemma from_parts_ok:
  "from_parts semver ty version os arch = Inr a \<longleftrightarrow>
     os_chars_ok os \<and> arch_chars_ok arch \<and> semver (strip_v version) \<noteq> None \<and>
     a = \<lparr>an_provider_type = ty, an_version = strip_v version, an_os = os, an_arch = arch\<rparr>"
  by (auto simp: from_parts_def Let_def split: option.splits)

lemma rsplitn_3_shape:
  "rsplitn 3 c s = xs \<Longrightarrow> length xs \<le> 3"
proof -
  have three: "(3::nat) = Suc (Suc (Suc 0))" by simp
  show "rsplitn 3 c s = xs \<Longrightarrow> length xs \<le> 3"
    by (auto simp: three split: option.splits)
qed

lemma parse_fields_ok:
  "parse_fields semver ty (style_sep st) s = Inr a \<longleftrightarrow>
     (\<exists>version. s = version @ style_sep st # an_os a @ style_sep st # an_arch a \<and>
        from_parts semver ty version (an_os a) (an_arch a) = Inr a)"
  (is "?lhs \<longleftrightarrow> ?rhs")
proof
  assume ?lhs
  then obtain arch os version r where r: "rsplitn 3 (style_sep st) s = arch # os # version # r"
    and fp: "from_parts semver ty version os arch = Inr a"
    by (auto simp: parse_fields_def split: list.splits)
  from rsplitn_3_shape [OF r] r have "rsplitn 3 (style_sep st) s = [arch, os, version]" by simp
  then have "s = version @ style_sep st # os @ style_sep st # arch"
    by (simp add: rsplitn_3_eq)
  moreover have "os = an_os a" "arch = an_arch a" using fp by (auto simp: from_parts_ok)
  ultimately show ?rhs using fp by blast
next
  assume ?rhs
  then obtain version where s: "s = version @ style_sep st # an_os a @ style_sep st # an_arch a"
    and fp: "from_parts semver ty version (an_os a) (an_arch a) = Inr a" by blast
  from fp have "style_sep st \<notin> set (an_os a)" "style_sep st \<notin> set (an_arch a)"
    by (auto simp: from_parts_ok separator_not_platform)
  with s have "rsplitn 3 (style_sep st) s = [an_arch a, an_os a, version]"
    by (simp add: rsplitn_3_eq)
  with fp show ?lhs by (simp add: parse_fields_def)
qed

lemmas parse_fields_underscored = parse_fields_ok [where st = Underscored, simplified]
lemmas parse_fields_dashed = parse_fields_ok [where st = Dashed, simplified]

text \<open>What a successful parse says, by style.\<close>

lemma parse_archive_ok:
  "parse_archive semver ty s = Inr a \<longleftrightarrow>
     (\<exists>st version. s = render_archive st ty version (an_os a) (an_arch a) \<and>
        from_parts semver ty version (an_os a) (an_arch a) = Inr a)"
  (is "?lhs \<longleftrightarrow> ?rhs")
proof
  assume ?lhs
  then obtain r r' where s: "s = archive_prefix ty @ r" and r: "r = r' @ ''.zip''"
    by (auto simp: parse_archive_def strip_prefix_eq_Some strip_suffix_eq_Some
        split: option.splits)
  show ?rhs
  proof (cases "strip_prefix ''_'' r'")
    case (Some u)
    then have "parse_fields semver ty CHR ''_'' u = Inr a"
      using \<open>?lhs\<close> s r by (simp add: parse_archive_def)
    then obtain version where "u = version @ CHR ''_'' # an_os a @ CHR ''_'' # an_arch a"
      and fp: "from_parts semver ty version (an_os a) (an_arch a) = Inr a"
      by (auto simp: parse_fields_underscored)
    with Some s r have "s = render_archive Underscored ty version (an_os a) (an_arch a)"
      by (simp add: render_archive_def strip_prefix_eq_Some)
    with fp show ?thesis by blast
  next
    case None
    with \<open>?lhs\<close> s r obtain d e where d: "r' = CHR ''-'' # d" and e: "d = e @ ''-bin''"
      and "parse_fields semver ty CHR ''-'' e = Inr a"
      by (auto simp: parse_archive_def strip_prefix_eq_Some strip_suffix_eq_Some
          split: option.splits)
    then obtain version where "e = version @ CHR ''-'' # an_os a @ CHR ''-'' # an_arch a"
      and fp: "from_parts semver ty version (an_os a) (an_arch a) = Inr a"
      by (auto simp: parse_fields_dashed)
    with d e s r have "s = render_archive Dashed ty version (an_os a) (an_arch a)"
      by (simp add: render_archive_def)
    with fp show ?thesis by blast
  qed
next
  assume ?rhs
  then obtain st version where s: "s = render_archive st ty version (an_os a) (an_arch a)"
    and fp: "from_parts semver ty version (an_os a) (an_arch a) = Inr a" by blast
  let ?f = "version @ [style_sep st] @ an_os a @ [style_sep st] @ an_arch a"
  have parsed: "parse_fields semver ty (style_sep st) ?f = Inr a"
    using fp by (auto simp: parse_fields_ok)
  have pre: "strip_prefix (archive_prefix ty) s = Some ([style_sep st] @ ?f @ style_suffix st)"
    using s by (simp add: render_archive_def strip_prefix_eq_Some)
  show ?lhs
  proof (cases st)
    case Underscored
    have "strip_suffix ''.zip'' ([style_sep st] @ ?f @ style_suffix st) = Some (CHR ''_'' # ?f)"
      using Underscored by (simp add: strip_suffix_eq_Some)
    with pre parsed Underscored show ?thesis by (simp add: parse_archive_def)
  next
    case Dashed
    have "strip_suffix ''.zip'' ([style_sep st] @ ?f @ style_suffix st)
        = Some (CHR ''-'' # ?f @ ''-bin'')"
      using Dashed by (simp add: strip_suffix_eq_Some)
    moreover have "strip_suffix ''-bin'' (?f @ ''-bin'') = Some ?f" by (rule strip_suffix_append)
    ultimately show ?thesis using pre parsed Dashed by (simp add: parse_archive_def)
  qed
qed

section \<open>Properties\<close>

text \<open>C24: \<open>ArchiveName::parse\<close> succeeds on exactly the names of the two styles. A parse returns
  \<open>a\<close> if and only if the name is \<open>terraform-provider-T\<close>, the version (with or without one leading
  \<open>v\<close>), the operating system and the architecture joined in one of the two styles, the platform
  fields use only their alphabets, the version is accepted by semver, and \<open>a\<close> holds these parts
  with the route's own provider type.\<close>

theorem parse_archive_characterisation:
  "parse_archive semver ty s = Inr a \<longleftrightarrow>
     an_provider_type a = ty \<and> os_chars_ok (an_os a) \<and> arch_chars_ok (an_arch a) \<and>
     semver (an_version a) \<noteq> None \<and>
     (\<exists>st version. strip_v version = an_version a \<and>
        s = render_archive st ty version (an_os a) (an_arch a))"
proof -
  have "from_parts semver ty version (an_os a) (an_arch a) = Inr a \<longleftrightarrow>
      an_provider_type a = ty \<and> os_chars_ok (an_os a) \<and> arch_chars_ok (an_arch a) \<and>
      semver (an_version a) \<noteq> None \<and> strip_v version = an_version a" for version
    by (cases a) (auto simp: from_parts_ok)
  then show ?thesis by (auto simp: parse_archive_ok)
qed

text \<open>Rendering and parsing round trip. In either style, a name built from a provider type
  (hyphens included, as in \<open>google-beta\<close>), a semantic version that does not itself start with
  \<open>v\<close>, and a well-formed platform is parsed back to exactly these parts, and a \<open>v\<close> put before the
  version does not change the result.\<close>

theorem parse_render_archive:
  assumes "os_chars_ok os" and "arch_chars_ok arch" and "semver version \<noteq> None"
    and "strip_prefix ''v'' version = None"
  shows "parse_archive semver ty (render_archive st ty version os arch) =
           Inr \<lparr>an_provider_type = ty, an_version = version, an_os = os, an_arch = arch\<rparr> \<and>
         parse_archive semver ty (render_archive st ty (CHR ''v'' # version) os arch) =
           Inr \<lparr>an_provider_type = ty, an_version = version, an_os = os, an_arch = arch\<rparr>"
proof -
  let ?a = "\<lparr>an_provider_type = ty, an_version = version, an_os = os, an_arch = arch\<rparr>"
  have "from_parts semver ty version os arch = Inr ?a"
    and "from_parts semver ty (CHR ''v'' # version) os arch = Inr ?a"
    using assms by (auto simp: from_parts_ok)
  then show ?thesis by (auto simp: parse_archive_ok)
qed

theorem parse_render_archive_witness:
  "parse_archive (\<lambda>v. if v = ''4.5.0-beta-1'' then Some () else None) ''google-beta''
     ''terraform-provider-google-beta-v4.5.0-beta-1-linux-arm64-bin.zip'' =
   Inr \<lparr>an_provider_type = ''google-beta'', an_version = ''4.5.0-beta-1'', an_os = ''linux'',
        an_arch = ''arm64''\<rparr>"
proof -
  have "os_chars_ok ''linux''" "arch_chars_ok ''arm64''"
    by (simp_all add: os_chars_ok_def arch_chars_ok_def char_defs)
  from parse_render_archive [OF this, where semver = "\<lambda>v. if v = ''4.5.0-beta-1'' then Some () else None"
      and version = "''4.5.0-beta-1''" and ty = "''google-beta''" and st = Dashed]
  show ?thesis by (simp add: render_archive_def archive_prefix_def)
qed

end
