(* ===== verification/Cert_Der.thy ===== *)
theory Cert_Der
  imports Mirror_Prelude "HOL-Library.Word"
begin

unbundle bit_operations_syntax

text \<open>
  DER primitives of the TLS reloader (\<^verbatim>\<open>src/src/tls_reload.rs\<close>, \<open>read_der_tlv\<close> and
  \<open>read_der_value\<close>). Bytes are 8-bit words and \<open>usize\<close> is a 64-bit word; a reader takes the input
  slice and returns the value read with the input that is left, as the code does through
  \<open>&mut &[u8]\<close>. The reference encoder below is the DER form itself (X.690), against which the
  reader is checked.
\<close>

section \<open>Definitions\<close>

type_synonym byte = "8 word"
type_synonym usize = "64 word"

text \<open>The \<open>bail!\<close> and \<open>with_context\<close> messages, by the label they carry.\<close>

datatype tls_error =
    MissingDerTag string
  | MissingDerLength string
  | IndefiniteDerLength string
  | InvalidDerLength string
  | DerLengthOverflow string
  | DerTruncated string
  | UnexpectedDerTag string byte byte
  | TrailingData string
  | NotUtcTime string
  | InvalidUtcTime string
  | InvalidGeneralizedTime string
  | UnsupportedTimeTag string byte
  | MissingTimeFields string
  | InvalidFractionalSeconds string
  | InvalidCalendarValue string
  | NonDigitTimeField string
  | TimeFieldOverflow string
  | TimestampOverflow string
  | DateOverflow
  | NotBeforeAfterNotAfter
  | CertificateNotYetValid nat int int
  | CertificateExpired nat int int
  | OpenCertificate string
  | EmptyCertificateChain
  | ParsePrivateKey string
  | UnsupportedPrivateKey
  | KeyMismatch

definition checked_shl :: "usize \<Rightarrow> nat \<Rightarrow> usize option" where
  "checked_shl w n = (if n < 64 then Some (push_bit n w) else None)"

definition checked_add :: "usize \<Rightarrow> usize \<Rightarrow> usize option" where
  "checked_add a b = (if unat a + unat b < 2 ^ 64 then Some (a + b) else None)"

fun der_length_bytes :: "usize \<Rightarrow> byte list \<Rightarrow> usize option" where
  "der_length_bytes len [] = Some len"
| "der_length_bytes len (b # bs) =
     (case checked_shl len 8 of
        None \<Rightarrow> None
      | Some v \<Rightarrow> (case checked_add v (ucast b) of
                     None \<Rightarrow> None
                   | Some len' \<Rightarrow> der_length_bytes len' bs))"

text \<open>The length octets after the tag, with \<open>size_of::<usize>() = 8\<close>.\<close>

definition read_der_length :: "string \<Rightarrow> byte \<Rightarrow> byte list \<Rightarrow> (tls_error, usize \<times> byte list) result" where
  "read_der_length label first_length input =
     (if first_length AND 0x80 = 0 then Inr (ucast first_length, input)
      else (let length_bytes = unat (first_length AND 0x7f)
            in if length_bytes = 0 then Inl (IndefiniteDerLength label)
               else if length_bytes > 8 \<or> length_bytes > length input
               then Inl (InvalidDerLength label)
               else (case der_length_bytes 0 (take length_bytes input) of
                       None \<Rightarrow> Inl (DerLengthOverflow label)
                     | Some len \<Rightarrow> Inr (len, drop length_bytes input))))"

definition read_der_tlv ::
  "byte list \<Rightarrow> string \<Rightarrow> (tls_error, (byte \<times> byte list) \<times> byte list) result" where
  "read_der_tlv input label =
     (case input of
        [] \<Rightarrow> Inl (MissingDerTag label)
      | tag # input \<Rightarrow>
     (case input of
        [] \<Rightarrow> Inl (MissingDerLength label)
      | first_length # input \<Rightarrow>
     (case read_der_length label first_length input of
        Inl e \<Rightarrow> Inl e
      | Inr (len, input) \<Rightarrow>
          (if unat len > length input then Inl (DerTruncated label)
           else Inr ((tag, take (unat len) input), drop (unat len) input)))))"

definition read_der_value ::
  "byte list \<Rightarrow> byte \<Rightarrow> string \<Rightarrow> (tls_error, byte list \<times> byte list) result" where
  "read_der_value input expected_tag label =
     (case read_der_tlv input label of
        Inl e \<Rightarrow> Inl e
      | Inr ((tag, value), input) \<Rightarrow>
          (if tag \<noteq> expected_tag then Inl (UnexpectedDerTag label tag expected_tag)
           else Inr (value, input)))"

text \<open>Reference: big-endian numbers and the definite-length encoding.\<close>

definition be_value :: "byte list \<Rightarrow> nat" where
  "be_value bs = foldl (\<lambda>n b. n * 256 + unat b) 0 bs"

fun be_bytes :: "nat \<Rightarrow> byte list" where
  "be_bytes n = (if n = 0 then [] else be_bytes (n div 256) @ [of_nat (n mod 256)])"

definition der_length :: "nat \<Rightarrow> byte list" where
  "der_length n =
     (if n < 128 then [of_nat n] else of_nat (128 + length (be_bytes n)) # be_bytes n)"

definition der_encode :: "byte \<Rightarrow> byte list \<Rightarrow> byte list" where
  "der_encode tag value = tag # der_length (length value) @ value"

section \<open>Lemmas\<close>

declare be_bytes.simps [simp del]

lemma unat_byte: "unat (b :: byte) < 256"
  using unsigned_less [of b] by simp

lemma unat_ucast_byte: "unat (ucast (b :: byte) :: usize) = unat b"
  using unat_byte [of b] by (simp add: unsigned_ucast_eq take_bit_nat_eq_self)

lemma be_value_snoc: "be_value (bs @ [b]) = be_value bs * 256 + unat b"
  by (simp add: be_value_def)

lemma be_value_Nil [simp]: "be_value [] = 0"
  by (simp add: be_value_def)

lemma foldl_be: "foldl (\<lambda>n b. n * 256 + unat b) k bs = k * 256 ^ length bs + be_value bs"
  for bs :: "byte list"
proof (induction bs rule: rev_induct)
  case (snoc b bs)
  then show ?case by (simp add: be_value_snoc algebra_simps)
qed simp

lemma be_value_Cons: "be_value (b # bs) = unat b * 256 ^ length bs + be_value bs"
  using foldl_be [of "unat b" bs] by (simp add: be_value_def)

lemma be_value_bound: "be_value bs < 256 ^ length bs"
proof (induction bs rule: rev_induct)
  case (snoc b bs)
  have "unat b < 256" by (rule unat_byte)
  with snoc show ?case by (simp add: be_value_snoc)
qed simp

lemma be_value_be_bytes [simp]: "be_value (be_bytes n) = n"
proof (induction n rule: be_bytes.induct)
  case (1 n)
  show ?case
  proof (cases "n = 0")
    case False
    have "unat (of_nat (n mod 256) :: byte) = n mod 256"
      by (simp add: unat_of_nat)
    with False 1 show ?thesis by (subst be_bytes.simps) (simp add: be_value_snoc)
  qed (simp add: be_bytes.simps)
qed

lemma length_be_bytes: "n < 256 ^ k \<Longrightarrow> length (be_bytes n) \<le> k"
proof (induction k arbitrary: n)
  case (Suc k)
  have "n div 256 < 256 ^ k" using Suc.prems by (simp add: less_mult_imp_div_less mult.commute)
  then have "length (be_bytes (n div 256)) \<le> k" by (rule Suc.IH)
  then show ?case by (subst be_bytes.simps) simp
qed (simp add: be_bytes.simps)

lemma be_bytes_eq_Nil [simp]: "be_bytes n = [] \<longleftrightarrow> n = 0"
  by (subst be_bytes.simps) simp

text \<open>With at most eight bytes in all, no shift loses a bit and no addition overflows: the length
  is the big-endian value, and the overflow branch of the source is dead.\<close>

lemma der_length_step:
  assumes "unat len * 256 + unat b < 2 ^ 64"
  shows "checked_shl len 8 = Some (push_bit 8 len)"
    and "checked_add (push_bit 8 len) (ucast b) = Some (push_bit 8 len + ucast b)"
    and "unat (push_bit 8 len + ucast (b :: byte)) = unat len * 256 + unat b"
proof -
  have shl: "unat (push_bit 8 len) = unat len * 256"
    using assms by (simp add: push_bit_eq_mult unat_word_ariths)
  have b: "unat (ucast b :: usize) = unat b" by (rule unat_ucast_byte)
  show "checked_shl len 8 = Some (push_bit 8 len)" by (simp add: checked_shl_def)
  show "checked_add (push_bit 8 len) (ucast b) = Some (push_bit 8 len + ucast b)"
    using assms shl b by (simp add: checked_add_def)
  show "unat (push_bit 8 len + ucast b) = unat len * 256 + unat b"
    using assms shl b by (simp add: unat_word_ariths)
qed

lemma der_length_bytes_from:
  "unat len * 256 ^ length bs + be_value bs < 2 ^ 64 \<Longrightarrow>
   \<exists>w. der_length_bytes len bs = Some w \<and> unat w = unat len * 256 ^ length bs + be_value bs"
proof (induction bs arbitrary: len)
  case (Cons b bs)
  let ?n = "unat len * 256 + unat b"
  have total: "?n * 256 ^ length bs + be_value bs < 2 ^ 64"
    using Cons.prems by (simp add: be_value_Cons algebra_simps)
  have "?n * 1 \<le> ?n * 256 ^ length bs" by (rule mult_le_mono2) simp
  then have "?n \<le> ?n * 256 ^ length bs + be_value bs" by (simp only: mult_1_right trans_le_add1)
  also note total
  finally have small: "?n < 2 ^ 64" .
  note step = der_length_step [OF small]
  from Cons.IH [of "push_bit 8 len + ucast b"] total step
  obtain w where "der_length_bytes (push_bit 8 len + ucast b) bs = Some w"
    and "unat w = ?n * 256 ^ length bs + be_value bs" by auto
  with step show ?case by (simp add: be_value_Cons algebra_simps)
qed simp

lemma der_length_bytes_ok:
  assumes "length bs \<le> 8"
  obtains w where "der_length_bytes 0 bs = Some w" and "unat w = be_value bs"
proof -
  have "be_value bs < 256 ^ length bs" by (rule be_value_bound)
  also have "\<dots> \<le> 256 ^ 8" using assms by (intro power_increasing) auto
  finally show ?thesis using der_length_bytes_from [of 0 bs] that by auto
qed

lemma length_octet_short:
  assumes "n < 128"
  shows "(of_nat n :: byte) AND 0x80 = 0" and "unat (ucast (of_nat n :: byte) :: usize) = n"
proof -
  have "(of_nat n :: byte) = take_bit 7 (of_nat n)"
    using assms by (simp add: take_bit_of_nat take_bit_nat_eq_self)
  then have "(of_nat n :: byte) AND 0x80 = take_bit 7 (of_nat n) AND 0x80" by simp
  also have "\<dots> = 0"
    by (rule bit_word_eqI) (auto simp: bit_and_iff bit_take_bit_iff bit_numeral_rec less_Suc_eq numeral_eq_Suc)
  finally show "(of_nat n :: byte) AND 0x80 = 0" .
  show "unat (ucast (of_nat n :: byte) :: usize) = n"
    using assms by (simp add: unat_ucast_byte unat_of_nat)
qed

lemma length_octet_long:
  "k \<in> {1..8} \<Longrightarrow> (of_nat (128 + k) :: byte) AND 0x80 \<noteq> 0 \<and>
     unat ((of_nat (128 + k) :: byte) AND 0x7f) = k"
proof -
  assume "k \<in> {1..8}"
  then have "k \<in> {1, 2, 3, 4, 5, 6, 7, 8}" by auto
  then show ?thesis by (elim insertE emptyE) simp_all
qed

lemma read_der_length_encoded:
  assumes "n < 2 ^ 64"
  obtains w where "read_der_length label (hd (der_length n)) (tl (der_length n) @ rest) = Inr (w, rest)"
    and "unat w = n"
proof (cases "n < 128")
  case True
  then show ?thesis using that length_octet_short [OF True]
    by (simp add: der_length_def read_der_length_def)
next
  case False
  let ?k = "length (be_bytes n)"
  have k8: "?k \<le> 8" using assms by (intro length_be_bytes) simp
  have "?k \<noteq> 0" using False by simp
  with k8 have "?k \<in> {1..8}" by (simp add: Suc_le_eq)
  note oct = length_octet_long [OF this]
  obtain w where "der_length_bytes 0 (be_bytes n) = Some w" and "unat w = n"
    using der_length_bytes_ok [OF k8] by auto
  with oct k8 \<open>?k \<noteq> 0\<close> False that show ?thesis
    by (simp add: der_length_def read_der_length_def Let_def)
qed

lemma der_length_not_Nil [simp]: "der_length n \<noteq> []"
  by (simp add: der_length_def)

lemma read_der_tlv_encode:
  assumes "length value < 2 ^ 64"
  shows "read_der_tlv (der_encode tag value @ rest) label = Inr ((tag, value), rest)"
proof -
  obtain w where w: "read_der_length label (hd (der_length (length value)))
      (tl (der_length (length value)) @ value @ rest) = Inr (w, value @ rest)"
    and "unat w = length value"
    using read_der_length_encoded [OF assms] by metis
  obtain x xs where "der_length (length value) = x # xs"
    by (cases "der_length (length value)") auto
  with w \<open>unat w = length value\<close> show ?thesis
    by (simp add: read_der_tlv_def der_encode_def)
qed

lemma read_der_value_encode [simp]:
  "length value < 2 ^ 64 \<Longrightarrow> read_der_value (der_encode tag value @ rest) tag label = Inr (value, rest)"
  by (simp add: read_der_value_def read_der_tlv_encode)

lemma read_der_length_splits:
  "read_der_length label f input = Inr (w, rest) \<Longrightarrow> \<exists>hdr. input = hdr @ rest"
  by (auto simp: read_der_length_def Let_def split: if_splits option.splits)
    (metis append_take_drop_id)

lemma read_der_tlv_splits:
  assumes "read_der_tlv input label = Inr ((tag, value), rest)"
  obtains hdr where "input = tag # hdr @ value @ rest" and "hdr \<noteq> []"
proof -
  obtain f xs len ys where input: "input = tag # f # xs"
    and len: "read_der_length label f xs = Inr (len, ys)"
    and v: "value = take (unat len) ys" "rest = drop (unat len) ys"
    using assms by (auto simp: read_der_tlv_def split: list.splits sum.splits if_splits)
  from read_der_length_splits [OF len] obtain hdr where "xs = hdr @ ys" ..
  with input v have "input = tag # (f # hdr) @ value @ rest" by simp
  then show ?thesis by (rule that) simp
qed

lemma read_der_tlv_consumes:
  "read_der_tlv input label = Inr ((tag, value), rest) \<Longrightarrow> length value + length rest + 2 \<le> length input"
  by (erule read_der_tlv_splits) (auto simp: neq_Nil_conv)

section \<open>Properties\<close>

text \<open>The TLV reader decodes every definite-length DER encoding: for any tag, any value whose
  length fits a \<open>usize\<close> and any following bytes, \<open>read_der_tlv\<close> returns the tag and the value and
  leaves exactly the following bytes.\<close>

theorem read_der_tlv_roundtrip:
  assumes "length value < 2 ^ 64"
  shows "read_der_tlv (der_encode tag value @ rest) label = Inr ((tag, value), rest)"
  using assms by (rule read_der_tlv_encode)

theorem read_der_tlv_roundtrip_witness:
  "read_der_tlv ([0x17, 0x81, 0x80] @ replicate 128 7 @ [0x05, 0x00]) ''t'' =
     Inr ((0x17, replicate 128 7), [0x05, 0x00])"
proof -
  have be: "be_bytes 128 = [0x80]" by (simp add: be_bytes.simps)
  have "der_encode 0x17 (replicate 128 7) = [0x17, 0x81, 0x80] @ replicate 128 7"
    by (simp only: der_encode_def der_length_def length_replicate be) simp
  moreover have "length (replicate 128 (7::byte)) < 2 ^ 64" by (simp only: length_replicate) simp
  ultimately show ?thesis
    using read_der_tlv_roundtrip [of "replicate 128 7" "0x17" "[0x05, 0x00]" "''t''"]
    by (simp only: append.assoc)
qed

text \<open>The TLV reader never reads outside its input and never overflows: a successful read splits
  the input into the tag, a non-empty length header, the value and the remaining input, and the
  length-overflow error of the long form is unreachable because at most eight length bytes are
  accepted.\<close>

theorem read_der_tlv_safe:
  "(read_der_tlv input label = Inr ((tag, value), rest) \<longrightarrow>
      (\<exists>hdr. hdr \<noteq> [] \<and> input = tag # hdr @ value @ rest)) \<and>
   read_der_tlv input label \<noteq> Inl (DerLengthOverflow label)"
proof (intro conjI impI)
  assume "read_der_tlv input label = Inr ((tag, value), rest)"
  then show "\<exists>hdr. hdr \<noteq> [] \<and> input = tag # hdr @ value @ rest"
    by (rule read_der_tlv_splits) blast
next
  have "read_der_length label f xs \<noteq> Inl (DerLengthOverflow label)" for f xs
  proof (cases "unat (f AND 0x7f) \<le> 8")
    case True
    then have "length (take (unat (f AND 0x7f)) xs) \<le> 8" by simp
    then obtain w where "der_length_bytes 0 (take (unat (f AND 0x7f)) xs) = Some w"
      by (rule der_length_bytes_ok)
    then show ?thesis by (simp add: read_der_length_def Let_def)
  qed (simp add: read_der_length_def Let_def)
  then show "read_der_tlv input label \<noteq> Inl (DerLengthOverflow label)"
    by (auto simp: read_der_tlv_def split: list.splits sum.splits)
qed

theorem read_der_tlv_safe_witness:
  "(\<exists>hdr. hdr \<noteq> [] \<and> [0x02, 0x01, 0x2a, 0x05] = 0x02 # hdr @ [0x2a] @ [0x05 :: byte])"
proof -
  have "read_der_tlv [0x02, 0x01, 0x2a, 0x05] ''serial'' = Inr ((0x02, [0x2a]), [0x05])"
    by (simp add: read_der_tlv_def read_der_length_def)
  then show ?thesis using read_der_tlv_safe by blast
qed

end
