(* ===== verification/Cert_Time.thy ===== *)
theory Cert_Time
  imports Cert_Der "HOL-Library.Signed_Division"
begin

text \<open>
  Certificate times (\<^verbatim>\<open>src/src/tls_reload.rs\<close>): the calendar (\<open>is_leap_year\<close>,
  \<open>days_in_month\<close>, \<open>days_from_civil\<close>), the parser of \<open>UTCTime\<close> and \<open>GeneralizedTime\<close>
  (\<open>parse_digits\<close>, \<open>parse_certificate_time\<close>) and \<open>unix_timestamp\<close>. An \<open>i64\<close> is an \<^typ>\<open>int\<close>;
  the checked operations test its range, and Rust's truncating \<open>/\<close> and \<open>%\<close> are
  \<^const>\<open>signed_divide\<close> and \<^const>\<open>signed_modulo\<close>. The plain \<open>+\<close>, \<open>-\<close> and \<open>*\<close> of the sources act
  on calendar fields of at most four digits, far inside the range.
\<close>

section \<open>Definitions\<close>

definition i64_min :: int where "i64_min = - (2 ^ 63)"
definition i64_max :: int where "i64_max = 2 ^ 63 - 1"

definition in_i64 :: "int \<Rightarrow> bool" where
  "in_i64 x \<longleftrightarrow> i64_min \<le> x \<and> x \<le> i64_max"

definition checked_i64 :: "int \<Rightarrow> int option" where
  "checked_i64 x = (if in_i64 x then Some x else None)"

definition is_leap_year :: "int \<Rightarrow> bool" where
  "is_leap_year year \<longleftrightarrow> year smod 4 = 0 \<and> (year smod 100 \<noteq> 0 \<or> year smod 400 = 0)"

definition days_in_month :: "int \<Rightarrow> int \<Rightarrow> int" where
  "days_in_month year month =
     (if month = 2 \<and> is_leap_year year then 29
      else if month = 2 then 28
      else if month \<in> {4, 6, 9, 11} then 30
      else 31)"

definition days_from_civil :: "int \<Rightarrow> int \<Rightarrow> int \<Rightarrow> (tls_error, int) result" where
  "days_from_civil year month day =
     (let adjusted_year = year - (if month \<le> 2 then 1 else 0);
          era = (if adjusted_year \<ge> 0 then adjusted_year sdiv 400 else (adjusted_year - 399) sdiv 400);
          year_of_era = adjusted_year - era * 400;
          month_of_year = month + (if month > 2 then -3 else 9);
          day_of_year = (153 * month_of_year + 2) sdiv 5 + day - 1;
          day_of_era = year_of_era * 365 + year_of_era sdiv 4 - year_of_era sdiv 100 + day_of_year
      in case checked_i64 (era * 146097) of
           None \<Rightarrow> Inl DateOverflow
         | Some value \<Rightarrow>
        (case checked_i64 (value + day_of_era) of
           None \<Rightarrow> Inl DateOverflow
         | Some value \<Rightarrow>
        (case checked_i64 (value - 719468) of
           None \<Rightarrow> Inl DateOverflow
         | Some value \<Rightarrow> Inr value)))"

definition byte_is_digit :: "byte \<Rightarrow> bool" where
  "byte_is_digit b \<longleftrightarrow> 48 \<le> unat b \<and> unat b \<le> 57"

fun digits_fold :: "string \<Rightarrow> int \<Rightarrow> byte list \<Rightarrow> (tls_error, int) result" where
  "digits_fold label v [] = Inr v"
| "digits_fold label v (b # bs) =
     (case checked_i64 (v * 10) of
        None \<Rightarrow> Inl (TimeFieldOverflow label)
      | Some v' \<Rightarrow> (case checked_i64 (v' + (int (unat b) - 48)) of
                      None \<Rightarrow> Inl (TimeFieldOverflow label)
                    | Some v'' \<Rightarrow> digits_fold label v'' bs))"

definition parse_digits :: "byte list \<Rightarrow> string \<Rightarrow> (tls_error, int) result" where
  "parse_digits value label =
     (if value = [] \<or> list_ex (\<lambda>b. \<not> byte_is_digit b) value then Inl (NonDigitTimeField label)
      else digits_fold label 0 value)"

text \<open>The \<open>match tag\<close> of \<open>parse_certificate_time\<close>: the year and the remaining fields.\<close>

definition parse_year :: "byte \<Rightarrow> byte list \<Rightarrow> string \<Rightarrow> (tls_error, int \<times> byte list) result" where
  "parse_year tag value label =
     (if tag = 0x17 then
        (if length value \<noteq> 12 then Inl (InvalidUtcTime label)
         else (case parse_digits (take 2 value) label of
                 Inl e \<Rightarrow> Inl e
               | Inr year \<Rightarrow> Inr (if year \<ge> 50 then 1900 + year else 2000 + year, drop 2 value)))
      else if tag = 0x18 then
        (if length value < 14 then Inl (InvalidGeneralizedTime label)
         else (case parse_digits (take 4 value) label of
                 Inl e \<Rightarrow> Inl e
               | Inr year \<Rightarrow> Inr (year, drop 4 value)))
      else Inl (UnsupportedTimeTag label tag))"

definition slice :: "nat \<Rightarrow> nat \<Rightarrow> 'a list \<Rightarrow> 'a list" where
  "slice a b xs = take (b - a) (drop a xs)"

text \<open>The fraction of a second is checked and then dropped.\<close>

definition fraction_invalid :: "byte list \<Rightarrow> bool" where
  "fraction_invalid fields \<longleftrightarrow> length fields > 10 \<and>
     (fields ! 10 \<noteq> 46 \<or> length fields = 11 \<or> list_ex (\<lambda>b. \<not> byte_is_digit b) (drop 11 fields))"

definition calendar_invalid :: "int \<Rightarrow> int \<Rightarrow> int \<Rightarrow> int \<Rightarrow> int \<Rightarrow> int \<Rightarrow> bool" where
  "calendar_invalid year month day hour minute second \<longleftrightarrow>
     \<not> (1 \<le> month \<and> month \<le> 12) \<or> day = 0 \<or> day > days_in_month year month \<or>
     hour > 23 \<or> minute > 59 \<or> second > 59"

definition timestamp_of :: "string \<Rightarrow> int \<Rightarrow> int \<Rightarrow> int \<Rightarrow> int \<Rightarrow> (tls_error, int) result" where
  "timestamp_of label days hour minute second =
     (case checked_i64 (days * 86400) of
        None \<Rightarrow> Inl (TimestampOverflow label)
      | Some v \<Rightarrow> (case checked_i64 (v + hour * 3600) of
        None \<Rightarrow> Inl (TimestampOverflow label)
      | Some v \<Rightarrow> (case checked_i64 (v + minute * 60) of
        None \<Rightarrow> Inl (TimestampOverflow label)
      | Some v \<Rightarrow> (case checked_i64 (v + second) of
        None \<Rightarrow> Inl (TimestampOverflow label)
      | Some v \<Rightarrow> Inr v))))"

definition parse_certificate_time :: "byte \<Rightarrow> byte list \<Rightarrow> string \<Rightarrow> (tls_error, int) result" where
  "parse_certificate_time tag value label =
     (if value = [] \<or> last value \<noteq> 90 then Inl (NotUtcTime label)
      else try_bind (parse_year tag (butlast value) label) (\<lambda>(year, fields).
        if length fields < 10 then Inl (MissingTimeFields label)
        else
        try_bind (parse_digits (slice 0 2 fields) label) (\<lambda>month.
        try_bind (parse_digits (slice 2 4 fields) label) (\<lambda>day.
        try_bind (parse_digits (slice 4 6 fields) label) (\<lambda>hour.
        try_bind (parse_digits (slice 6 8 fields) label) (\<lambda>minute.
        try_bind (parse_digits (slice 8 10 fields) label) (\<lambda>second.
        if fraction_invalid fields then Inl (InvalidFractionalSeconds label)
        else if calendar_invalid year month day hour minute second
        then Inl (InvalidCalendarValue label)
        else try_bind (days_from_civil year month day) (\<lambda>days.
          timestamp_of label days hour minute second)))))))) "

text \<open>\<open>unix_timestamp\<close>: whole seconds before or after the epoch, clamped to \<open>i64\<close>; the argument is
  the signed distance of the \<open>SystemTime\<close> from the epoch in nanoseconds.\<close>

definition unix_timestamp :: "int \<Rightarrow> int" where
  "unix_timestamp t =
     (if 0 \<le> t then min (t div 1000000000) i64_max
      else - min ((- t) div 1000000000) i64_max)"

text \<open>Reference calendar: valid dates and the day after.\<close>

definition valid_date :: "int \<Rightarrow> int \<Rightarrow> int \<Rightarrow> bool" where
  "valid_date y m d \<longleftrightarrow> 1 \<le> m \<and> m \<le> 12 \<and> 1 \<le> d \<and> d \<le> days_in_month y m"

definition next_day :: "int \<times> int \<times> int \<Rightarrow> int \<times> int \<times> int" where
  "next_day = (\<lambda>(y, m, d).
     if d < days_in_month y m then (y, m, d + 1)
     else if m < 12 then (y, m + 1, 1)
     else (y + 1, 1, 1))"

text \<open>Reference times: decimal digits, and a \<open>GeneralizedTime\<close> or \<open>UTCTime\<close> in the form RFC 5280
  prescribes.\<close>

definition digit_byte :: "int \<Rightarrow> byte" where
  "digit_byte n = of_nat (48 + nat (n mod 10))"

definition two_digits :: "int \<Rightarrow> byte list" where
  "two_digits n = [digit_byte (n div 10), digit_byte n]"

definition time_fields :: "int \<Rightarrow> int \<Rightarrow> int \<Rightarrow> int \<Rightarrow> int \<Rightarrow> byte list" where
  "time_fields month day hour minute second =
     two_digits month @ two_digits day @ two_digits hour @ two_digits minute @ two_digits second"

definition generalized_time :: "int \<Rightarrow> int \<Rightarrow> int \<Rightarrow> int \<Rightarrow> int \<Rightarrow> int \<Rightarrow> byte list" where
  "generalized_time year month day hour minute second =
     two_digits (year div 100) @ two_digits (year mod 100) @
     time_fields month day hour minute second @ [90]"

definition utc_time :: "int \<Rightarrow> int \<Rightarrow> int \<Rightarrow> int \<Rightarrow> int \<Rightarrow> int \<Rightarrow> byte list" where
  "utc_time year month day hour minute second =
     two_digits (year mod 100) @ time_fields month day hour minute second @ [90]"

section \<open>Lemmas\<close>

lemma checked_i64_ok [simp]: "in_i64 x \<Longrightarrow> checked_i64 x = Some x"
  by (simp add: checked_i64_def)

lemma in_i64_bound: "- (2 ^ 62) \<le> x \<Longrightarrow> x \<le> 2 ^ 62 \<Longrightarrow> in_i64 x"
  by (simp add: in_i64_def i64_min_def i64_max_def)

lemma sdiv_nonneg: "0 \<le> a \<Longrightarrow> 0 < b \<Longrightarrow> a sdiv b = a div b" for a b :: int
  by (cases "a = 0") (auto simp: signed_divide_int_def sgn_if)

lemma smod_zero_iff: "a smod b = 0 \<longleftrightarrow> b dvd a" for a b :: int
  by (auto simp: signed_modulo_int_def sgn_eq_0_iff mod_eq_0_iff_dvd)

lemma leap_year_iff: "is_leap_year y \<longleftrightarrow> 4 dvd y \<and> (\<not> 100 dvd y \<or> 400 dvd y)"
  by (simp add: is_leap_year_def smod_zero_iff)

subsection \<open>The calendar\<close>

text \<open>The number of days before the first of March of year \<open>y\<close>, in floor divisions, and the era
  computation of the source as that number.\<close>

definition days_to_march :: "int \<Rightarrow> int" where
  "days_to_march y = 365 * y + y div 4 - y div 100 + y div 400"

lemma era_floor:
  fixes a :: int
  shows "(if a \<ge> 0 then a sdiv 400 else (a - 399) sdiv 400) = a div 400"
proof (cases "0 \<le> a")
  case False
  have "399 - a = 400 * - (a div 400) + (399 - a mod 400)"
    using minus_mult_div_eq_mod [of a 400] by simp
  moreover have "0 \<le> 399 - a mod 400" "399 - a mod 400 < 400" by simp_all
  ultimately have "(399 - a) div 400 = - (a div 400)" by (rule int_div_pos_eq)
  with False show ?thesis by (simp add: signed_divide_int_def abs_if sgn_if)
qed (simp add: sdiv_nonneg)

lemma era_days:
  fixes a :: int
  defines "r \<equiv> a - a div 400 * 400"
  shows "a div 400 * 146097 + (r * 365 + r div 4 - r div 100) = days_to_march a"
proof -
  define e where "e = a div 400"
  have a4: "a = r + 4 * (100 * e)" and a100: "a = r + 100 * (4 * e)"
    by (simp_all add: r_def e_def)
  have "(r + 4 * (100 * e)) div 4 = 100 * e + r div 4"
    and "(r + 100 * (4 * e)) div 100 = 4 * e + r div 100"
    by (subst div_mult_self2; simp)+
  then have "a div 4 = 100 * e + r div 4" and "a div 100 = 4 * e + r div 100"
    using a4 a100 by metis+
  moreover have "365 * a = 365 * r + 146000 * e" using a4 by simp
  ultimately show ?thesis by (simp add: days_to_march_def e_def [symmetric])
qed

definition civil_days :: "int \<Rightarrow> int \<Rightarrow> int \<Rightarrow> int" where
  "civil_days y m d =
     days_to_march (if m \<le> 2 then y - 1 else y) +
     (153 * (if m \<le> 2 then m + 9 else m - 3) + 2) div 5 + d - 719469"

lemma days_in_month_bounds: "28 \<le> days_in_month y m \<and> days_in_month y m \<le> 31"
  by (simp add: days_in_month_def)

lemma days_from_civil_eq:
  assumes "valid_date y m d" and "\<bar>y\<bar> \<le> 2 ^ 40"
  shows "days_from_civil y m d = Inr (civil_days y m d)"
proof -
  define a where "a = y - (if m \<le> 2 then 1 else 0)"
  define r where "r = a - a div 400 * 400"
  define doy where "doy = (153 * (m + (if m > 2 then -3 else 9)) + 2) sdiv 5 + d - 1"
  have md: "1 \<le> m" "m \<le> 12" "1 \<le> d" "d \<le> 31"
    using assms(1) days_in_month_bounds [of y m] by (auto simp: valid_date_def)
  have r: "0 \<le> r" "r < 400" by (simp_all add: r_def minus_div_mult_eq_mod)
  have doy: "doy = (153 * (if m \<le> 2 then m + 9 else m - 3) + 2) div 5 + d - 1"
    using md by (simp add: doy_def sdiv_nonneg)
  have doyb: "0 \<le> doy" "doy \<le> 400" using md doy by (auto split: if_splits)
  have ya: "(if m \<le> 2 then y - 1 else y) = a" by (simp add: a_def)
  have march: "days_to_march a = a div 400 * 146097 + (r * 365 + r div 4 - r div 100)"
    unfolding r_def by (rule era_days [symmetric])
  have civ: "civil_days y m d = a div 400 * 146097 + (r * 365 + r div 4 - r div 100 + doy) - 719468"
    unfolding civil_days_def ya march doy by (simp only: algebra_simps)
  define e w where "e = a div 400" and "w = r * 365 + r div 4 - r div 100 + doy"
  have "r div 4 \<in> {0..100}" "r div 100 \<in> {0..4}" using r by auto
  then have w: "- 4 \<le> w" "w \<le> 146600" using r doyb by (auto simp: w_def)
  have "- (2 ^ 41) \<le> a" "a \<le> 2 ^ 41" using assms(2) by (auto simp: a_def)
  moreover have "a = 400 * e + a mod 400" "0 \<le> a mod 400" "a mod 400 < 400"
    by (simp_all add: e_def)
  ultimately have e: "- (2 ^ 41) \<le> e" "e \<le> 2 ^ 41" by simp_all
  have "in_i64 (e * 146097)" "in_i64 (e * 146097 + w)" "in_i64 (e * 146097 + w - 719468)"
    by (rule in_i64_bound; use e w in simp)+
  moreover have "r sdiv 4 = r div 4" "r sdiv 100 = r div 100" using r by (simp_all add: sdiv_nonneg)
  ultimately show ?thesis
    unfolding days_from_civil_def Let_def era_floor a_def [symmetric] r_def [symmetric]
      doy_def [symmetric] civ by (simp add: e_def w_def)
qed

text \<open>One year is one day longer when it is a leap year, and every calendar step is one day.\<close>

lemma div_step:
  fixes y n :: int
  assumes "0 < n"
  shows "y div n = (y - 1) div n + (if n dvd y then 1 else 0)"
proof (cases "n dvd y")
  case True
  then obtain q where q: "y = n * q" ..
  have "(y - 1) div n = q - 1"
    using assms by (intro int_div_pos_eq [of _ _ _ "n - 1"]) (auto simp: q algebra_simps)
  then show ?thesis using True assms q by simp
next
  case False
  have y: "y - 1 = n * (y div n) + (y mod n - 1)" by simp
  have "y mod n \<noteq> 0" using False by (simp add: mod_eq_0_iff_dvd)
  moreover have "0 \<le> y mod n" "y mod n < n" using assms by simp_all
  ultimately have "(y - 1) div n = y div n" by (intro int_div_pos_eq [OF y]) linarith+
  then show ?thesis using False by simp
qed

lemma days_to_march_step:
  "days_to_march y = days_to_march (y - 1) + (if is_leap_year y then 366 else 365)"
proof -
  define a b c where "a = (y - 1) div 4" and "b = (y - 1) div 100" and "c = (y - 1) div 400"
  have divs: "y div 4 = a + (if 4 dvd y then 1 else 0)"
      "y div 100 = b + (if 100 dvd y then 1 else 0)" "y div 400 = c + (if 400 dvd y then 1 else 0)"
    unfolding a_def b_def c_def by (rule div_step, simp)+
  have "100 dvd y \<Longrightarrow> 4 dvd y" by (rule dvd_trans [of 4 100]) simp_all
  moreover have "400 dvd y \<Longrightarrow> 100 dvd y" by (rule dvd_trans [of 100 400]) simp_all
  ultimately show ?thesis
    unfolding days_to_march_def divs leap_year_iff a_def [symmetric] b_def [symmetric] c_def [symmetric]
    by (cases "4 dvd y"; cases "100 dvd y"; cases "400 dvd y") simp_all
qed

lemma days_to_march_mono: "a \<le> b \<Longrightarrow> days_to_march a \<le> days_to_march b"
proof (induction b rule: int_ge_induct)
  case (step b)
  then show ?case using days_to_march_step [of "b + 1"] by (simp split: if_splits)
qed simp

lemma month_cases:
  "1 \<le> m \<Longrightarrow> m \<le> 12 \<Longrightarrow> m = 1 \<or> m = 2 \<or> m = 3 \<or> m = 4 \<or> m = 5 \<or> m = 6 \<or> m = 7 \<or> m = 8
     \<or> m = 9 \<or> m = 10 \<or> m = 11 \<or> m = 12" for m :: int
  by presburger

lemma civil_days_next:
  assumes "valid_date y m d" and "next_day (y, m, d) = (y', m', d')"
  shows "civil_days y' m' d' = civil_days y m d + 1" and "valid_date y' m' d'"
    and "y' = y \<or> y' = y + 1"
proof -
  note v = assms(1) [unfolded valid_date_def]
  have "civil_days y' m' d' = civil_days y m d + 1 \<and> valid_date y' m' d' \<and> (y' = y \<or> y' = y + 1)"
  proof (cases "d < days_in_month y m")
    case True
    with assms v show ?thesis by (auto simp: next_day_def valid_date_def civil_days_def)
  next
    case False
    with v have d: "d = days_in_month y m" by simp
    have m: "1 \<le> m" "m \<le> 12" using v by auto
    have "m < 12 \<Longrightarrow> civil_days y (m + 1) 1 = civil_days y m d + 1"
      using month_cases [OF m] days_to_march_step [of y] d
      by (elim disjE) (simp_all add: civil_days_def days_in_month_def)
    moreover have "m = 12 \<Longrightarrow> civil_days (y + 1) 1 1 = civil_days y m d + 1"
      using d by (simp add: civil_days_def days_in_month_def)
    ultimately show ?thesis
      using assms(2) False m days_in_month_bounds [of y "m + 1"] days_in_month_bounds [of "y + 1" 1]
      by (auto simp: next_day_def valid_date_def split: if_splits)
  qed
  then show "civil_days y' m' d' = civil_days y m d + 1" and "valid_date y' m' d'"
    and "y' = y \<or> y' = y + 1" by simp_all
qed

lemma civil_days_four_digit_years:
  assumes "valid_date y m d" and "0 \<le> y" and "y \<le> 9999"
  shows "- 719528 \<le> civil_days y m d \<and> civil_days y m d \<le> 2932896"
proof -
  note v = assms(1) [unfolded valid_date_def]
  have m: "1 \<le> m" "m \<le> 12" and d: "1 \<le> d" "d \<le> days_in_month y m" using v by auto
  let ?y = "if m \<le> 2 then y - 1 else y"
  have "days_to_march ?y \<le> (if m \<le> 2 then days_to_march 9998 else days_to_march 9999)"
    and "(if m \<le> 2 then days_to_march (- 1) else days_to_march 0) \<le> days_to_march ?y"
    using assms(2,3) by (auto intro!: days_to_march_mono)
  moreover have "days_to_march (- 1) = - 366" "days_to_march 0 = 0"
    "days_to_march 9998 = 3651694" "days_to_march 9999 = 3652059"
    by (simp_all add: days_to_march_def)
  ultimately show ?thesis
    using month_cases [OF m] d
    by (elim disjE) (auto simp: civil_days_def days_in_month_def split: if_splits)
qed

subsection \<open>Digits and times\<close>

lemma unat_digit_byte: "unat (digit_byte n) = 48 + nat (n mod 10)"
proof -
  have "nat (n mod 10) < 10" by simp
  then show ?thesis by (simp only: digit_byte_def unat_of_nat) simp
qed

lemma digit_byte_is_digit [simp]: "byte_is_digit (digit_byte n)"
proof -
  have "nat (n mod 10) < 10" by simp
  then show ?thesis by (simp add: byte_is_digit_def unat_digit_byte)
qed

lemma digits_fold_digit:
  assumes "0 \<le> v" and "v \<le> 100000"
  shows "digits_fold label v (digit_byte k # bs) = digits_fold label (v * 10 + k mod 10) bs"
proof -
  have k: "0 \<le> k mod 10" "k mod 10 < 10" by simp_all
  have "in_i64 (v * 10)" "in_i64 (v * 10 + k mod 10)" by (rule in_i64_bound; use assms k in simp)+
  with k show ?thesis by (simp add: unat_digit_byte)
qed

lemma parse_two_digits [simp]:
  assumes "0 \<le> n" and "n \<le> 99"
  shows "parse_digits (two_digits n) label = Inr n"
proof -
  have b: "0 \<le> n div 10" "n div 10 \<le> 9" using assms by simp_all
  then have m: "n div 10 mod 10 = n div 10" by simp
  have "parse_digits (two_digits n) label = digits_fold label 0 (two_digits n)"
    by (simp add: parse_digits_def two_digits_def)
  also have "\<dots> = Inr (n div 10 * 10 + n mod 10)"
    using b by (simp add: two_digits_def digits_fold_digit m del: digits_fold.simps(2))
  also have "n div 10 * 10 + n mod 10 = n" by simp
  finally show ?thesis .
qed

lemma parse_four_digits:
  assumes "0 \<le> y" and "y \<le> 9999"
  shows "parse_digits (two_digits (y div 100) @ two_digits (y mod 100)) label = Inr y"
proof -
  have a: "0 \<le> y div 100" "y div 100 \<le> 99" and b: "0 \<le> y mod 100" "y mod 100 < 100"
    using assms by simp_all
  define p q r where "p = y div 100 div 10" and "q = y div 100 mod 10" and "r = y mod 100 div 10"
  have p: "0 \<le> p" "p \<le> 9" and q: "0 \<le> q" "q \<le> 9" and r: "0 \<le> r" "r \<le> 9"
    using a b by (simp_all add: p_def q_def r_def)
  have "parse_digits (two_digits (y div 100) @ two_digits (y mod 100)) label =
      digits_fold label 0 [digit_byte p, digit_byte (y div 100), digit_byte r, digit_byte (y mod 100)]"
    by (simp add: parse_digits_def two_digits_def p_def r_def)
  also have "\<dots> = Inr (((p * 10 + q) * 10 + r) * 10 + y mod 100 mod 10)"
    using p q r by (simp add: digits_fold_digit q_def [symmetric] del: digits_fold.simps(2))
  also have "((p * 10 + q) * 10 + r) * 10 + y mod 100 mod 10 = y"
  proof -
    have e: "p * 10 + q = y div 100" "r * 10 + y mod 100 mod 10 = y mod 100"
      by (simp_all only: p_def q_def r_def div_mult_mod_eq)
    have "((p * 10 + q) * 10 + r) * 10 + y mod 100 mod 10 =
        (p * 10 + q) * 100 + (r * 10 + y mod 100 mod 10)" by (simp only: distrib_right)
    then show ?thesis by (simp only: e div_mult_mod_eq)
  qed
  finally show ?thesis .
qed

lemma length_two_digits [simp]: "length (two_digits n) = 2"
  by (simp add: two_digits_def)

lemma slice_time_fields [simp]:
  "slice 0 2 (time_fields mo d h mi sec) = two_digits mo"
  "slice 2 4 (time_fields mo d h mi sec) = two_digits d"
  "slice 4 6 (time_fields mo d h mi sec) = two_digits h"
  "slice 6 8 (time_fields mo d h mi sec) = two_digits mi"
  "slice 8 10 (time_fields mo d h mi sec) = two_digits sec"
  "length (time_fields mo d h mi sec) = 10"
  by (simp_all add: slice_def time_fields_def two_digits_def)

lemma timestamp_of_ok:
  assumes "- 800000 \<le> days" "days \<le> 3000000" "0 \<le> h" "h \<le> 23" "0 \<le> mi" "mi \<le> 59" "0 \<le> sec" "sec \<le> 59"
  shows "timestamp_of label days h mi sec = Inr (days * 86400 + h * 3600 + mi * 60 + sec)"
proof -
  have "in_i64 (days * 86400)" "in_i64 (days * 86400 + h * 3600)"
    "in_i64 (days * 86400 + h * 3600 + mi * 60)" "in_i64 (days * 86400 + h * 3600 + mi * 60 + sec)"
    by (rule in_i64_bound; use assms in simp)+
  then show ?thesis by (simp add: timestamp_of_def)
qed

definition valid_clock :: "int \<Rightarrow> int \<Rightarrow> int \<Rightarrow> bool" where
  "valid_clock h mi sec \<longleftrightarrow> 0 \<le> h \<and> h \<le> 23 \<and> 0 \<le> mi \<and> mi \<le> 59 \<and> 0 \<le> sec \<and> sec \<le> 59"

lemma parse_time_fields:
  assumes "valid_date y mo d" and "valid_clock h mi sec" and "0 \<le> y" and "y \<le> 9999"
    and "parse_year tag value label = Inr (y, time_fields mo d h mi sec)"
  shows "parse_certificate_time tag (value @ [90]) label =
    Inr (civil_days y mo d * 86400 + h * 3600 + mi * 60 + sec)"
proof -
  have b: "1 \<le> mo" "mo \<le> 12" "1 \<le> d" "d \<le> 31" "d \<le> days_in_month y mo"
    using assms(1) days_in_month_bounds [of y mo] by (auto simp: valid_date_def)
  have c: "0 \<le> h" "h \<le> 23" "0 \<le> mi" "mi \<le> 59" "0 \<le> sec" "sec \<le> 59"
    using assms(2) by (simp_all add: valid_clock_def)
  have days: "days_from_civil y mo d = Inr (civil_days y mo d)"
    using assms(1,3,4) by (intro days_from_civil_eq) auto
  have ok: "\<not> calendar_invalid y mo d h mi sec" using b c by (simp add: calendar_invalid_def)
  have ts: "timestamp_of label (civil_days y mo d) h mi sec =
      Inr (civil_days y mo d * 86400 + h * 3600 + mi * 60 + sec)"
    using civil_days_four_digit_years [OF assms(1,3,4)] c by (intro timestamp_of_ok) auto
  show ?thesis
    using assms(5) b c days ok ts by (simp add: parse_certificate_time_def fraction_invalid_def)
qed

lemma parse_year_generalized:
  assumes "0 \<le> y" and "y \<le> 9999"
  shows "parse_year 0x18 (two_digits (y div 100) @ two_digits (y mod 100) @ time_fields mo d h mi sec) label
    = Inr (y, time_fields mo d h mi sec)"
proof -
  let ?v = "two_digits (y div 100) @ two_digits (y mod 100) @ time_fields mo d h mi sec"
  have "take 4 ?v = two_digits (y div 100) @ two_digits (y mod 100)" and "drop 4 ?v = time_fields mo d h mi sec"
    by (simp_all add: two_digits_def)
  with parse_four_digits [OF assms] show ?thesis by (simp add: parse_year_def)
qed

lemma parse_year_utc:
  assumes "1950 \<le> y" and "y \<le> 2049"
  shows "parse_year 0x17 (two_digits (y mod 100) @ time_fields mo d h mi sec) label
    = Inr (y, time_fields mo d h mi sec)"
proof -
  have "y mod 100 = (if y < 2000 then y - 1900 else y - 2000)"
  proof (cases "y < 2000")
    case True
    have "y mod 100 = (y - 1900 + 100 * 19) mod 100" by simp
    also have "\<dots> = (y - 1900) mod 100" by (rule mod_mult_self2)
    finally show ?thesis using True assms by simp
  next
    case False
    have "y mod 100 = (y - 2000 + 100 * 20) mod 100" by simp
    also have "\<dots> = (y - 2000) mod 100" by (rule mod_mult_self2)
    finally show ?thesis using False assms by simp
  qed
  then show ?thesis using assms by (simp add: parse_year_def)
qed

subsection \<open>What an accepted time says\<close>

lemma digits_fold_bounds:
  "list_all byte_is_digit bs \<Longrightarrow> 0 \<le> v \<Longrightarrow> digits_fold label v bs = Inr n \<Longrightarrow>
     v * 10 ^ length bs \<le> n \<and> n < (v + 1) * 10 ^ length bs"
proof (induction bs arbitrary: v)
  case (Cons b bs)
  define c where "c = int (unat b) - 48"
  have "48 \<le> unat b" "unat b \<le> 57" using Cons.prems(1) by (simp_all add: byte_is_digit_def)
  then have c: "0 \<le> c" "c \<le> 9" unfolding c_def by linarith+
  have "digits_fold label (v * 10 + c) bs = Inr n"
    using Cons.prems(3) by (auto simp: checked_i64_def c_def split: option.splits if_splits)
  with Cons.IH [of "v * 10 + c"] Cons.prems c
  have n: "(v * 10 + c) * 10 ^ length bs \<le> n" "n < (v * 10 + c + 1) * 10 ^ length bs" by auto
  have lo: "v * 10 * 10 ^ length bs \<le> (v * 10 + c) * 10 ^ length bs"
    and hi: "(v * 10 + c + 1) * 10 ^ length bs \<le> (v + 1) * 10 * 10 ^ length bs"
    using c by (auto intro!: mult_right_mono)
  show ?case using order_trans [OF lo n(1)] order_less_le_trans [OF n(2) hi]
    by (simp only: length_Cons power_Suc mult.assoc)
qed simp

lemma parse_digits_bounds:
  assumes "parse_digits bs label = Inr n"
  shows "0 \<le> n \<and> n < 10 ^ length bs"
proof -
  have "list_all byte_is_digit bs" "digits_fold label 0 bs = Inr n"
    using assms by (auto simp: parse_digits_def list_ex_iff list_all_iff split: if_splits)
  from digits_fold_bounds [OF this(1) _ this(2)] show ?thesis by auto
qed

lemma parse_year_bounds: "parse_year tag value label = Inr (y, fields) \<Longrightarrow> 0 \<le> y \<and> y \<le> 9999"
  by (auto simp: parse_year_def dest!: parse_digits_bounds split: if_splits sum.splits)

lemma parse_certificate_time_fields:
  assumes "parse_certificate_time tag value label = Inr t"
  obtains y mo d h mi sec where "0 \<le> y" "y \<le> 9999" "valid_date y mo d" "valid_clock h mi sec"
    and "t = civil_days y mo d * 86400 + h * 3600 + mi * 60 + sec"
proof -
  obtain y fields mo d h mi sec days where
    y: "parse_year tag (butlast value) label = Inr (y, fields)"
    and f: "parse_digits (slice 0 2 fields) label = Inr mo" "parse_digits (slice 2 4 fields) label = Inr d"
      "parse_digits (slice 4 6 fields) label = Inr h" "parse_digits (slice 6 8 fields) label = Inr mi"
      "parse_digits (slice 8 10 fields) label = Inr sec"
    and ok: "\<not> calendar_invalid y mo d h mi sec"
    and days: "days_from_civil y mo d = Inr days"
    and t: "timestamp_of label days h mi sec = Inr t"
    using assms by (auto simp: parse_certificate_time_def try_bind_eq_Inr split: if_splits)
  have nonneg: "0 \<le> mo" "0 \<le> d" "0 \<le> h" "0 \<le> mi" "0 \<le> sec"
    using f by (auto dest: parse_digits_bounds)
  have yb: "0 \<le> y" "y \<le> 9999" using parse_year_bounds [OF y] by auto
  have v: "valid_date y mo d" "valid_clock h mi sec"
    using ok nonneg by (auto simp: calendar_invalid_def valid_date_def valid_clock_def)
  have "days = civil_days y mo d" using days_from_civil_eq [OF v(1)] days yb by simp
  then have "t = civil_days y mo d * 86400 + h * 3600 + mi * 60 + sec"
    using t by (auto simp: timestamp_of_def checked_i64_def split: option.splits if_splits)
  with yb v show ?thesis by (rule that)
qed

section \<open>Properties\<close>

text \<open>C25: \<open>days_from_civil\<close> is the day number of the Gregorian calendar: 1970-01-01 is day zero, and
  for every valid date with a year of at most 2^39 in absolute value the day after it (month lengths
  and leap years included) has the next number. The day after a valid date is again valid, so the two
  facts fix the function on every date reachable from the epoch.\<close>

theorem days_from_civil_is_calendar:
  "days_from_civil 1970 1 1 = Inr 0 \<and>
   (valid_date y m d \<and> \<bar>y\<bar> \<le> 2 ^ 39 \<longrightarrow>
     (\<exists>n y' m' d'. next_day (y, m, d) = (y', m', d') \<and> valid_date y' m' d' \<and>
        days_from_civil y m d = Inr n \<and> days_from_civil y' m' d' = Inr (n + 1)))"
proof (intro conjI impI)
  have "valid_date 1970 1 1" by (simp add: valid_date_def days_in_month_def)
  then have "days_from_civil 1970 1 1 = Inr (civil_days 1970 1 1)"
    by (rule days_from_civil_eq) simp
  then show "days_from_civil 1970 1 1 = Inr 0" by (simp add: civil_days_def days_to_march_def)
next
  assume asm: "valid_date y m d \<and> \<bar>y\<bar> \<le> 2 ^ 39"
  obtain y' m' d' where nd: "next_day (y, m, d) = (y', m', d')" by (cases "next_day (y, m, d)")
  note nxt = civil_days_next [OF conjunct1 [OF asm] nd]
  have "days_from_civil y m d = Inr (civil_days y m d)"
    using asm by (intro days_from_civil_eq) auto
  moreover have "days_from_civil y' m' d' = Inr (civil_days y m d + 1)"
    using days_from_civil_eq [OF nxt(2)] nxt(1,3) asm by auto
  ultimately show "\<exists>n y' m' d'. next_day (y, m, d) = (y', m', d') \<and> valid_date y' m' d' \<and>
      days_from_civil y m d = Inr n \<and> days_from_civil y' m' d' = Inr (n + 1)"
    using nd nxt(2) by blast
qed

theorem days_from_civil_is_calendar_witness:
  "\<exists>n. days_from_civil 2024 2 29 = Inr n \<and> days_from_civil 2024 3 1 = Inr (n + 1)"
proof -
  have "valid_date 2024 2 29" by (simp add: valid_date_def days_in_month_def leap_year_iff)
  moreover have "next_day (2024, 2, 29) = (2024, 3, 1)"
    by (simp add: next_day_def days_in_month_def leap_year_iff)
  ultimately show ?thesis using days_from_civil_is_calendar [of 2024 2 29] by auto
qed

text \<open>Certificate times are read back exactly. A \<open>GeneralizedTime\<close> of any year from 0 to 9999
  and a \<open>UTCTime\<close> of any year from 1950 to 2049, written with the fields RFC 5280 prescribes, are
  parsed to the number of seconds of that date and time since the epoch.\<close>

theorem parse_certificate_time_roundtrip:
  assumes "valid_date y mo d" and "valid_clock h mi sec"
  shows "(0 \<le> y \<and> y \<le> 9999 \<longrightarrow>
      (\<exists>days. days_from_civil y mo d = Inr days \<and>
        parse_certificate_time 0x18 (generalized_time y mo d h mi sec) label =
          Inr (days * 86400 + h * 3600 + mi * 60 + sec))) \<and>
    (1950 \<le> y \<and> y \<le> 2049 \<longrightarrow>
      (\<exists>days. days_from_civil y mo d = Inr days \<and>
        parse_certificate_time 0x17 (utc_time y mo d h mi sec) label =
          Inr (days * 86400 + h * 3600 + mi * 60 + sec)))"
proof -
  have days: "0 \<le> y \<Longrightarrow> y \<le> 9999 \<Longrightarrow> days_from_civil y mo d = Inr (civil_days y mo d)"
    using assms(1) by (intro days_from_civil_eq) auto
  have gt: "parse_certificate_time 0x18 (generalized_time y mo d h mi sec) label =
      Inr (civil_days y mo d * 86400 + h * 3600 + mi * 60 + sec)" if "0 \<le> y" "y \<le> 9999"
    using parse_time_fields [OF assms that parse_year_generalized [OF that]]
    by (simp add: generalized_time_def)
  have ut: "parse_certificate_time 0x17 (utc_time y mo d h mi sec) label =
      Inr (civil_days y mo d * 86400 + h * 3600 + mi * 60 + sec)" if "1950 \<le> y" "y \<le> 2049"
    using parse_time_fields [OF assms _ _ parse_year_utc [OF that]] that
    by (simp add: utc_time_def)
  show ?thesis using days gt ut by auto
qed

theorem parse_certificate_time_roundtrip_witness:
  "parse_certificate_time 0x17 (utc_time 2030 1 1 0 0 0) ''not_after'' = Inr 1893456000"
proof -
  have v: "valid_date 2030 1 1" "valid_clock 0 0 0"
    by (simp_all add: valid_date_def days_in_month_def valid_clock_def)
  have "days_from_civil 2030 1 1 = Inr 21915"
    by (simp add: days_from_civil_def signed_divide_int_def checked_i64_def in_i64_def
        i64_min_def i64_max_def)
  then show ?thesis using parse_certificate_time_roundtrip [OF v] by auto
qed

text \<open>Every time the parser accepts denotes a real calendar instant: it comes from a year from 0 to
  9999, an existing day of an existing month and a valid time of day, its value is the number of
  seconds of that instant, and it lies between 0000-01-01T00:00:00Z and 9999-12-31T23:59:59Z.\<close>

theorem parse_certificate_time_sound:
  assumes "parse_certificate_time tag value label = Inr t"
  shows "(\<exists>y mo d h mi sec days. 0 \<le> y \<and> y \<le> 9999 \<and> valid_date y mo d \<and> valid_clock h mi sec \<and>
      days_from_civil y mo d = Inr days \<and> t = days * 86400 + h * 3600 + mi * 60 + sec) \<and>
    - 62167219200 \<le> t \<and> t \<le> 253402300799"
  using assms
proof (rule parse_certificate_time_fields)
  fix y mo d h mi sec
  assume y: "0 \<le> y" "y \<le> 9999" and v: "valid_date y mo d" "valid_clock h mi sec"
    and t: "t = civil_days y mo d * 86400 + h * 3600 + mi * 60 + sec"
  have "days_from_civil y mo d = Inr (civil_days y mo d)"
    using v y by (intro days_from_civil_eq) auto
  moreover have "- 62167219200 \<le> t \<and> t \<le> 253402300799"
    using civil_days_four_digit_years [OF v(1) y] v(2) t by (auto simp: valid_clock_def)
  ultimately show ?thesis using y v t by blast
qed

theorem parse_certificate_time_sound_witness:
  "\<exists>y mo d h mi sec days. 0 \<le> y \<and> y \<le> 9999 \<and> valid_date y mo d \<and> valid_clock h mi sec \<and>
      days_from_civil y mo d = Inr days \<and> 0 = days * 86400 + h * 3600 + mi * 60 + sec"
proof -
  have "parse_certificate_time 0x17 [55,48,48,49,48,49,48,48,48,48,48,48,90] ''nb'' = Inr 0"
    by (simp add: parse_certificate_time_def parse_year_def parse_digits_def byte_is_digit_def
        slice_def fraction_invalid_def calendar_invalid_def days_in_month_def days_from_civil_def
        timestamp_of_def signed_divide_int_def checked_i64_def in_i64_def i64_min_def i64_max_def)
  from parse_certificate_time_sound [OF this] show ?thesis by blast
qed

end
