(* ===== verification/Cert_Reload.thy ===== *)
theory Cert_Reload
  imports Cert_Time
begin

text \<open>
  Certificate validity and reloading (\<^verbatim>\<open>src/src/tls_reload.rs\<close>): the validity period of a
  DER certificate (\<open>parse_certificate_validity\<close>), the check of a chain
  (\<open>validate_certificate_validity\<close>), loading a certificate and key pair and the
  \<open>ReloadingCertResolver\<close> with its throttled reload.

  The PEM reader and the key operations of \<^verbatim>\<open>rustls\<close> are the fields of a parameter
  \<open>tls_env\<close>, which also stands for the contents of the two files at the time of a load. An
  \<open>Instant\<close> is a number of nanoseconds and \<open>duration_since\<close> saturates at zero, as \<open>-\<close> does on
  \<^typ>\<open>nat\<close>. A call of the resolver takes its clock readings as arguments: \<open>now\<close> (monotonic),
  \<open>now_epoch\<close> (wall clock at entry) and \<open>load_epoch\<close> (wall clock when the new chain is checked).
\<close>

section \<open>Definitions\<close>

definition skip_value :: "byte list \<Rightarrow> byte \<Rightarrow> string \<Rightarrow> (tls_error, byte list) result" where
  "skip_value input tag label = try_bind (read_der_value input tag label) (\<lambda>(_, input). Inr input)"

text \<open>The fields of a \<open>TBSCertificate\<close> up to the validity: the optional version, the serial number,
  the signature algorithm and the issuer are skipped.\<close>

definition read_tbs_validity :: "byte list \<Rightarrow> (tls_error, byte list) result" where
  "read_tbs_validity tbs_fields =
     try_bind (if tbs_fields \<noteq> [] \<and> hd tbs_fields = 0xa0
               then skip_value tbs_fields 0xa0 ''TBSCertificate version'' else Inr tbs_fields) (\<lambda>tbs_fields.
     try_bind (skip_value tbs_fields 0x02 ''certificate serial number'') (\<lambda>tbs_fields.
     try_bind (skip_value tbs_fields 0x30 ''certificate signature algorithm'') (\<lambda>tbs_fields.
     try_bind (skip_value tbs_fields 0x30 ''certificate issuer'') (\<lambda>tbs_fields.
     try_bind (read_der_value tbs_fields 0x30 ''certificate validity'') (\<lambda>(validity, _).
     Inr validity)))))"

definition parse_validity :: "byte list \<Rightarrow> (tls_error, int \<times> int) result" where
  "parse_validity validity =
     try_bind (read_der_tlv validity ''certificate not_before'') (\<lambda>((not_before_tag, not_before_der), validity).
     try_bind (read_der_tlv validity ''certificate not_after'') (\<lambda>((not_after_tag, not_after_der), validity).
     if validity \<noteq> [] then Inl (TrailingData ''certificate validity'')
     else
     try_bind (parse_certificate_time not_before_tag not_before_der ''not_before'') (\<lambda>not_before.
     try_bind (parse_certificate_time not_after_tag not_after_der ''not_after'') (\<lambda>not_after.
     if not_before > not_after then Inl NotBeforeAfterNotAfter
     else Inr (not_before, not_after)))))"

definition parse_certificate_validity :: "byte list \<Rightarrow> (tls_error, int \<times> int) result" where
  "parse_certificate_validity der =
     try_bind (read_der_value der 0x30 ''certificate'') (\<lambda>(certificate, input).
     if input \<noteq> [] then Inl (TrailingData ''TLS certificate'')
     else
     try_bind (read_der_value certificate 0x30 ''TBSCertificate'') (\<lambda>(tbs, certificate_fields).
     try_bind (skip_value certificate_fields 0x30 ''certificate signature algorithm'') (\<lambda>certificate_fields.
     try_bind (skip_value certificate_fields 0x03 ''certificate signature'') (\<lambda>certificate_fields.
     if certificate_fields \<noteq> [] then Inl (TrailingData ''TLS certificate fields'')
     else
     try_bind (read_tbs_validity tbs) (\<lambda>validity. parse_validity validity)))))"

text \<open>The loop of \<open>validate_certificate_validity\<close>, with its index and its running minimum.\<close>

fun validate_chain_from :: "nat \<Rightarrow> int \<Rightarrow> byte list list \<Rightarrow> int \<Rightarrow> (tls_error, int) result" where
  "validate_chain_from index earliest_not_after [] now = Inr earliest_not_after"
| "validate_chain_from index earliest_not_after (cert # certs) now =
     (case parse_certificate_validity cert of
        Inl e \<Rightarrow> Inl e
      | Inr (not_before, not_after) \<Rightarrow>
          (if now < not_before then Inl (CertificateNotYetValid index not_before now)
           else if now > not_after then Inl (CertificateExpired index not_after now)
           else validate_chain_from (Suc index) (min earliest_not_after not_after) certs now))"

definition validate_certificate_validity :: "byte list list \<Rightarrow> int \<Rightarrow> (tls_error, int) result" where
  "validate_certificate_validity certs now = validate_chain_from 0 i64_max certs now"

record ('k, 's) tls_env =
  pem_file_iter :: "string \<Rightarrow> (tls_error, byte list list) result"
  from_pem_file :: "string \<Rightarrow> (tls_error, 'k) result"
  any_supported_type :: "'k \<Rightarrow> 's option"
  keys_match :: "byte list list \<Rightarrow> 's \<Rightarrow> bool"

record 's certified_key =
  ck_cert :: "byte list list"
  ck_key :: 's

record 's loaded_certified_key =
  lk_key :: "'s certified_key"
  lk_not_after :: int

definition build_certified_key ::
  "('k, 's) tls_env \<Rightarrow> byte list list \<Rightarrow> 'k \<Rightarrow> (tls_error, 's certified_key) result" where
  "build_certified_key env certs key =
     (case any_supported_type env key of
        None \<Rightarrow> Inl UnsupportedPrivateKey
      | Some signing_key \<Rightarrow>
          (if keys_match env certs signing_key
           then Inr \<lparr>ck_cert = certs, ck_key = signing_key\<rparr> else Inl KeyMismatch))"

definition load_certified_key ::
  "('k, 's) tls_env \<Rightarrow> string \<Rightarrow> string \<Rightarrow> int \<Rightarrow> (tls_error, 's loaded_certified_key) result" where
  "load_certified_key env cert_path key_path load_epoch =
     try_bind (pem_file_iter env cert_path) (\<lambda>certs.
     if certs = [] then Inl EmptyCertificateChain
     else
     try_bind (validate_certificate_validity certs load_epoch) (\<lambda>not_after.
     try_bind (from_pem_file env key_path) (\<lambda>key.
     try_bind (build_certified_key env certs key) (\<lambda>ck.
     Inr \<lparr>lk_key = ck, lk_not_after = not_after\<rparr>))))"

text \<open>The last field is a log, not in the code: the instants at which handshakes read the files.\<close>

record 's resolver =
  rs_cert_path :: string
  rs_key_path :: string
  rs_cached_key :: "'s certified_key"
  rs_not_after :: int
  rs_loaded_at :: nat
  rs_reload_interval :: nat
  rs_loads :: "nat list"

definition new_resolver ::
  "('k, 's) tls_env \<Rightarrow> string \<Rightarrow> string \<Rightarrow> nat \<Rightarrow> int \<Rightarrow> nat \<Rightarrow> (tls_error, 's resolver) result" where
  "new_resolver env cert_path key_path reload_interval load_epoch now =
     try_bind (load_certified_key env cert_path key_path load_epoch) (\<lambda>loaded.
     Inr \<lparr>rs_cert_path = cert_path, rs_key_path = key_path, rs_cached_key = lk_key loaded,
          rs_not_after = lk_not_after loaded, rs_loaded_at = now,
          rs_reload_interval = reload_interval, rs_loads = []\<rparr>)"

definition cached_if_valid :: "'s resolver \<Rightarrow> int \<Rightarrow> 's certified_key option" where
  "cached_if_valid r now_epoch = (if now_epoch \<le> rs_not_after r then Some (rs_cached_key r) else None)"

text \<open>The method \<open>load_certified_key\<close>, through which a handshake reads the files; it keeps the log.\<close>

definition self_load_certified_key ::
  "('k, 's) tls_env \<Rightarrow> nat \<Rightarrow> int \<Rightarrow> 's resolver \<Rightarrow> (tls_error, 's loaded_certified_key) result \<times> 's resolver" where
  "self_load_certified_key env now load_epoch r =
     (load_certified_key env (rs_cert_path r) (rs_key_path r) load_epoch, r\<lparr>rs_loads := rs_loads r @ [now]\<rparr>)"

definition resolve_current_cert_option ::
  "('k, 's) tls_env \<Rightarrow> nat \<Rightarrow> int \<Rightarrow> int \<Rightarrow> 's resolver \<Rightarrow> 's certified_key option \<times> 's resolver" where
  "resolve_current_cert_option env now now_epoch load_epoch r =
     (if now - rs_loaded_at r < rs_reload_interval r then (cached_if_valid r now_epoch, r)
      else
        let claimed = r\<lparr>rs_loaded_at := now\<rparr>
        in case self_load_certified_key env now load_epoch claimed of
             (Inr loaded, after) \<Rightarrow>
               (Some (lk_key loaded),
                after\<lparr>rs_cached_key := lk_key loaded, rs_not_after := lk_not_after loaded, rs_loaded_at := now\<rparr>)
           | (Inl err, after) \<Rightarrow> (cached_if_valid after now_epoch, after))"

text \<open>The chain of a certified key is within its validity period at a wall-clock time.\<close>

definition chain_unexpired :: "'s certified_key \<Rightarrow> int \<Rightarrow> bool" where
  "chain_unexpired ck epoch \<longleftrightarrow>
     list_all (\<lambda>cert. case parse_certificate_validity cert of
                        Inl _ \<Rightarrow> False | Inr (_, not_after) \<Rightarrow> epoch \<le> not_after) (ck_cert ck)"

text \<open>The states a resolver goes through: it is created by \<open>new_resolver\<close> and then serves any number
  of handshakes, with arbitrary clock readings and file contents (the list holds the environments of
  its calls, latest first).\<close>

inductive resolver_reachable :: "('k, 's) tls_env list \<Rightarrow> 's resolver \<Rightarrow> bool" where
  created: "new_resolver env cert_path key_path reload_interval load_epoch now = Inr r \<Longrightarrow>
     resolver_reachable [env] r"
| handshake: "resolver_reachable envs r \<Longrightarrow>
     resolver_reachable (env # envs) (snd (resolve_current_cert_option env now now_epoch load_epoch r))"

text \<open>A run of handshakes: each call has its environment and clock readings; the run yields the answers and the
  final state.\<close>

fun run_handshakes ::
  "(('k, 's) tls_env \<times> nat \<times> int \<times> int) list \<Rightarrow> 's resolver \<Rightarrow> 's certified_key option list \<times> 's resolver" where
  "run_handshakes [] r = ([], r)"
| "run_handshakes ((env, now, now_epoch, load_epoch) # calls) r =
     (let (answer, r1) = resolve_current_cert_option env now now_epoch load_epoch r;
          (answers, r2) = run_handshakes calls r1
      in (answer # answers, r2))"

text \<open>Reference: the DER form of a certificate (RFC 5280), with arbitrary contents for the fields the
  reader skips.\<close>

definition encode_validity :: "byte \<Rightarrow> byte list \<Rightarrow> byte \<Rightarrow> byte list \<Rightarrow> byte list" where
  "encode_validity nb_tag nb na_tag na = der_encode nb_tag nb @ der_encode na_tag na"

definition encode_tbs ::
  "byte list option \<Rightarrow> byte list \<Rightarrow> byte list \<Rightarrow> byte list \<Rightarrow> byte list \<Rightarrow> byte list \<Rightarrow> byte list" where
  "encode_tbs version serial sig_alg issuer validity rest =
     (case version of None \<Rightarrow> [] | Some v \<Rightarrow> der_encode 0xa0 v) @ der_encode 0x02 serial @
     der_encode 0x30 sig_alg @ der_encode 0x30 issuer @ der_encode 0x30 validity @ rest"

definition encode_certificate :: "byte list \<Rightarrow> byte list \<Rightarrow> byte list \<Rightarrow> byte list" where
  "encode_certificate tbs sig_alg signature =
     der_encode 0x30 (der_encode 0x30 tbs @ der_encode 0x30 sig_alg @ der_encode 0x03 signature)"

text \<open>A concrete chain of one certificate, valid from 2020-01-01 to 2030-01-01, and an environment
  that always loads it.\<close>

definition example_certificate :: "byte list" where
  "example_certificate = encode_certificate (encode_tbs (Some [2, 1, 2]) [7] [] []
     (encode_validity 0x17 (utc_time 2020 1 1 0 0 0) 0x17 (utc_time 2030 1 1 0 0 0)) []) [] [0]"

definition example_env :: "byte list list \<Rightarrow> (unit, unit) tls_env" where
  "example_env certs = \<lparr>pem_file_iter = (\<lambda>_. Inr certs), from_pem_file = (\<lambda>_. Inr ()),
     any_supported_type = (\<lambda>_. Some ()), keys_match = (\<lambda>_ _. True)\<rparr>"

definition example_resolver :: "unit resolver" where
  "example_resolver = \<lparr>rs_cert_path = ''tls.crt'', rs_key_path = ''tls.key'',
     rs_cached_key = \<lparr>ck_cert = [example_certificate], ck_key = ()\<rparr>, rs_not_after = 1893456000,
     rs_loaded_at = 0, rs_reload_interval = 5000000000, rs_loads = []\<rparr>"

section \<open>Lemmas\<close>

lemma length_der_encode: "length value < length (der_encode tag value)"
  by (simp add: der_encode_def)

lemma skip_value_encode [simp]:
  "length value < 2 ^ 64 \<Longrightarrow> skip_value (der_encode tag value @ rest) tag label = Inr rest"
  by (simp add: skip_value_def)

lemma read_der_value_encode_end [simp]:
  "length value < 2 ^ 64 \<Longrightarrow> read_der_value (der_encode tag value) tag label = Inr (value, [])"
  using read_der_value_encode [where rest = "[]"] by simp

lemma skip_value_encode_end [simp]:
  "length value < 2 ^ 64 \<Longrightarrow> skip_value (der_encode tag value) tag label = Inr []"
  by (simp add: skip_value_def)

lemma read_der_tlv_encode_end [simp]:
  "length value < 2 ^ 64 \<Longrightarrow> read_der_tlv (der_encode tag value) label = Inr ((tag, value), [])"
  using read_der_tlv_encode [where rest = "[]"] by simp

lemma der_encode_head [simp]: "hd (der_encode tag value @ rest) = tag" "der_encode tag value \<noteq> []"
  by (simp_all add: der_encode_def)

lemma read_tbs_validity_encode:
  assumes "length (encode_tbs version serial sig_alg issuer validity rest) < 2 ^ 64"
  shows "read_tbs_validity (encode_tbs version serial sig_alg issuer validity rest) = Inr validity"
proof -
  let ?tail = "der_encode 0x02 serial @ der_encode 0x30 sig_alg @ der_encode 0x30 issuer @
      der_encode 0x30 validity @ rest"
  note lens = length_der_encode [of serial 2] length_der_encode [of sig_alg 48]
    length_der_encode [of issuer 48] length_der_encode [of validity 48]
  have small: "length serial < 2 ^ 64" "length sig_alg < 2 ^ 64" "length issuer < 2 ^ 64"
      "length validity < 2 ^ 64"
    using assms lens by (auto simp: encode_tbs_def split: option.splits)
  have skip: "(if tbs \<noteq> [] \<and> hd tbs = 0xa0 then skip_value tbs 0xa0 l else Inr tbs) = Inr ?tail"
    if "tbs = encode_tbs version serial sig_alg issuer validity rest" for tbs l
  proof (cases version)
    case (Some v)
    have "length v < 2 ^ 64"
      using assms length_der_encode [of v "0xa0"] Some by (simp add: encode_tbs_def)
    with that Some show ?thesis by (simp add: encode_tbs_def)
  qed (use that in \<open>simp add: encode_tbs_def\<close>)
  show ?thesis unfolding read_tbs_validity_def by (subst skip [OF refl]) (use small in simp)
qed

lemma parse_certificate_validity_encode:
  assumes "length (encode_certificate (encode_tbs version serial sig_alg issuer validity rest) alg sg) < 2 ^ 64"
  shows "parse_certificate_validity
      (encode_certificate (encode_tbs version serial sig_alg issuer validity rest) alg sg) = parse_validity validity"
proof -
  let ?tbs = "encode_tbs version serial sig_alg issuer validity rest"
  let ?body = "der_encode 0x30 ?tbs @ der_encode 0x30 alg @ der_encode 0x03 sg"
  have "length ?body < 2 ^ 64"
    using assms length_der_encode [of ?body 48] unfolding encode_certificate_def by linarith
  moreover from this have "length ?tbs < 2 ^ 64" "length alg < 2 ^ 64" "length sg < 2 ^ 64"
    using length_der_encode [of ?tbs 48] length_der_encode [of alg 48] length_der_encode [of sg 3]
    by auto
  ultimately show ?thesis
    using read_tbs_validity_encode [of version serial sig_alg issuer validity rest]
    by (simp add: parse_certificate_validity_def encode_certificate_def)
qed

lemma parse_validity_encode:
  assumes "length (encode_validity nb_tag nb na_tag na) < 2 ^ 64"
    and "parse_certificate_time nb_tag nb ''not_before'' = Inr a"
    and "parse_certificate_time na_tag na ''not_after'' = Inr b"
  shows "parse_validity (encode_validity nb_tag nb na_tag na) =
    (if a > b then Inl NotBeforeAfterNotAfter else Inr (a, b))"
proof -
  have "length nb < 2 ^ 64" "length na < 2 ^ 64"
    using assms(1) length_der_encode [of nb nb_tag] length_der_encode [of na na_tag]
    by (auto simp: encode_validity_def)
  with assms(2,3) show ?thesis
    by (simp add: parse_validity_def encode_validity_def read_der_tlv_encode)
qed

text \<open>The running minimum of the chain check.\<close>

lemma validate_chain_from_ok:
  "validate_chain_from index m certs now = Inr n \<longleftrightarrow>
     list_all (\<lambda>c. \<exists>nb na. parse_certificate_validity c = Inr (nb, na) \<and> nb \<le> now \<and> now \<le> na) certs \<and>
     n = fold (\<lambda>c k. case parse_certificate_validity c of Inl _ \<Rightarrow> k | Inr (_, na) \<Rightarrow> min k na) certs m"
proof (induction certs arbitrary: index m)
  case (Cons c certs)
  show ?case
  proof (cases "parse_certificate_validity c")
    case (Inr p)
    then show ?thesis by (cases p) (auto simp: Cons.IH)
  qed simp
qed auto

lemma min_fold_le:
  "fold (\<lambda>c k. case f c of Inl _ \<Rightarrow> k | Inr (_, na) \<Rightarrow> min k na) certs m \<le> (m :: int)"
proof (induction certs arbitrary: m)
  case (Cons c certs)
  then show ?case
    by (cases "f c") (auto split: prod.splits intro: order_trans [OF Cons.IH])
qed simp

lemma min_fold_le_elem:
  "c \<in> set certs \<Longrightarrow> f c = Inr (nb, na) \<Longrightarrow>
     fold (\<lambda>c k. case f c of Inl _ \<Rightarrow> k | Inr (_, na) \<Rightarrow> min k na) certs m \<le> (na :: int)"
proof (induction certs arbitrary: m)
  case (Cons d certs)
  show ?case
  proof (cases "c = d")
    case True
    with Cons.prems show ?thesis
      using min_fold_le [of f certs "min m na"] by simp
  qed (use Cons in auto)
qed simp

lemma validate_chain_sound:
  assumes "validate_certificate_validity certs now = Inr n"
  shows "c \<in> set certs \<Longrightarrow> \<exists>nb na. parse_certificate_validity c = Inr (nb, na) \<and> nb \<le> now \<and> now \<le> na \<and> n \<le> na"
  using assms unfolding validate_certificate_validity_def validate_chain_from_ok
  by (auto simp: list_all_iff dest!: bspec intro: min_fold_le_elem)

lemma load_certified_key_ok:
  assumes "load_certified_key env cp kp epoch = Inr l"
  shows "validate_certificate_validity (ck_cert (lk_key l)) epoch = Inr (lk_not_after l)"
    and "ck_cert (lk_key l) \<noteq> []"
    and "keys_match env (ck_cert (lk_key l)) (ck_key (lk_key l))"
  using assms
  by (auto simp: load_certified_key_def build_certified_key_def try_bind_eq_Inr
      split: if_splits option.splits)

text \<open>The resolver's invariant: the remembered expiry is no later than that of any certificate of the
  cached chain, and the chain is not empty.\<close>

definition resolver_ok :: "'s resolver \<Rightarrow> bool" where
  "resolver_ok r \<longleftrightarrow> ck_cert (rs_cached_key r) \<noteq> [] \<and>
     (\<forall>c \<in> set (ck_cert (rs_cached_key r)). \<exists>nb na.
        parse_certificate_validity c = Inr (nb, na) \<and> rs_not_after r \<le> na)"

lemma resolver_ok_loaded:
  assumes "load_certified_key env cp kp epoch = Inr l"
    and "rs_cached_key r = lk_key l" and "rs_not_after r = lk_not_after l"
  shows "resolver_ok r"
  using load_certified_key_ok(1,2) [OF assms(1)] assms(2,3)
  by (auto simp: resolver_ok_def dest!: validate_chain_sound)

lemma resolver_ok_resolve:
  assumes "resolver_ok r"
  shows "resolver_ok (snd (resolve_current_cert_option env now now_epoch load_epoch r))"
proof (cases "load_certified_key env (rs_cert_path r) (rs_key_path r) load_epoch")
  case (Inl e)
  with assms show ?thesis by (simp add: resolve_current_cert_option_def self_load_certified_key_def resolver_ok_def Let_def)
next
  case (Inr l)
  with assms show ?thesis
    by (auto simp: resolve_current_cert_option_def self_load_certified_key_def Let_def intro!: resolver_ok_loaded [OF Inr])
qed

lemma resolver_reachable_ok: "resolver_reachable envs r \<Longrightarrow> resolver_ok r"
proof (induction rule: resolver_reachable.induct)
  case (created env cert_path key_path reload_interval load_epoch now r)
  then show ?case by (auto simp: new_resolver_def try_bind_eq_Inr intro: resolver_ok_loaded)
next
  case (handshake envs r)
  then show ?case by (simp add: resolver_ok_resolve)
qed

lemma cached_if_valid_unexpired:
  "resolver_ok r \<Longrightarrow> cached_if_valid r epoch = Some ck \<Longrightarrow> chain_unexpired ck epoch"
  by (fastforce simp: cached_if_valid_def resolver_ok_def chain_unexpired_def list_all_iff
      split: if_splits)

lemma resolve_unexpired:
  assumes "resolver_ok r" and "now_epoch \<le> load_epoch"
    and "resolve_current_cert_option env now now_epoch load_epoch r = (Some ck, r')"
  shows "chain_unexpired ck now_epoch"
proof (cases "now - rs_loaded_at r < rs_reload_interval r")
  case True
  then have "cached_if_valid r now_epoch = Some ck"
    using assms(3) by (auto simp: resolve_current_cert_option_def)
  with assms(1) show ?thesis by (rule cached_if_valid_unexpired)
next
  case False
  show ?thesis
  proof (cases "load_certified_key env (rs_cert_path r) (rs_key_path r) load_epoch")
    case (Inl e)
    with False assms(3) have "cached_if_valid (r\<lparr>rs_loaded_at := now, rs_loads := rs_loads r @ [now]\<rparr>) now_epoch = Some ck"
      by (auto simp: resolve_current_cert_option_def self_load_certified_key_def Let_def)
    moreover have "resolver_ok (r\<lparr>rs_loaded_at := now, rs_loads := rs_loads r @ [now]\<rparr>)" using assms(1) by (simp add: resolver_ok_def)
    ultimately show ?thesis by (blast intro: cached_if_valid_unexpired)
  next
    case (Inr l)
    with False assms(3) have "ck = lk_key l" by (simp add: resolve_current_cert_option_def self_load_certified_key_def)
    with load_certified_key_ok(1) [OF Inr] assms(2) show ?thesis
      by (fastforce simp: chain_unexpired_def list_all_iff dest: validate_chain_sound)
  qed
qed

text \<open>Runs of handshakes.\<close>

lemma resolve_frame:
  assumes "resolve_current_cert_option env now now_epoch load_epoch r = (answer, r1)"
  shows "rs_reload_interval r1 = rs_reload_interval r" "rs_cert_path r1 = rs_cert_path r"
    "rs_key_path r1 = rs_key_path r"
    "rs_loaded_at r1 = (if now - rs_loaded_at r < rs_reload_interval r then rs_loaded_at r else now)"
    "rs_loads r1 = (if now - rs_loaded_at r < rs_reload_interval r then rs_loads r else rs_loads r @ [now])"
  using assms by (auto simp: resolve_current_cert_option_def self_load_certified_key_def Let_def split: if_splits sum.splits)



lemma run_handshakes_failing:
  "run_handshakes calls r = (answers, r') \<Longrightarrow>
   \<forall>(env, now, now_epoch, load_epoch) \<in> set calls.
     is_err (load_certified_key env (rs_cert_path r) (rs_key_path r) load_epoch) \<Longrightarrow>
   rs_cached_key r' = rs_cached_key r \<and> rs_not_after r' = rs_not_after r \<and>
   answers = map (\<lambda>(env, now, now_epoch, load_epoch).
     if now_epoch \<le> rs_not_after r then Some (rs_cached_key r) else None) calls"
proof (induction calls arbitrary: r answers)
  case (Cons c calls)
  obtain env now now_epoch load_epoch where c: "c = (env, now, now_epoch, load_epoch)"
    by (cases c) auto
  obtain answer r1 where r1: "resolve_current_cert_option env now now_epoch load_epoch r = (answer, r1)"
    by force
  obtain as where rec: "run_handshakes calls r1 = (as, r')" and as: "answers = answer # as"
    using Cons.prems(1) c r1 by (auto split: prod.splits)
  obtain e where "load_certified_key env (rs_cert_path r) (rs_key_path r) load_epoch = Inl e"
    using Cons.prems(2) c by (cases "load_certified_key env (rs_cert_path r) (rs_key_path r) load_epoch") auto
  then have same: "rs_cached_key r1 = rs_cached_key r" "rs_not_after r1 = rs_not_after r"
    and answer: "answer = (if now_epoch \<le> rs_not_after r then Some (rs_cached_key r) else None)"
    using r1 by (auto simp: resolve_current_cert_option_def self_load_certified_key_def cached_if_valid_def Let_def split: if_splits)
  have "rs_cached_key r' = rs_cached_key r1 \<and> rs_not_after r' = rs_not_after r1 \<and>
      as = map (\<lambda>(env, now, now_epoch, load_epoch).
        if now_epoch \<le> rs_not_after r1 then Some (rs_cached_key r1) else None) calls"
    using Cons.IH [OF rec] Cons.prems(2) resolve_frame(2,3) [OF r1] by simp
  with same as answer c show ?case by auto
qed auto

text \<open>Evaluating the example.\<close>

lemma example_times:
  "parse_certificate_time 0x17 (utc_time 2020 1 1 0 0 0) l = Inr 1577836800"
  "parse_certificate_time 0x17 (utc_time 2030 1 1 0 0 0) l = Inr 1893456000"
proof -
  have v: "valid_date 2020 1 1" "valid_date 2030 1 1" "valid_clock 0 0 0"
    by (simp_all add: valid_date_def days_in_month_def valid_clock_def)
  show "parse_certificate_time 0x17 (utc_time 2020 1 1 0 0 0) l = Inr 1577836800"
    using parse_time_fields [OF v(1,3) _ _ parse_year_utc]
    by (simp add: utc_time_def civil_days_def days_to_march_def)
  show "parse_certificate_time 0x17 (utc_time 2030 1 1 0 0 0) l = Inr 1893456000"
    using parse_time_fields [OF v(2,3) _ _ parse_year_utc]
    by (simp add: utc_time_def civil_days_def days_to_march_def)
qed

lemma example_length:
  "length (encode_certificate (encode_tbs (Some [2, 1, 2]) [7] [] []
     (encode_validity 0x17 (utc_time 2020 1 1 0 0 0) 0x17 (utc_time 2030 1 1 0 0 0)) []) [] [0]) < 2 ^ 64"
  by (simp add: encode_certificate_def encode_tbs_def encode_validity_def der_encode_def
      der_length_def utc_time_def time_fields_def two_digits_def)

lemma example_validity: "parse_certificate_validity example_certificate = Inr (1577836800, 1893456000)"
proof -
  have "length (encode_validity 0x17 (utc_time 2020 1 1 0 0 0) 0x17 (utc_time 2030 1 1 0 0 0)) < 2 ^ 64"
    by (simp add: encode_validity_def der_encode_def der_length_def utc_time_def time_fields_def
        two_digits_def)
  from parse_validity_encode [OF this example_times] parse_certificate_validity_encode [OF example_length]
  show ?thesis by (simp add: example_certificate_def)
qed

lemma example_created:
  "new_resolver (example_env [example_certificate]) ''tls.crt'' ''tls.key'' 5000000000 1600000000 0
     = Inr example_resolver"
  by (simp add: new_resolver_def load_certified_key_def example_env_def build_certified_key_def
      validate_certificate_validity_def example_validity example_resolver_def i64_max_def)

section \<open>Properties\<close>

text \<open>C26: \<open>parse_certificate_validity\<close> reads the validity period of every well-formed certificate:
  for a DER certificate of RFC 5280 shape, with or without the version field and with arbitrary
  serial number, algorithms, issuer, signature and further fields, it returns the two parsed times,
  or rejects the certificate exactly when \<open>notBefore\<close> is later than \<open>notAfter\<close>.\<close>

theorem parse_certificate_validity_roundtrip:
  assumes "length (encode_certificate (encode_tbs version serial sig_alg issuer
      (encode_validity nb_tag nb na_tag na) rest) alg sg) < 2 ^ 64"
    and "parse_certificate_time nb_tag nb ''not_before'' = Inr a"
    and "parse_certificate_time na_tag na ''not_after'' = Inr b"
  shows "parse_certificate_validity (encode_certificate (encode_tbs version serial sig_alg issuer
      (encode_validity nb_tag nb na_tag na) rest) alg sg) =
    (if a > b then Inl NotBeforeAfterNotAfter else Inr (a, b))"
proof -
  let ?v = "encode_validity nb_tag nb na_tag na"
  let ?tbs = "encode_tbs version serial sig_alg issuer ?v rest"
  let ?body = "der_encode 0x30 ?tbs @ der_encode 0x30 alg @ der_encode 0x03 sg"
  have "length ?v < length (der_encode 0x30 ?v)" by (rule length_der_encode)
  also have "\<dots> \<le> length ?tbs" by (simp add: encode_tbs_def)
  also have "\<dots> < length (der_encode 0x30 ?tbs)" by (rule length_der_encode)
  also have "\<dots> \<le> length ?body" by simp
  also have "\<dots> < length (encode_certificate ?tbs alg sg)"
    unfolding encode_certificate_def by (rule length_der_encode)
  also note assms(1)
  finally show ?thesis
    using parse_certificate_validity_encode [OF assms(1)] parse_validity_encode [OF _ assms(2,3)]
    by simp
qed

theorem parse_certificate_validity_roundtrip_witness:
  "parse_certificate_validity (encode_certificate (encode_tbs (Some [2, 1, 2]) [7] [] []
     (encode_validity 0x17 (utc_time 2020 1 1 0 0 0) 0x17 (utc_time 2030 1 1 0 0 0)) []) [] [0])
   = Inr (1577836800, 1893456000)"
  using parse_certificate_validity_roundtrip [OF example_length example_times] by simp

text \<open>C6: the server never presents an expired certificate. In every reachable state of the resolver
  (any sequence of handshakes, reloads and file contents), a certified key handed to a handshake has
  every certificate of its chain within its validity period at the wall-clock time of the handshake,
  provided the wall clock does not run backwards between the handshake's reading and the check of a
  freshly loaded chain.\<close>

theorem resolver_never_serves_expired:
  assumes "resolver_reachable envs r" and "now_epoch \<le> load_epoch"
    and "resolve_current_cert_option env now now_epoch load_epoch r = (Some ck, r')"
  shows "chain_unexpired ck now_epoch"
  using resolve_unexpired [OF resolver_reachable_ok [OF assms(1)] assms(2,3)] .

theorem resolver_never_serves_expired_witness:
  "chain_unexpired (rs_cached_key example_resolver) 1893456000"
proof -
  have "resolver_reachable [example_env [example_certificate]] example_resolver"
    using example_created by (rule resolver_reachable.created)
  moreover have "resolve_current_cert_option (example_env []) 6000000000 1893456000 1893456001 example_resolver
      = (Some (rs_cached_key example_resolver), example_resolver\<lparr>rs_loaded_at := 6000000000, rs_loads := [6000000000]\<rparr>)"
    by (simp add: resolve_current_cert_option_def self_load_certified_key_def load_certified_key_def example_env_def
        example_resolver_def cached_if_valid_def)
  ultimately show ?thesis
    using resolver_never_serves_expired [of _ _ 1893456000 1893456001] by force
qed



text \<open>C29: a broken or expired replacement never costs the last valid pair. In any run of handshakes
  in which every attempted load fails, the cached pair and its expiry stay what they were, and every
  handshake gets that pair up to and including its last valid second, and nothing afterwards.\<close>

theorem resolver_keeps_last_valid_pair:
  assumes "run_handshakes calls r = (answers, r')"
    and "\<forall>(env, now, now_epoch, load_epoch) \<in> set calls.
           is_err (load_certified_key env (rs_cert_path r) (rs_key_path r) load_epoch)"
  shows "rs_cached_key r' = rs_cached_key r \<and> rs_not_after r' = rs_not_after r \<and>
    answers = map (\<lambda>(env, now, now_epoch, load_epoch).
      if now_epoch \<le> rs_not_after r then Some (rs_cached_key r) else None) calls"
  using run_handshakes_failing [OF assms] .

theorem resolver_keeps_last_valid_pair_witness:
  "\<exists>r'. run_handshakes [(example_env [], 6000000000, 1893456000, 0),
       (example_env [], 60000000000, 1893456001, 0)] example_resolver =
     ([Some (rs_cached_key example_resolver), None], r')"
proof -
  let ?calls = "[(example_env [], 6000000000, 1893456000, 0), (example_env [], 60000000000, 1893456001, 0)]"
  obtain answers r' where run: "run_handshakes ?calls example_resolver = (answers, r')"
    by (cases "run_handshakes ?calls example_resolver")
  have "\<forall>(env, now, now_epoch, load_epoch) \<in> set ?calls.
      is_err (load_certified_key env (rs_cert_path example_resolver) (rs_key_path example_resolver) load_epoch)"
    by (simp add: load_certified_key_def example_env_def)
  from resolver_keeps_last_valid_pair [OF run this]
  have "answers = [Some (rs_cached_key example_resolver), None]" by (simp add: example_resolver_def)
  with run show ?thesis by blast
qed

text \<open>C27: the chain check accepts exactly the chains that are valid now. It succeeds if and only if
  every certificate parses and the current time lies within its validity period, both ends included,
  and then returns the earliest \<open>notAfter\<close> of the chain (\<open>i64::MAX\<close> for an empty one).\<close>

theorem validate_certificate_validity_characterisation:
  "validate_certificate_validity certs now = Inr n \<longleftrightarrow>
     list_all (\<lambda>c. \<exists>nb na. parse_certificate_validity c = Inr (nb, na) \<and> nb \<le> now \<and> now \<le> na) certs \<and>
     n = fold min (map (\<lambda>c. case parse_certificate_validity c of Inl _ \<Rightarrow> i64_max | Inr (_, na) \<Rightarrow> na) certs) i64_max"
proof -
  let ?f = "\<lambda>c k. case parse_certificate_validity c of Inl _ \<Rightarrow> k | Inr (_, na) \<Rightarrow> min k na"
  let ?g = "\<lambda>c. case parse_certificate_validity c of Inl _ \<Rightarrow> i64_max | Inr (_, na) \<Rightarrow> na"
  have "fold ?f certs m = fold min (map ?g certs) m"
    if "list_all (\<lambda>c. \<exists>nb na. parse_certificate_validity c = Inr (nb, na) \<and> nb \<le> now \<and> now \<le> na) certs" for m
    using that by (induction certs arbitrary: m) (auto simp: min.commute)
  then show ?thesis unfolding validate_certificate_validity_def validate_chain_from_ok by auto
qed

end
