(* ===== verification/Contracts.thy ===== *)
theory Contracts
  imports Mirror_Prelude
begin

text \<open>
  Contracts that several components fulfil, as locales: a transition system with an inductive
  invariant (the lock tables, the runs of the metadata service, the accept loop and its connections,
  the concurrent loads of archives) and a table of bounded size (the verified archives, the refresh
  failures). The components interpret them on their own definitions.
\<close>

section \<open>Transition systems\<close>

inductive reach :: "('s \<Rightarrow> bool) \<Rightarrow> ('s \<Rightarrow> 's \<Rightarrow> bool) \<Rightarrow> 's \<Rightarrow> bool"
  for init :: "'s \<Rightarrow> bool" and step :: "'s \<Rightarrow> 's \<Rightarrow> bool" where
  start: "init s \<Longrightarrow> reach init step s"
| move: "reach init step s \<Longrightarrow> step s s' \<Longrightarrow> reach init step s'"

locale inductive_invariant =
  fixes init :: "'s \<Rightarrow> bool" and step :: "'s \<Rightarrow> 's \<Rightarrow> bool" and inv :: "'s \<Rightarrow> bool"
  assumes inv_init: "init s \<Longrightarrow> inv s"
    and inv_step: "inv s \<Longrightarrow> step s s' \<Longrightarrow> inv s'"
begin

lemma reach_inv: "reach init step s \<Longrightarrow> inv s"
  by (induction rule: reach.induct) (auto intro: inv_init inv_step)

lemma steps_inv: "inv s \<Longrightarrow> step\<^sup>*\<^sup>* s s' \<Longrightarrow> inv s'"
  by (rotate_tac, induction rule: rtranclp_induct) (auto intro: inv_step)

end

section \<open>Tables of bounded size\<close>

text \<open>A table whose \<open>record_entry\<close> stores what \<open>value_of\<close> makes of its argument under a key and may drop
  other entries to keep its size bounded.\<close>

locale bounded_table =
  fixes record_entry :: "'t \<Rightarrow> 'k \<Rightarrow> 'x \<Rightarrow> 't"
    and value_of :: "'x \<Rightarrow> 'v"
    and lookup :: "'t \<Rightarrow> 'k \<Rightarrow> 'v option"
    and entries :: "'t \<Rightarrow> nat"
    and wf :: "'t \<Rightarrow> bool"
    and bound :: nat
  assumes record_wf: "wf t \<Longrightarrow> wf (record_entry t k x)"
    and record_lookup: "wf t \<Longrightarrow> lookup (record_entry t k x) k = Some (value_of x)"
    and record_other: "wf t \<Longrightarrow> k' \<noteq> k \<Longrightarrow> lookup (record_entry t k x) k' \<in> {lookup t k', None}"
    and record_bound: "wf t \<Longrightarrow> entries t \<le> bound \<Longrightarrow> entries (record_entry t k x) \<le> bound"
begin

abbreviation record_all :: "'t \<Rightarrow> ('k \<times> 'x) list \<Rightarrow> 't" where
  "record_all t kxs \<equiv> foldl (\<lambda>t (k, x). record_entry t k x) t kxs"

lemma record_all_wf: "wf t \<Longrightarrow> wf (record_all t kxs)"
  by (induction kxs arbitrary: t) (auto intro: record_wf split: prod.splits)

lemma record_all_bounded: "wf t \<Longrightarrow> entries t \<le> bound \<Longrightarrow> entries (record_all t kxs) \<le> bound"
  by (induction kxs arbitrary: t) (auto intro: record_wf record_bound split: prod.splits)

text \<open>Whatever is found was stored: it is the last entry recorded under its key, or an old one.\<close>

lemma record_all_lookup:
  "wf t \<Longrightarrow> lookup (record_all t kxs) k = Some v \<Longrightarrow>
     (case map_of (rev kxs) k of Some x \<Rightarrow> v = value_of x | None \<Rightarrow> lookup t k = Some v)"
proof (induction kxs rule: rev_induct)
  case (snoc kx kxs)
  obtain k' x where kx: "kx = (k', x)" by fastforce
  have wf: "wf (record_all t kxs)" using snoc.prems(1) by (rule record_all_wf)
  show ?case
  proof (cases "k = k'")
    case True
    then show ?thesis using snoc.prems kx record_lookup [OF wf] by simp
  next
    case False
    with record_other [OF wf, of k k' x] snoc.prems kx
    have "lookup (record_all t kxs) k = Some v" by auto
    with snoc.IH [OF snoc.prems(1)] False kx show ?thesis by simp
  qed
qed simp

lemma record_all_last: "wf t \<Longrightarrow> lookup (record_all t (kxs @ [(k, x)])) k = Some (value_of x)"
  by (simp add: record_lookup record_all_wf)

end

end
