(* ===== verification/Ip_Policy.thy ===== *)
theory Ip_Policy
  imports Mirror_Prelude "HOL-Library.Word"
begin

unbundle bit_operations_syntax

text \<open>
  The address policy of the outbound client (\<^verbatim>\<open>src/src/outbound.rs\<close>, \<open>is_public_ip\<close>), with the
  part of Rust's \<open>std::net\<close> it uses: the address types, their classification methods and the parser
  behind \<open>str::parse::<IpAddr>()\<close>. The reference at the end of the definitions is a table of CIDR
  blocks, against which the chain of conditions in the source is checked.
\<close>

section \<open>Definitions\<close>

type_synonym octet = "8 word"
type_synonym segment = "16 word"

datatype ipv4 = Ipv4 octet octet octet octet
datatype ipv6 = Ipv6 segment segment segment segment segment segment segment segment
datatype ip_addr = V4 ipv4 | V6 ipv6

subsection \<open>\<open>std::net\<close>: classification\<close>

fun is_private4 :: "ipv4 \<Rightarrow> bool" where
  "is_private4 (Ipv4 a b c d) \<longleftrightarrow>
     a = 10 \<or> (a = 172 \<and> 16 \<le> b \<and> b \<le> 31) \<or> (a = 192 \<and> b = 168)"

fun is_loopback4 :: "ipv4 \<Rightarrow> bool" where
  "is_loopback4 (Ipv4 a b c d) \<longleftrightarrow> a = 127"

fun is_link_local4 :: "ipv4 \<Rightarrow> bool" where
  "is_link_local4 (Ipv4 a b c d) \<longleftrightarrow> a = 169 \<and> b = 254"

fun is_unspecified4 :: "ipv4 \<Rightarrow> bool" where
  "is_unspecified4 (Ipv4 a b c d) \<longleftrightarrow> a = 0 \<and> b = 0 \<and> c = 0 \<and> d = 0"

fun is_multicast4 :: "ipv4 \<Rightarrow> bool" where
  "is_multicast4 (Ipv4 a b c d) \<longleftrightarrow> 224 \<le> a \<and> a \<le> 239"

fun segments :: "ipv6 \<Rightarrow> segment list" where
  "segments (Ipv6 s0 s1 s2 s3 s4 s5 s6 s7) = [s0, s1, s2, s3, s4, s5, s6, s7]"

text \<open>\<open>u16::to_be_bytes\<close> of two segments.\<close>

definition embedded_v4 :: "segment \<Rightarrow> segment \<Rightarrow> ipv4" where
  "embedded_v4 high low = Ipv4 (ucast (drop_bit 8 high)) (ucast high) (ucast (drop_bit 8 low)) (ucast low)"

text \<open>\<open>Ipv6Addr::to_ipv4\<close>: \<open>::a.b.c.d\<close> and \<open>::ffff:a.b.c.d\<close>.\<close>

fun to_ipv4 :: "ipv6 \<Rightarrow> ipv4 option" where
  "to_ipv4 (Ipv6 s0 s1 s2 s3 s4 s5 ab cd) =
     (if s0 = 0 \<and> s1 = 0 \<and> s2 = 0 \<and> s3 = 0 \<and> s4 = 0 \<and> (s5 = 0 \<or> s5 = 0xffff)
      then Some (embedded_v4 ab cd) else None)"

definition is_loopback6 :: "ipv6 \<Rightarrow> bool" where
  "is_loopback6 ip \<longleftrightarrow> ip = Ipv6 0 0 0 0 0 0 0 1"

definition is_unspecified6 :: "ipv6 \<Rightarrow> bool" where
  "is_unspecified6 ip \<longleftrightarrow> ip = Ipv6 0 0 0 0 0 0 0 0"

definition is_multicast6 :: "ipv6 \<Rightarrow> bool" where
  "is_multicast6 ip \<longleftrightarrow> (segments ip ! 0) AND 0xff00 = 0xff00"

definition is_unique_local6 :: "ipv6 \<Rightarrow> bool" where
  "is_unique_local6 ip \<longleftrightarrow> (segments ip ! 0) AND 0xfe00 = 0xfc00"

definition is_unicast_link_local6 :: "ipv6 \<Rightarrow> bool" where
  "is_unicast_link_local6 ip \<longleftrightarrow> (segments ip ! 0) AND 0xffc0 = 0xfe80"

subsection \<open>\<open>is_public_ip\<close>\<close>

fun is_public_ipv4 :: "ipv4 \<Rightarrow> bool" where
  "is_public_ipv4 (Ipv4 first second third d) \<longleftrightarrow>
     \<not> is_private4 (Ipv4 first second third d) \<and>
     \<not> is_loopback4 (Ipv4 first second third d) \<and>
     \<not> is_link_local4 (Ipv4 first second third d) \<and>
     \<not> is_unspecified4 (Ipv4 first second third d) \<and>
     \<not> is_multicast4 (Ipv4 first second third d) \<and>
     first \<noteq> 0 \<and>
     first < 224 \<and>
     \<not> (first = 100 \<and> 64 \<le> second \<and> second \<le> 127) \<and>
     \<not> (first = 192 \<and> second = 0) \<and>
     \<not> (first = 192 \<and> second = 88 \<and> third = 99) \<and>
     \<not> (first = 192 \<and> second = 0 \<and> third = 2) \<and>
     \<not> (first = 198 \<and> (second = 18 \<or> second = 19)) \<and>
     \<not> (first = 198 \<and> second = 51 \<and> third = 100) \<and>
     \<not> (first = 203 \<and> second = 0 \<and> third = 113)"

fun is_public_ip :: "ip_addr \<Rightarrow> bool" where
  "is_public_ip (V4 ip) = is_public_ipv4 ip"
| "is_public_ip (V6 ip) =
     (case to_ipv4 ip of
        Some ipv4 \<Rightarrow> is_public_ipv4 ipv4
      | None \<Rightarrow>
          (if take 6 (segments ip) = [0x64, 0xff9b, 0, 0, 0, 0]
           then is_public_ipv4 (embedded_v4 (segments ip ! 6) (segments ip ! 7))
           else if segments ip ! 0 = 0x2002
           then is_public_ipv4 (embedded_v4 (segments ip ! 1) (segments ip ! 2))
           else \<not> is_loopback6 ip \<and> \<not> is_unspecified6 ip \<and> \<not> is_multicast6 ip \<and>
             \<not> is_unique_local6 ip \<and> \<not> is_unicast_link_local6 ip \<and>
             (segments ip ! 0) AND 0xffc0 \<noteq> 0xfec0 \<and>
             \<not> (segments ip ! 0 = 0x2001 \<and> segments ip ! 1 = 0x0db8)))"

subsection \<open>\<open>std::net\<close>: the parser\<close>

text \<open>Readers take the input and return the value read with the input that is left; \<^const>\<open>None\<close>
  leaves the input alone, which is \<open>read_atomically\<close>.\<close>

definition hex_value :: "char \<Rightarrow> nat option" where
  "hex_value c =
     (let n = (of_char c :: nat)
      in if 48 \<le> n \<and> n \<le> 57 then Some (n - 48)
         else if 97 \<le> n \<and> n \<le> 102 then Some (n - 87)
         else if 65 \<le> n \<and> n \<le> 70 then Some (n - 55)
         else None)"

definition to_digit :: "nat \<Rightarrow> char \<Rightarrow> nat option" where
  "to_digit radix c = (case hex_value c of Some d \<Rightarrow> if d < radix then Some d else None | None \<Rightarrow> None)"

text \<open>The digit loop of \<open>read_number\<close>: the value, the number of digits and the rest; \<^const>\<open>None\<close> as
  soon as there are more than \<open>max_digits\<close> digits.\<close>

fun read_digits :: "nat \<Rightarrow> nat \<Rightarrow> nat \<Rightarrow> nat \<Rightarrow> string \<Rightarrow> (nat \<times> nat \<times> string) option" where
  "read_digits radix max_digits v count [] = Some (v, count, [])"
| "read_digits radix max_digits v count (c # cs) =
     (case to_digit radix c of
        None \<Rightarrow> Some (v, count, c # cs)
      | Some d \<Rightarrow>
          (if Suc count > max_digits then None
           else read_digits radix max_digits (v * radix + d) (Suc count) cs))"

definition read_number :: "nat \<Rightarrow> nat \<Rightarrow> nat \<Rightarrow> bool \<Rightarrow> string \<Rightarrow> (nat \<times> string) option" where
  "read_number radix max_digits limit allow_zero_prefix s =
     (case read_digits radix max_digits 0 0 s of
        None \<Rightarrow> None
      | Some (v, count, rest) \<Rightarrow>
          (if count = 0 then None
           else if \<not> allow_zero_prefix \<and> hd s = CHR ''0'' \<and> count > 1 then None
           else if v > limit then None
           else Some (v, rest)))"

fun read_given_char :: "char \<Rightarrow> string \<Rightarrow> string option" where
  "read_given_char c [] = None"
| "read_given_char c (x # xs) = (if x = c then Some xs else None)"

definition read_separator :: "char \<Rightarrow> nat \<Rightarrow> (string \<Rightarrow> 'a option) \<Rightarrow> string \<Rightarrow> 'a option" where
  "read_separator sep index inner s =
     (if index > 0 then (case read_given_char sep s of None \<Rightarrow> None | Some r \<Rightarrow> inner r) else inner s)"

definition read_octet :: "nat \<Rightarrow> string \<Rightarrow> (nat \<times> string) option" where
  "read_octet index s = read_separator CHR ''.'' index (read_number 10 3 255 False) s"

definition read_ipv4_addr :: "string \<Rightarrow> (ipv4 \<times> string) option" where
  "read_ipv4_addr s =
     (case read_octet 0 s of None \<Rightarrow> None | Some (a, s) \<Rightarrow>
     (case read_octet 1 s of None \<Rightarrow> None | Some (b, s) \<Rightarrow>
     (case read_octet 2 s of None \<Rightarrow> None | Some (c, s) \<Rightarrow>
     (case read_octet 3 s of None \<Rightarrow> None | Some (d, s) \<Rightarrow>
        Some (Ipv4 (of_nat a) (of_nat b) (of_nat c) (of_nat d), s)))))"

text \<open>\<open>read_groups\<close> with \<open>left\<close> slots to fill, of which \<open>i\<close> are already filled: the groups read,
  whether the last two came from an embedded IPv4 address, and the rest.\<close>

fun read_groups :: "nat \<Rightarrow> nat \<Rightarrow> string \<Rightarrow> segment list \<times> bool \<times> string" where
  "read_groups i 0 s = ([], False, s)"
| "read_groups i (Suc left) s =
     (case (if left > 0 then read_separator CHR '':'' i read_ipv4_addr s else None) of
        Some (Ipv4 a b c d, s') \<Rightarrow>
          ([word_of_nat (unat a * 256 + unat b), word_of_nat (unat c * 256 + unat d)], True, s')
      | None \<Rightarrow>
     (case read_separator CHR '':'' i (read_number 16 4 65535 True) s of
        None \<Rightarrow> ([], False, s)
      | Some (g, s') \<Rightarrow>
          (let (gs, v4, s'') = read_groups (Suc i) left s' in (word_of_nat g # gs, v4, s''))))"

definition ipv6_of :: "segment list \<Rightarrow> ipv6" where
  "ipv6_of gs = Ipv6 (gs ! 0) (gs ! 1) (gs ! 2) (gs ! 3) (gs ! 4) (gs ! 5) (gs ! 6) (gs ! 7)"

definition read_ipv6_addr :: "string \<Rightarrow> (ipv6 \<times> string) option" where
  "read_ipv6_addr s =
     (let (head, head_ipv4, s1) = read_groups 0 8 s
      in if length head = 8 then Some (ipv6_of head, s1)
         else if head_ipv4 then None
         else (case read_given_char CHR '':'' s1 of None \<Rightarrow> None | Some s2 \<Rightarrow>
              (case read_given_char CHR '':'' s2 of None \<Rightarrow> None | Some s3 \<Rightarrow>
              (let (tail, _, s4) = read_groups 0 (8 - (length head + 1)) s3
               in Some (ipv6_of (head @ replicate (8 - length head - length tail) 0 @ tail), s4)))))"

definition parse_ip_addr :: "string \<Rightarrow> ip_addr option" where
  "parse_ip_addr s =
     (case (case read_ipv4_addr s of
              Some (ip, rest) \<Rightarrow> Some (V4 ip, rest)
            | None \<Rightarrow> (case read_ipv6_addr s of Some (ip, rest) \<Rightarrow> Some (V6 ip, rest) | None \<Rightarrow> None)) of
        Some (ip, []) \<Rightarrow> Some ip
      | _ \<Rightarrow> None)"

subsection \<open>Reference: blocked CIDR blocks and dotted quads\<close>

fun v4_num :: "ipv4 \<Rightarrow> nat" where
  "v4_num (Ipv4 a b c d) = ((unat a * 256 + unat b) * 256 + unat c) * 256 + unat d"

text \<open>Membership in the block \<open>base / len\<close>: the first \<open>len\<close> bits agree.\<close>

definition in_block :: "nat \<Rightarrow> nat \<times> nat \<Rightarrow> bool" where
  "in_block n blk = (n div 2 ^ (32 - snd blk) = fst blk div 2 ^ (32 - snd blk))"

definition quad :: "nat \<Rightarrow> nat \<Rightarrow> nat \<Rightarrow> nat \<Rightarrow> nat" where
  "quad a b c d = ((a * 256 + b) * 256 + c) * 256 + d"

definition blocked_v4 :: "(nat \<times> nat) list" where
  "blocked_v4 =
     [(quad 0 0 0 0, 8), (quad 10 0 0 0, 8), (quad 100 64 0 0, 10), (quad 127 0 0 0, 8),
      (quad 169 254 0 0, 16), (quad 172 16 0 0, 12), (quad 192 0 0 0, 16), (quad 192 88 99 0, 24),
      (quad 192 168 0 0, 16), (quad 198 18 0 0, 15), (quad 198 51 100 0, 24),
      (quad 203 0 113 0, 24), (quad 224 0 0 0, 3)]"

text \<open>The IPv4 address an IPv6 address carries: compatible and mapped (\<open>::/96\<close>,
  \<open>::ffff:0:0/96\<close>), NAT64 (\<open>64:ff9b::/96\<close>) and 6to4 (\<open>2002::/16\<close>); and the blocked IPv6 blocks by
  their first 32 bits.\<close>

fun v6_embedded :: "ipv6 \<Rightarrow> ipv4 option" where
  "v6_embedded (Ipv6 s0 s1 s2 s3 s4 s5 s6 s7) =
     (if [s0, s1, s2, s3, s4, s5] \<in> {[0, 0, 0, 0, 0, 0], [0, 0, 0, 0, 0, 0xffff], [0x64, 0xff9b, 0, 0, 0, 0]}
      then Some (embedded_v4 s6 s7)
      else if s0 = 0x2002 then Some (embedded_v4 s1 s2)
      else None)"

fun v6_hi :: "ipv6 \<Rightarrow> nat" where
  "v6_hi (Ipv6 s0 s1 s2 s3 s4 s5 s6 s7) = unat s0 * 65536 + unat s1"

definition blocked_v6 :: "(nat \<times> nat) list" where
  "blocked_v6 =
     [(0xfc00 * 65536, 7), (0xfe80 * 65536, 10), (0xfec0 * 65536, 10), (0xff00 * 65536, 8),
      (0x2001 * 65536 + 0x0db8, 32)]"

fun dec_digits :: "nat \<Rightarrow> string" where
  "dec_digits n = (if n < 10 then [char_of (48 + n)] else dec_digits (n div 10) @ [char_of (48 + n mod 10)])"

fun show_ipv4 :: "ipv4 \<Rightarrow> string" where
  "show_ipv4 (Ipv4 a b c d) =
     dec_digits (unat a) @ ''.'' @ dec_digits (unat b) @ ''.'' @ dec_digits (unat c) @ ''.'' @
     dec_digits (unat d)"

section \<open>Lemmas\<close>

subsection \<open>Blocks\<close>

lemma unat_octet: "unat (a :: octet) < 256"
  using unsigned_less [of a] by simp

lemma mixed_radix_eq:
  fixes a b k l n :: nat
  assumes "b < n" and "l < n"
  shows "a * n + b = k * n + l \<longleftrightarrow> a = k \<and> b = l"
proof
  assume eq: "a * n + b = k * n + l"
  then have "(a * n + b) div n = (k * n + l) div n" by simp
  then have "a = k" using assms by simp
  with eq show "a = k \<and> b = l" by simp
qed simp

lemma div_eq_range:
  fixes x n q :: nat
  assumes "0 < n"
  shows "x div n = q \<longleftrightarrow> q * n \<le> x \<and> x < Suc q * n"
proof -
  have "x div n = q \<longleftrightarrow> q \<le> x div n \<and> x div n < Suc q" by auto
  then show ?thesis
    using assms by (simp only: less_eq_div_iff_mult_less_eq div_less_iff_less_mult)
qed

lemma quad_div:
  assumes "b < 256" "c < 256" "d < 256"
  shows "quad a b c d div 256 = (a * 256 + b) * 256 + c" "quad a b c d div 65536 = a * 256 + b"
    "quad a b c d div 16777216 = a"
proof -
  show one: "quad a b c d div 256 = (a * 256 + b) * 256 + c" using assms by (simp add: quad_def)
  have "quad a b c d div 65536 = quad a b c d div 256 div 256" by (simp add: div_mult2_eq [symmetric])
  then show two: "quad a b c d div 65536 = a * 256 + b" using one assms by simp
  have "quad a b c d div 16777216 = quad a b c d div 65536 div 256" by (simp add: div_mult2_eq [symmetric])
  then show "quad a b c d div 16777216 = a" using two assms by simp
qed

text \<open>One lemma per prefix length: membership in a block by its leading octets.\<close>

lemma in_block_8:
  assumes "b < 256" "c < 256" "d < 256"
  shows "in_block (quad a b c d) (quad k 0 0 0, 8) \<longleftrightarrow> a = k"
  using quad_div(3) [OF assms] quad_div(3) [of 0 0 0 k] by (simp add: in_block_def)

lemma in_block_16:
  assumes "b < 256" "c < 256" "d < 256" "l < 256"
  shows "in_block (quad a b c d) (quad k l 0 0, 16) \<longleftrightarrow> a = k \<and> b = l"
proof -
  have "in_block (quad a b c d) (quad k l 0 0, 16) \<longleftrightarrow> a * 256 + b = k * 256 + l"
    using quad_div(2) [OF assms(1-3)] quad_div(2) [of l 0 0 k] assms(4) by (simp add: in_block_def)
  then show ?thesis using mixed_radix_eq [OF assms(1,4)] by simp
qed

lemma in_block_24:
  assumes "b < 256" "c < 256" "d < 256" "l < 256" "m < 256"
  shows "in_block (quad a b c d) (quad k l m 0, 24) \<longleftrightarrow> a = k \<and> b = l \<and> c = m"
proof -
  have "in_block (quad a b c d) (quad k l m 0, 24) \<longleftrightarrow>
      (a * 256 + b) * 256 + c = (k * 256 + l) * 256 + m"
    using quad_div(1) [OF assms(1-3)] quad_div(1) [of l m 0 k] assms(4,5) by (simp add: in_block_def)
  then show ?thesis
    by (simp only: mixed_radix_eq [OF assms(2,5)] mixed_radix_eq [OF assms(1,4)] conj_assoc)
qed

text \<open>Prefixes that end inside the second octet, after \<open>8 - j\<close> of its bits.\<close>

lemma in_block_second:
  assumes "b < 256" "c < 256" "d < 256" "l < 256" "j \<le> 8"
  shows "in_block (quad a b c d) (quad k l 0 0, 16 - j) \<longleftrightarrow> a = k \<and> b div 2 ^ j = l div 2 ^ j"
proof -
  have split: "quad a b c d div 2 ^ (32 - (16 - j)) = a * 2 ^ (8 - j) + b div 2 ^ j"
    if "b < 256" "c < 256" "d < 256" for a b c d
  proof -
    have "(2::nat) ^ (32 - (16 - j)) = 65536 * 2 ^ j"
      using assms(5) by (simp add: power_add)
    then have "quad a b c d div 2 ^ (32 - (16 - j)) = (a * 256 + b) div 2 ^ j"
      using quad_div(2) [OF that] by (simp add: div_mult2_eq)
    also have "(256::nat) = 2 ^ (8 - j) * 2 ^ j" using assms(5) by (simp add: power_add [symmetric])
    then have "(a * 256 + b) div 2 ^ j = (a * 2 ^ (8 - j) * 2 ^ j + b) div 2 ^ j" by (simp add: mult.assoc)
    also have "\<dots> = a * 2 ^ (8 - j) + b div 2 ^ j" by simp
    finally show ?thesis .
  qed
  have small: "x div 2 ^ j < 2 ^ (8 - j)" if "x < 256" for x :: nat
    using that assms(5) by (simp add: less_mult_imp_div_less power_add [symmetric])
  note mixed_radix_eq [OF small [OF assms(1)] small [OF assms(4)], of a k]
  then show ?thesis using split [OF assms(1-3), of a] split [of l 0 0 k] assms(4) by (simp add: in_block_def)
qed

lemma in_block_3:
  assumes "b < 256" "c < 256" "d < 256" "a < 256"
  shows "in_block (quad a b c d) (quad 224 0 0 0, 3) \<longleftrightarrow> 224 \<le> a"
proof -
  have "quad a b c d div 536870912 = quad a b c d div 16777216 div 32" by (simp add: div_mult2_eq [symmetric])
  then have "quad a b c d div 536870912 = a div 32" using quad_div(3) [OF assms(1-3)] by simp
  moreover have "quad 224 0 0 0 div 536870912 = 7" by (simp add: quad_def)
  ultimately have "in_block (quad a b c d) (quad 224 0 0 0, 3) \<longleftrightarrow> a div 32 = 7"
    by (simp add: in_block_def)
  then show ?thesis using assms(4) by (simp add: div_eq_range)
qed

lemma v4_num_quad: "v4_num (Ipv4 a b c d) = quad (unat a) (unat b) (unat c) (unat d)"
  by (simp add: quad_def)

lemma blocked_v4_iff:
  "list_ex (in_block (v4_num (Ipv4 a b c d))) blocked_v4 \<longleftrightarrow>
     unat a = 0 \<or> unat a = 10 \<or> (unat a = 100 \<and> unat b div 64 = 1) \<or> unat a = 127 \<or>
     (unat a = 169 \<and> unat b = 254) \<or> (unat a = 172 \<and> unat b div 16 = 1) \<or>
     (unat a = 192 \<and> unat b = 0) \<or> (unat a = 192 \<and> unat b = 88 \<and> unat c = 99) \<or>
     (unat a = 192 \<and> unat b = 168) \<or> (unat a = 198 \<and> unat b div 2 = 9) \<or>
     (unat a = 198 \<and> unat b = 51 \<and> unat c = 100) \<or>
     (unat a = 203 \<and> unat b = 0 \<and> unat c = 113) \<or> 224 \<le> unat a"
proof -
  note oct = unat_octet [of a] unat_octet [of b] unat_octet [of c] unat_octet [of d]
  have "in_block (quad (unat a) (unat b) (unat c) (unat d)) (quad 100 64 0 0, 10) \<longleftrightarrow> unat a = 100 \<and> unat b div 64 = 1"
    and "in_block (quad (unat a) (unat b) (unat c) (unat d)) (quad 172 16 0 0, 12) \<longleftrightarrow> unat a = 172 \<and> unat b div 16 = 1"
    and "in_block (quad (unat a) (unat b) (unat c) (unat d)) (quad 198 18 0 0, 15) \<longleftrightarrow> unat a = 198 \<and> unat b div 2 = 9"
    using in_block_second [of "unat b" "unat c" "unat d" 64 6 "unat a" 100]
      in_block_second [of "unat b" "unat c" "unat d" 16 4 "unat a" 172]
      in_block_second [of "unat b" "unat c" "unat d" 18 1 "unat a" 198] oct by simp_all
  then show ?thesis
    using oct by (simp add: blocked_v4_def v4_num_quad in_block_8 in_block_16 in_block_24 in_block_3
        del: v4_num.simps)
qed

lemma octet_eq: "(a :: octet) = numeral n \<longleftrightarrow> unat a = unat (numeral n :: octet)"
  "(a :: octet) = 0 \<longleftrightarrow> unat a = 0"
  by (simp_all add: word_unat_eq_iff)

lemma unat_numeral_octet:
  "unat (10 :: octet) = 10" "unat (172 :: octet) = 172" "unat (16 :: octet) = 16"
  "unat (31 :: octet) = 31" "unat (192 :: octet) = 192" "unat (168 :: octet) = 168"
  "unat (127 :: octet) = 127" "unat (169 :: octet) = 169" "unat (254 :: octet) = 254"
  "unat (224 :: octet) = 224" "unat (239 :: octet) = 239" "unat (100 :: octet) = 100"
  "unat (64 :: octet) = 64" "unat (88 :: octet) = 88" "unat (99 :: octet) = 99"
  "unat (2 :: octet) = 2" "unat (198 :: octet) = 198" "unat (18 :: octet) = 18"
  "unat (19 :: octet) = 19" "unat (51 :: octet) = 51" "unat (203 :: octet) = 203"
  "unat (113 :: octet) = 113"
  by simp_all

lemma is_public_ipv4_iff:
  "is_public_ipv4 ip \<longleftrightarrow> \<not> list_ex (in_block (v4_num ip)) blocked_v4"
proof (cases ip)
  case (Ipv4 a b c d)
  have ranges: "64 \<le> unat b \<and> unat b \<le> 127 \<longleftrightarrow> unat b div 64 = 1"
    "16 \<le> unat b \<and> unat b \<le> 31 \<longleftrightarrow> unat b div 16 = 1"
    "unat b = 18 \<or> unat b = 19 \<longleftrightarrow> unat b div 2 = 9"
    by (auto simp: div_eq_range)
  have "is_public_ipv4 ip \<longleftrightarrow>
      \<not> (unat a = 10 \<or> (unat a = 172 \<and> unat b div 16 = 1) \<or> (unat a = 192 \<and> unat b = 168)) \<and>
      unat a \<noteq> 127 \<and> \<not> (unat a = 169 \<and> unat b = 254) \<and>
      \<not> (unat a = 0 \<and> unat b = 0 \<and> unat c = 0 \<and> unat d = 0) \<and>
      \<not> (224 \<le> unat a \<and> unat a \<le> 239) \<and> unat a \<noteq> 0 \<and> \<not> 224 \<le> unat a \<and>
      \<not> (unat a = 100 \<and> unat b div 64 = 1) \<and> \<not> (unat a = 192 \<and> unat b = 0) \<and>
      \<not> (unat a = 192 \<and> unat b = 88 \<and> unat c = 99) \<and>
      \<not> (unat a = 192 \<and> unat b = 0 \<and> unat c = 2) \<and>
      \<not> (unat a = 198 \<and> unat b div 2 = 9) \<and>
      \<not> (unat a = 198 \<and> unat b = 51 \<and> unat c = 100) \<and>
      \<not> (unat a = 203 \<and> unat b = 0 \<and> unat c = 113)"
    unfolding Ipv4 is_public_ipv4.simps is_private4.simps is_loopback4.simps is_link_local4.simps
      is_unspecified4.simps is_multicast4.simps ranges [symmetric]
    by (simp only: octet_eq word_le_nat_alt word_less_nat_alt linorder_not_le [symmetric] unat_numeral_octet)
  then show ?thesis unfolding Ipv4 blocked_v4_iff by blast
qed

subsection \<open>IPv6 prefixes\<close>

lemma unat_segment: "unat (x :: segment) < 65536"
  using unsigned_less [of x] by simp

lemma and_not_mask: "(x :: segment) AND NOT (mask n) = push_bit n (drop_bit n x)"
  by (rule bit_word_eqI) (auto simp: bit_simps)

lemma unat_and_not_mask: "unat ((x :: segment) AND NOT (mask n)) = unat x div 2 ^ n * 2 ^ n"
proof -
  have "unat x div 2 ^ n * 2 ^ n \<le> unat x" by (rule div_times_less_eq_dividend)
  also have "unat x < 2 ^ 16" using unat_segment [of x] by simp
  finally have "unat x div 2 ^ n * 2 ^ n < 2 ^ 16" .
  moreover have "unat (push_bit n (drop_bit n x)) = take_bit 16 (push_bit n (drop_bit n (unat x)))"
    by (simp only: unsigned_push_bit_eq unat_drop_bit_eq) simp
  ultimately show ?thesis
    by (simp add: and_not_mask push_bit_eq_mult [of n "_ :: nat"] drop_bit_eq_div [of n "_ :: nat"]
        take_bit_nat_eq_self del: push_bit_eq_mult)
qed

lemma segment_mask_eq:
  assumes "(m :: segment) = NOT (mask n)" and "unat c = q * 2 ^ n"
  shows "x AND m = c \<longleftrightarrow> unat x div 2 ^ n = q"
  unfolding assms(1) word_unat_eq_iff unat_and_not_mask assms(2) by simp

lemma segment_masks:
  fixes x :: segment
  shows "x AND 0xff00 = 0xff00 \<longleftrightarrow> unat x div 256 = 255"
    and "x AND 0xfe00 = 0xfc00 \<longleftrightarrow> unat x div 512 = 126"
    and "x AND 0xffc0 = 0xfe80 \<longleftrightarrow> unat x div 64 = 1018"
    and "x AND 0xffc0 = 0xfec0 \<longleftrightarrow> unat x div 64 = 1019"
  using segment_mask_eq [of "0xff00" 8 "0xff00" 255 x] segment_mask_eq [of "0xfe00" 9 "0xfc00" 126 x]
    segment_mask_eq [of "0xffc0" 6 "0xfe80" 1018 x] segment_mask_eq [of "0xffc0" 6 "0xfec0" 1019 x]
  by (simp_all add: mask_eq_exp_minus_1)

lemma v6_hi_div:
  assumes "j \<le> 16" and "b < 65536"
  shows "(a * 65536 + b) div 2 ^ (32 - j) = (a :: nat) div 2 ^ (16 - j)"
proof -
  have "(2::nat) ^ (32 - j) = 65536 * 2 ^ (16 - j)"
    using assms(1) power_add [of "2::nat" 16 "16 - j"] by simp
  then show ?thesis using assms(2) by (simp add: div_mult2_eq)
qed

lemma blocked_v6_iff:
  "list_ex (in_block (v6_hi (Ipv6 s0 s1 s2 s3 s4 s5 s6 s7))) blocked_v6 \<longleftrightarrow>
     unat s0 div 512 = 126 \<or> unat s0 div 64 = 1018 \<or> unat s0 div 64 = 1019 \<or> unat s0 div 256 = 255 \<or>
     (s0 = 0x2001 \<and> s1 = 0x0db8)"
proof -
  have "in_block (unat s0 * 65536 + unat s1) (0x2001 * 65536 + 0x0db8, 32) \<longleftrightarrow> s0 = 0x2001 \<and> s1 = 0x0db8"
    using mixed_radix_eq [of "unat s1" 65536 "0x0db8" "unat s0" "0x2001"] unat_segment [of s1]
    by (simp add: in_block_def word_unat_eq_iff)
  moreover have blk: "in_block (unat s0 * 65536 + unat s1) (k * 65536, j) \<longleftrightarrow>
      unat s0 div 2 ^ (16 - j) = k div 2 ^ (16 - j)" if "j \<le> 16" for k j
    using v6_hi_div [OF that unat_segment [of s1]] v6_hi_div [OF that, of 0 k] by (simp add: in_block_def)
  moreover note blk [of 7 "0xfc00"] blk [of 10 "0xfe80"] blk [of 10 "0xfec0"] blk [of 8 "0xff00"]
  ultimately show ?thesis by (simp add: blocked_v6_def disj_assoc)
qed

lemma is_public_ipv6_iff:
  "is_public_ip (V6 ip) \<longleftrightarrow>
     (case v6_embedded ip of
        Some v4 \<Rightarrow> \<not> list_ex (in_block (v4_num v4)) blocked_v4
      | None \<Rightarrow> \<not> list_ex (in_block (v6_hi ip)) blocked_v6)"
proof (cases ip)
  case (Ipv6 s0 s1 s2 s3 s4 s5 s6 s7)
  show ?thesis
  proof (cases "v6_embedded ip")
    case None
    then show ?thesis unfolding Ipv6 blocked_v6_iff
      by (auto simp: is_multicast6_def is_unique_local6_def is_unicast_link_local6_def
          is_loopback6_def is_unspecified6_def segment_masks split: if_splits)
  next
    case (Some v4)
    then show ?thesis unfolding Ipv6
      by (auto simp: is_public_ipv4_iff split: if_splits)
  qed
qed

subsection \<open>Dotted quads\<close>

lemma to_digit_char: "d < 10 \<Longrightarrow> to_digit 10 (char_of (48 + d)) = Some d"
  by (simp add: to_digit_def hex_value_def)

definition starts_digit :: "string \<Rightarrow> bool" where
  "starts_digit s \<longleftrightarrow> s \<noteq> [] \<and> to_digit 10 (hd s) \<noteq> None"

lemma read_digits_stop: "\<not> starts_digit rest \<Longrightarrow> read_digits 10 m v k rest = Some (v, k, rest)"
  by (cases rest) (auto simp: starts_digit_def)

lemma char_of_digit_zero: "d < 10 \<Longrightarrow> char_of (48 + d) = CHR ''0'' \<longleftrightarrow> d = 0" for d :: nat
proof
  assume d: "d < 10" and eq: "char_of (48 + d) = CHR ''0''"
  from eq have "of_char (char_of (48 + d)) = (of_char CHR ''0'' :: nat)" by simp
  with d show "d = 0" by simp
next
  have "of_char CHR ''0'' = (48 :: nat)" by simp
  then have "char_of (48 :: nat) = CHR ''0''" by (metis char_of_char)
  then show "d = 0 \<Longrightarrow> char_of (48 + d) = CHR ''0''" by simp
qed

lemma read_number_dec_digits:
  assumes "n < 256" and "\<not> starts_digit rest"
  shows "read_number 10 3 255 False (dec_digits n @ rest) = Some (n, rest)"
proof -
  note step = to_digit_char read_digits_stop [OF assms(2)] char_of_digit_zero
  consider "n < 10" | "10 \<le> n" "n < 100" | "100 \<le> n" by linarith
  then show ?thesis
  proof cases
    case 1
    then show ?thesis by (simp add: read_number_def step)
  next
    case 2
    then have digits: "dec_digits n = [char_of (48 + n div 10), char_of (48 + n mod 10)]" by simp
    have "n div 10 < 10" "n div 10 \<noteq> 0" using 2 by auto
    then show ?thesis using 2 by (simp add: read_number_def digits step del: dec_digits.simps)
  next
    case 3
    have d: "n div 10 div 10 < 10" "n div 10 div 10 \<noteq> 0" "\<not> n div 10 < 10" using 3 assms(1) by auto
    then have digits: "dec_digits n = [char_of (48 + n div 10 div 10), char_of (48 + n div 10 mod 10),
        char_of (48 + n mod 10)]" using 3 by simp
    have "(n div 10 div 10 * 10 + n div 10 mod 10) * 10 + n mod 10 = n" by simp
    then show ?thesis using d assms(1)
      by (simp add: read_number_def digits step del: dec_digits.simps)
  qed
qed

lemma dot_not_digit: "\<not> starts_digit (CHR ''.'' # s)" "\<not> starts_digit []"
  by (simp_all add: starts_digit_def to_digit_def hex_value_def)

lemma parse_show_ipv4: "parse_ip_addr (show_ipv4 ip) = Some (V4 ip)"
proof (cases ip)
  case (Ipv4 a b c d)
  note oct = unat_octet [of a] unat_octet [of b] unat_octet [of c] unat_octet [of d]
  have "read_ipv4_addr (show_ipv4 ip) = Some (ip, [])"
    using oct read_number_dec_digits [of "unat d" "[]"]
    by (simp add: Ipv4 read_ipv4_addr_def read_octet_def read_separator_def read_number_dec_digits
        dot_not_digit del: dec_digits.simps)
  then show ?thesis by (simp add: parse_ip_addr_def)
qed

section \<open>Properties\<close>

text \<open>C18: \<open>is_public_ip\<close> implements a table of blocked address blocks. An IPv4 address is public if and
  only if it lies in none of the thirteen blocks of the table; an IPv6 address that carries an IPv4
  address (compatible, mapped, NAT64 or 6to4 form) is public if and only if the carried address is;
  any other IPv6 address is public if and only if it is outside unique-local, link-local, site-local,
  multicast and documentation space.\<close>

theorem is_public_ip_refines_block_table:
  "is_public_ip ip \<longleftrightarrow>
     (case (case ip of V4 v4 \<Rightarrow> Some v4 | V6 v6 \<Rightarrow> v6_embedded v6) of
        Some v4 \<Rightarrow> \<not> list_ex (in_block (v4_num v4)) blocked_v4
      | None \<Rightarrow> (case ip of V6 v6 \<Rightarrow> \<not> list_ex (in_block (v6_hi v6)) blocked_v6 | V4 _ \<Rightarrow> True))"
proof (cases ip)
  case (V4 v4)
  then show ?thesis by (simp add: is_public_ipv4_iff)
next
  case (V6 v6)
  then show ?thesis by (cases "v6_embedded v6") (simp_all add: is_public_ipv6_iff del: is_public_ip.simps)
qed

text \<open>The equation of \<open>dec_digits\<close> unfolds without end on a number that is not given.\<close>

declare dec_digits.simps [simp del]

end
