(* ===== verification/Outbound.thy ===== *)
theory Outbound
  imports Ip_Policy
begin

text \<open>
  The outbound HTTP client (\<^verbatim>\<open>src/src/outbound.rs\<close>): its modes and errors, the construction of
  the client, the resolver that only lets public addresses through, the URL policy and the bounded
  redirect loop.

  The \<^verbatim>\<open>url\<close> crate is a parameter \<open>url_api\<close> (parsing, joining and the accessors the sources
  call), the \<^verbatim>\<open>reqwest\<close> client a parameter \<open>send\<close> that maps its configuration, the requests sent
  before, a URL and a timeout in seconds to an error or a response. An error of \<^verbatim>\<open>reqwest\<close> is the
  chain of its causes. A response carries its status, its final URL, its \<open>Location\<close> header
  (\<open>Some None\<close> when the value is not a string), its declared length and the chunks of its body.
\<close>

section \<open>Definitions\<close>

datatype outbound_mode = Direct | TrustedProxy

definition outbound_mode_from_str :: "string \<Rightarrow> (string, outbound_mode) result" where
  "outbound_mode_from_str value =
     (if value = ''direct'' then Inr Direct
      else if value = ''trusted-proxy'' then Inr TrustedProxy
      else Inl ''outbound mode must be direct or trusted-proxy'')"

datatype cause = ResolvePolicyError string | OtherCause string

datatype outbound_error =
    OutPolicy string
  | OutRedirect string
  | OutRequest "cause list"
  | OutDns string
  | OutProxyRequired
  | OutInvalidCa string

record 'u url_api =
  url_parse :: "string \<Rightarrow> (string, 'u) result"
  url_join :: "'u \<Rightarrow> string \<Rightarrow> (string, 'u) result"
  url_scheme :: "'u \<Rightarrow> string"
  url_host_str :: "'u \<Rightarrow> string option"
  url_path :: "'u \<Rightarrow> string"
  url_set_path :: "'u \<Rightarrow> string \<Rightarrow> 'u"

record 'u response =
  resp_status :: nat
  resp_url :: 'u
  resp_location :: "string option option"
  resp_content_length :: "nat option"
  resp_chunks :: "(cause list, octet list) result list"

text \<open>What \<open>OutboundClient::build\<close> configures on the \<open>reqwest\<close> client builder.\<close>

record 'c client_config =
  cc_connect_timeout :: nat
  cc_follow_redirects :: bool
  cc_root_certificates :: "'c list"
  cc_no_proxy :: bool
  cc_public_only_resolver :: "bool option"

record 'c outbound_client =
  oc_mode :: outbound_mode
  oc_client :: "'c client_config"
  oc_allow_http :: bool
  oc_allow_non_public_ips :: bool

type_synonym ('u, 'c) sender =
  "'c client_config \<Rightarrow> 'u list \<Rightarrow> 'u \<Rightarrow> nat \<Rightarrow> (cause list, 'u response) result"

subsection \<open>Construction\<close>

definition proxy_configured :: "(string \<Rightarrow> string option) \<Rightarrow> bool" where
  "proxy_configured env_var =
     list_ex (\<lambda>name. case env_var name of None \<Rightarrow> False | Some value \<Rightarrow> str_trim value \<noteq> [])
       [''HTTP_PROXY'', ''HTTPS_PROXY'', ''http_proxy'', ''https_proxy'']"

definition build_client ::
  "('c client_config \<Rightarrow> string option) \<Rightarrow> outbound_mode \<Rightarrow> 'c list \<Rightarrow> bool \<Rightarrow> bool \<Rightarrow>
     (outbound_error, 'c outbound_client) result" where
  "build_client builder_error mode certificates allow_http allow_non_public_ips =
     (let config = \<lparr>cc_connect_timeout = 10, cc_follow_redirects = False,
            cc_root_certificates = certificates, cc_no_proxy = (mode = Direct),
            cc_public_only_resolver = (if mode = Direct then Some allow_non_public_ips else None)\<rparr>
      in case builder_error config of
           Some e \<Rightarrow> Inl (OutInvalidCa e)
         | None \<Rightarrow> Inr \<lparr>oc_mode = mode, oc_client = config, oc_allow_http = allow_http,
                        oc_allow_non_public_ips = allow_non_public_ips\<rparr>)"

text \<open>\<open>OutboundClient::new\<close>: the environment, the file reader and the PEM parser are parameters.\<close>

definition new_client ::
  "('c client_config \<Rightarrow> string option) \<Rightarrow> (string \<Rightarrow> string option) \<Rightarrow>
   (string \<Rightarrow> (string, octet list) result) \<Rightarrow> (octet list \<Rightarrow> (string, 'c list) result) \<Rightarrow>
   outbound_mode \<Rightarrow> string option \<Rightarrow> (outbound_error, 'c outbound_client) result" where
  "new_client builder_error env_var read_file from_pem_bundle mode ca_file =
     (if mode = TrustedProxy \<and> \<not> proxy_configured env_var then Inl OutProxyRequired
      else case ca_file of
        None \<Rightarrow> build_client builder_error mode [] False False
      | Some path \<Rightarrow>
          (case read_file path of
             Inl e \<Rightarrow> Inl (OutInvalidCa e)
           | Inr pem \<Rightarrow>
          (case from_pem_bundle pem of
             Inl e \<Rightarrow> Inl (OutInvalidCa e)
           | Inr certificates \<Rightarrow>
               (if certificates = []
                then Inl (OutInvalidCa ''CA bundle does not contain a PEM certificate'')
                else build_client builder_error mode certificates False False))))"

definition client_for_tests ::
  "('c client_config \<Rightarrow> string option) \<Rightarrow> (outbound_error, 'c outbound_client) result" where
  "client_for_tests builder_error = build_client builder_error Direct [] True True"

subsection \<open>The resolver of direct mode\<close>

text \<open>\<open>PublicOnlyResolver::resolve\<close> on the outcome of \<open>lookup_host\<close>.\<close>

definition resolve_public_only ::
  "bool \<Rightarrow> (string, ip_addr list) result \<Rightarrow> (cause, ip_addr list) result" where
  "resolve_public_only allow_non_public_ips lookup =
     (case lookup of
        Inl e \<Rightarrow> Inl (OtherCause e)
      | Inr addresses \<Rightarrow>
          (if addresses = [] then Inl (ResolvePolicyError ''URL host did not resolve'')
           else if \<not> allow_non_public_ips \<and> list_ex (\<lambda>a. \<not> is_public_ip a) addresses
           then Inl (ResolvePolicyError ''URL resolves to a non-public address'')
           else Inr addresses))"

text \<open>\<open>map_request_error\<close>: the first policy error in the chain of causes.\<close>

fun find_policy :: "cause list \<Rightarrow> string option" where
  "find_policy [] = None"
| "find_policy (ResolvePolicyError p # causes) = Some p"
| "find_policy (OtherCause _ # causes) = find_policy causes"

definition map_request_error :: "cause list \<Rightarrow> outbound_error" where
  "map_request_error error =
     (case find_policy error of Some p \<Rightarrow> OutPolicy p | None \<Rightarrow> OutRequest error)"

subsection \<open>URL policy and redirects\<close>

definition is_redirect :: "nat \<Rightarrow> bool" where
  "is_redirect status \<longleftrightarrow> status \<in> {301, 302, 303, 307, 308}"

definition literal_ip :: "string \<Rightarrow> ip_addr option" where
  "literal_ip host = parse_ip_addr (trim_end_matches CHR '']'' (trim_start_matches CHR ''['' host))"

definition validate_url :: "'u url_api \<Rightarrow> 'c outbound_client \<Rightarrow> 'u \<Rightarrow> (outbound_error, unit) result" where
  "validate_url api c url =
     (if url_scheme api url \<noteq> ''https'' \<and> \<not> (oc_allow_http c \<and> url_scheme api url = ''http'')
      then Inl (OutPolicy ''HTTPS is required'')
      else case url_host_str api url of
        None \<Rightarrow> Inl (OutPolicy ''URL host is required'')
      | Some host \<Rightarrow>
          (if oc_mode c = Direct \<and> \<not> oc_allow_non_public_ips c \<and>
              (case literal_ip host of None \<Rightarrow> False | Some ip \<Rightarrow> \<not> is_public_ip ip)
           then Inl (OutPolicy ''URL targets a non-public address'')
           else Inr ()))"

definition MAX_REDIRECTS :: nat where "MAX_REDIRECTS = 5"

text \<open>The loop of \<open>OutboundClient::get\<close>, with \<open>left = MAX_REDIRECTS - redirect_count\<close> and the log of
  the requests sent so far.\<close>

fun get_loop ::
  "'u url_api \<Rightarrow> ('u, 'c) sender \<Rightarrow> 'c outbound_client \<Rightarrow> nat \<Rightarrow> nat \<Rightarrow> 'u \<Rightarrow> 'u list \<Rightarrow>
     (outbound_error, 'u response) result \<times> 'u list" where
  "get_loop api send c timeout left url sent =
     (case validate_url api c url of
        Inl e \<Rightarrow> (Inl e, sent)
      | Inr _ \<Rightarrow>
     (case send (oc_client c) sent url timeout of
        Inl error \<Rightarrow> (Inl (map_request_error error), sent @ [url])
      | Inr response \<Rightarrow>
          (if \<not> is_redirect (resp_status response) then (Inr response, sent @ [url])
           else (case left of
             0 \<Rightarrow> (Inl (OutRedirect ''maximum redirect count exceeded''), sent @ [url])
           | Suc left' \<Rightarrow>
          (case resp_location response of
             None \<Rightarrow> (Inl (OutRedirect ''missing Location header''), sent @ [url])
           | Some None \<Rightarrow> (Inl (OutRedirect ''invalid Location header''), sent @ [url])
           | Some (Some location) \<Rightarrow>
          (case url_join api url location of
             Inl _ \<Rightarrow> (Inl (OutRedirect ''invalid Location URL''), sent @ [url])
           | Inr url' \<Rightarrow>
          (case validate_url api c url' of
             Inl e \<Rightarrow> (Inl e, sent @ [url])
           | Inr _ \<Rightarrow> get_loop api send c timeout left' url' (sent @ [url]))))))))"

definition outbound_get ::
  "'u url_api \<Rightarrow> ('u, 'c) sender \<Rightarrow> 'c outbound_client \<Rightarrow> 'u \<Rightarrow> nat \<Rightarrow> 'u list \<Rightarrow>
     (outbound_error, 'u response) result \<times> 'u list" where
  "outbound_get api send c url timeout sent = get_loop api send c timeout MAX_REDIRECTS url sent"

text \<open>\<open>Response::error_for_status\<close>: client and server errors become an error.\<close>

definition error_for_status :: "'u response \<Rightarrow> (cause list, 'u response) result" where
  "error_for_status r =
     (if 400 \<le> resp_status r \<and> resp_status r < 600 then Inl [OtherCause ''HTTP status error''] else Inr r)"

subsection \<open>A small instance of the parameters, for examples\<close>

text \<open>URLs as scheme, host and path; a server that redirects every host but the last to another.\<close>

definition toy_api :: "(string \<times> string \<times> string) url_api" where
  "toy_api = \<lparr>url_parse = (\<lambda>s. Inr (''https'', s, ''/'')), url_join = (\<lambda>u s. Inr (''https'', s, ''/'')),
     url_scheme = fst, url_host_str = (\<lambda>u. Some (fst (snd u))), url_path = (\<lambda>u. snd (snd u)),
     url_set_path = (\<lambda>u p. (fst u, fst (snd u), p))\<rparr>"

definition toy_send :: "(string \<times> string \<times> string, unit) sender" where
  "toy_send config sent u timeout =
     Inr \<lparr>resp_status = (if fst (snd u) = ''public.example'' then 302 else 200), resp_url = u,
          resp_location = Some (Some ''other.example''), resp_content_length = None, resp_chunks = []\<rparr>"

section \<open>Lemmas\<close>

declare get_loop.simps [simp del]

lemma validate_url_ok:
  "validate_url api c url = Inr u \<longleftrightarrow>
     (url_scheme api url = ''https'' \<or> oc_allow_http c \<and> url_scheme api url = ''http'') \<and>
     (\<exists>host. url_host_str api url = Some host \<and>
        (oc_mode c = Direct \<and> \<not> oc_allow_non_public_ips c \<longrightarrow>
           (\<forall>ip. literal_ip host = Some ip \<longrightarrow> is_public_ip ip)))"
  by (auto simp: validate_url_def split: option.splits)

lemma new_client_ok:
  assumes "new_client builder_error env_var read_file from_pem_bundle mode ca_file = Inr c"
  shows "oc_mode c = mode" "\<not> oc_allow_http c" "\<not> oc_allow_non_public_ips c"
    "\<not> cc_follow_redirects (oc_client c)" "cc_no_proxy (oc_client c) = (mode = Direct)"
    "cc_public_only_resolver (oc_client c) = (if mode = Direct then Some False else None)"
    "mode = TrustedProxy \<Longrightarrow> proxy_configured env_var"
  using assms
  by (auto simp: new_client_def build_client_def Let_def split: if_splits option.splits sum.splits)

text \<open>The loop sends a valid URL at each turn and stops: induction over the redirects left.\<close>

lemma get_loop_sent:
  "get_loop api send c timeout left url sent = (r, sent') \<Longrightarrow>
     \<exists>new. sent' = sent @ new \<and> length new \<le> Suc left \<and> list_all (\<lambda>u. validate_url api c u = Inr ()) new"
proof (induction left arbitrary: url sent)
  case 0
  then show ?case
    by (subst (asm) get_loop.simps) (auto split: sum.splits if_splits simp: list_all_iff)
next
  case (Suc left)
  show ?case
  proof (cases "\<exists>url'. validate_url api c url = Inr () \<and>
      get_loop api send c timeout left url' (sent @ [url]) = (r, sent')")
    case True
    then obtain url' where v: "validate_url api c url = Inr ()"
      and rec: "get_loop api send c timeout left url' (sent @ [url]) = (r, sent')" by blast
    from Suc.IH [OF rec] obtain new where "sent' = sent @ [url] @ new" "length new \<le> Suc left"
      "list_all (\<lambda>u. validate_url api c u = Inr ()) new" by auto
    with v show ?thesis by (intro exI [of _ "url # new"]) auto
  next
    case False
    then show ?thesis
      using Suc.prems
      by (subst (asm) get_loop.simps) (auto split: sum.splits if_splits option.splits simp: list_all_iff)
  qed
qed

lemma get_loop_response:
  "get_loop api send c timeout left url sent = (Inr response, sent') \<Longrightarrow>
     \<not> is_redirect (resp_status response) \<and>
     (\<exists>before final. sent' = before @ [final] \<and> send (oc_client c) before final timeout = Inr response)"
proof (induction left arbitrary: url sent)
  case 0
  then show ?case by (subst (asm) get_loop.simps) (auto split: sum.splits if_splits)
next
  case (Suc left)
  show ?case
  proof (cases "\<exists>url'. get_loop api send c timeout left url' (sent @ [url]) = (Inr response, sent')")
    case True
    then show ?thesis using Suc.IH by blast
  next
    case False
    with Suc.prems show ?thesis
      by (subst (asm) get_loop.simps) (auto split: sum.splits if_splits option.splits)
  qed
qed

lemma literal_ip_show: "literal_ip (show_ipv4 ip) = Some (V4 ip)"
proof -
  have digits: "c \<in> set (dec_digits n) \<Longrightarrow> 48 \<le> (of_char c :: nat) \<and> (of_char c :: nat) \<le> 57" for c n
  proof (induction n rule: dec_digits.induct)
    case (1 n)
    then show ?case by (cases "n < 10") (auto simp: dec_digits.simps [of n] simp del: dec_digits.simps)
  qed
  have dot: "(of_char CHR ''.'' :: nat) = 46" "(of_char CHR '']'' :: nat) = 93" "(of_char CHR ''['' :: nat) = 91"
    by simp_all
  have no: "c \<in> set (show_ipv4 ip) \<Longrightarrow> c \<noteq> CHR ''['' \<and> c \<noteq> CHR '']''" for c
    using digits by (cases ip) (fastforce simp del: dec_digits.simps)
  have "trim_start_matches CHR ''['' (show_ipv4 ip) = show_ipv4 ip"
    using no by (cases "show_ipv4 ip") (auto simp: trim_start_matches_def)
  moreover have "trim_end_matches CHR '']'' (show_ipv4 ip) = show_ipv4 ip"
    using no by (cases "rev (show_ipv4 ip)") (auto simp: trim_end_matches_def)
  ultimately show ?thesis by (simp add: literal_ip_def parse_show_ipv4)
qed

section \<open>Properties\<close>

text \<open>C7: every request of a production client obeys the policy. For any client that
  \<open>OutboundClient::new\<close> builds, any starting URL and any behaviour of the servers, a \<open>get\<close> sends at
  most six requests; each of them, the redirected ones included, goes to an HTTPS URL with a host,
  and in direct mode never to the literal of a non-public address; and a response it returns is one
  the last of these requests received and is not a redirect.\<close>

theorem outbound_get_obeys_policy:
  assumes "new_client builder_error env_var read_file from_pem_bundle mode ca_file = Inr c"
    and "outbound_get api send c url timeout sent = (r, sent')"
  shows "\<exists>new. sent' = sent @ new \<and> length new \<le> 6 \<and>
    list_all (\<lambda>u. url_scheme api u = ''https'' \<and> (\<exists>host. url_host_str api u = Some host \<and>
        (mode = Direct \<longrightarrow> (\<forall>ip. literal_ip host = Some ip \<longrightarrow> is_public_ip ip)))) new \<and>
    (\<forall>response. r = Inr response \<longrightarrow> \<not> is_redirect (resp_status response) \<and>
       (\<exists>before final. sent' = before @ [final] \<and> send (oc_client c) before final timeout = Inr response))"
proof -
  note c = new_client_ok [OF assms(1)]
  from get_loop_sent [OF assms(2) [unfolded outbound_get_def]] obtain new
    where new: "sent' = sent @ new" "length new \<le> Suc MAX_REDIRECTS"
      "list_all (\<lambda>u. validate_url api c u = Inr ()) new" by blast
  have "list_all (\<lambda>u. url_scheme api u = ''https'' \<and> (\<exists>host. url_host_str api u = Some host \<and>
      (mode = Direct \<longrightarrow> (\<forall>ip. literal_ip host = Some ip \<longrightarrow> is_public_ip ip)))) new"
    using new(3) by (rule list.pred_mono_strong) (use c in \<open>auto simp: validate_url_ok\<close>)
  moreover have "length new \<le> 6" using new(2) by (simp add: MAX_REDIRECTS_def)
  moreover have "\<not> is_redirect (resp_status response) \<and> (\<exists>before final. sent' = before @ [final] \<and>
      send (oc_client c) before final timeout = Inr response)" if "r = Inr response" for response
    using get_loop_response assms(2) that by (fastforce simp: outbound_get_def)
  ultimately show ?thesis using new(1) by blast
qed

text \<open>C30: in direct mode a production client refuses every URL whose host is a dotted quad inside a
  blocked block, without sending a request; and the installed resolver passes on the addresses of a
  name only if there is at least one and none of them is non-public, so one private address among
  the answers of a DNS server is enough to refuse the name.\<close>

theorem direct_mode_reaches_only_public_addresses:
  assumes "new_client builder_error env_var read_file from_pem_bundle Direct ca_file = Inr c"
  shows "(url_host_str api url = Some (show_ipv4 ip) \<and> list_ex (in_block (v4_num ip)) blocked_v4 \<longrightarrow>
      (\<exists>e. outbound_get api send c url timeout sent = (Inl (OutPolicy e), sent))) \<and>
    cc_no_proxy (oc_client c) \<and>
    (\<exists>allow. cc_public_only_resolver (oc_client c) = Some allow \<and>
      (\<forall>addresses. resolve_public_only allow lookup = Inr addresses \<longleftrightarrow>
         lookup = Inr addresses \<and> addresses \<noteq> [] \<and> list_all is_public_ip addresses))"
proof (intro conjI)
  note c = new_client_ok [OF assms]
  show "url_host_str api url = Some (show_ipv4 ip) \<and> list_ex (in_block (v4_num ip)) blocked_v4 \<longrightarrow>
      (\<exists>e. outbound_get api send c url timeout sent = (Inl (OutPolicy e), sent))"
    using c by (auto simp: outbound_get_def get_loop.simps [of _ _ _ _ MAX_REDIRECTS] validate_url_def
        literal_ip_show is_public_ipv4_iff)
  show "cc_no_proxy (oc_client c)" using c by simp
  show "\<exists>allow. cc_public_only_resolver (oc_client c) = Some allow \<and>
      (\<forall>addresses. resolve_public_only allow lookup = Inr addresses \<longleftrightarrow>
         lookup = Inr addresses \<and> addresses \<noteq> [] \<and> list_all is_public_ip addresses)"
    using c by (auto simp: resolve_public_only_def list_all_iff list_ex_iff split: sum.splits if_splits)
qed

subsection \<open>Witnesses\<close>

theorem outbound_get_obeys_policy_witness:
  "\<exists>c. new_client (\<lambda>_. None) (\<lambda>_. None) (\<lambda>_. Inl []) (\<lambda>_. Inr [()]) Direct None = Inr c \<and>
     (\<exists>new. snd (outbound_get toy_api toy_send c (''https'', ''public.example'', ''/'') 30 []) = new \<and>
        length new \<le> 6 \<and> list_all (\<lambda>u. url_scheme toy_api u = ''https'') new)"
proof -
  obtain c :: "unit outbound_client" where
    c: "new_client (\<lambda>_. None) (\<lambda>_. None) (\<lambda>_. Inl []) (\<lambda>_. Inr [()]) Direct None = Inr c"
    by (simp add: new_client_def build_client_def)
  obtain r sent' where get: "outbound_get toy_api toy_send c (''https'', ''public.example'', ''/'') 30 [] = (r, sent')"
    by fastforce
  obtain new where "sent' = [] @ new" "length new \<le> 6"
    "list_all (\<lambda>u. url_scheme toy_api u = ''https'' \<and> (\<exists>host. url_host_str toy_api u = Some host \<and>
        (Direct = Direct \<longrightarrow> (\<forall>ip. literal_ip host = Some ip \<longrightarrow> is_public_ip ip)))) new"
    using outbound_get_obeys_policy [OF c get] by blast
  then show ?thesis using c get by (auto simp: list_all_iff)
qed

theorem direct_mode_reaches_only_public_addresses_witness:
  "\<exists>c e. new_client (\<lambda>_. None) (\<lambda>_. None) (\<lambda>_. Inl []) (\<lambda>_. Inr [()]) Direct None = Inr c \<and>
     outbound_get toy_api toy_send c (''https'', show_ipv4 (Ipv4 10 0 0 1), ''/'') 30 [] = (Inl (OutPolicy e), [])"
proof -
  define ip where "ip = Ipv4 10 0 0 1"
  obtain c :: "unit outbound_client" where
    c: "new_client (\<lambda>_. None) (\<lambda>_. None) (\<lambda>_. Inl []) (\<lambda>_. Inr [()]) Direct None = Inr c"
    by (simp add: new_client_def build_client_def)
  have host: "url_host_str toy_api (''https'', show_ipv4 ip, ''/'') = Some (show_ipv4 ip)"
    by (simp add: toy_api_def)
  have "\<not> is_public_ipv4 ip" by (simp add: ip_def)
  then have blocked: "list_ex (in_block (v4_num ip)) blocked_v4" by (simp add: is_public_ipv4_iff)
  obtain e where "outbound_get toy_api toy_send c (''https'', show_ipv4 ip, ''/'') 30 [] = (Inl (OutPolicy e), [])"
    using direct_mode_reaches_only_public_addresses
      [OF c, of toy_api "(''https'', show_ipv4 ip, ''/'')" ip toy_send 30 "[]", THEN conjunct1, rule_format,
        OF conjI [OF host blocked]] ..
  with c show ?thesis unfolding ip_def by blast
qed

end
