(* ===== verification/Effects.thy ===== *)
theory Effects
  imports Contracts Outbound
begin

text \<open>
  The effects of the asynchronous code: operations that read and change a state and may fail, the
  world they act on (file system, network, clocks) and Hoare triples to reason about them.

  An operation maps a state to a result and the state after it; \<open>op_bind\<close> is the \<open>?\<close> operator. What
  the process does not control comes from an environment: it fixes, for each tick of the world, the
  value of the clocks and whether an I/O operation fails, so a theorem that holds for every
  environment holds for every timing and every failure.
\<close>

section \<open>Operations\<close>

type_synonym ('s, 'e, 'a) oper = "'s \<Rightarrow> ('e, 'a) result \<times> 's"

definition op_ok :: "'a \<Rightarrow> ('s, 'e, 'a) oper" where
  "op_ok a = (\<lambda>s. (Inr a, s))"

definition op_err :: "'e \<Rightarrow> ('s, 'e, 'a) oper" where
  "op_err e = (\<lambda>s. (Inl e, s))"

definition op_result :: "('e, 'a) result \<Rightarrow> ('s, 'e, 'a) oper" where
  "op_result r = (\<lambda>s. (r, s))"

definition op_bind :: "('s, 'e, 'a) oper \<Rightarrow> ('a \<Rightarrow> ('s, 'e, 'b) oper) \<Rightarrow> ('s, 'e, 'b) oper" where
  "op_bind f g = (\<lambda>s. case f s of (Inl e, s') \<Rightarrow> (Inl e, s') | (Inr a, s') \<Rightarrow> g a s')"

definition op_map_err :: "('e \<Rightarrow> 'f) \<Rightarrow> ('s, 'e, 'a) oper \<Rightarrow> ('s, 'f, 'a) oper" where
  "op_map_err h f = (\<lambda>s. case f s of (r, s') \<Rightarrow> (map_err h r, s'))"

text \<open>A \<open>match\<close> on the outcome of an operation.\<close>

definition op_catch :: "('s, 'e, 'a) oper \<Rightarrow> (('e, 'a) result \<Rightarrow> ('s, 'f, 'b) oper) \<Rightarrow> ('s, 'f, 'b) oper" where
  "op_catch f g = (\<lambda>s. case f s of (r, s') \<Rightarrow> g r s')"

definition op_get :: "('s \<Rightarrow> 'a) \<Rightarrow> ('s, 'e, 'a) oper" where
  "op_get f = (\<lambda>s. (Inr (f s), s))"

definition op_modify :: "('s \<Rightarrow> 's) \<Rightarrow> ('s, 'e, unit) oper" where
  "op_modify f = (\<lambda>s. (Inr (), f s))"

abbreviation op_seq :: "('s, 'e, unit) oper \<Rightarrow> ('s, 'e, 'b) oper \<Rightarrow> ('s, 'e, 'b) oper" where
  "op_seq f g \<equiv> op_bind f (\<lambda>_. g)"

named_theorems op_defs \<open>definitions of the operation combinators\<close>

lemmas op_core_defs [op_defs] =
  op_ok_def op_err_def op_result_def op_bind_def op_map_err_def op_catch_def op_get_def op_modify_def

lemma op_run:
  "f s = (Inr a, s1) \<Longrightarrow> op_bind f g s = g a s1"
  "f s = (Inl e, s1) \<Longrightarrow> op_bind f g s = (Inl e, s1)"
  "f s = (r, s1) \<Longrightarrow> op_map_err h f s = (map_err h r, s1)"
  "f s = (r, s1) \<Longrightarrow> op_catch f k s = k r s1"
  by (simp_all add: op_defs)

lemma op_run_simps [simp]:
  "op_bind (op_ok a) g = g a" "op_bind (op_err e) g = op_err e" "op_bind (op_result (Inr a)) g = g a"
  "op_bind (op_result (Inl e)) g = op_err e"
  by (simp_all add: op_defs)

subsection \<open>Hoare triples\<close>

text \<open>From a state satisfying \<open>P\<close>, the operation ends in \<open>Q a\<close> with the result \<open>a\<close> or in \<open>R e\<close> with the
  error \<open>e\<close>. Operations are total functions, so every run ends.\<close>

definition triple :: "('s \<Rightarrow> bool) \<Rightarrow> ('s, 'e, 'a) oper \<Rightarrow> ('a \<Rightarrow> 's \<Rightarrow> bool) \<Rightarrow> ('e \<Rightarrow> 's \<Rightarrow> bool) \<Rightarrow> bool" where
  "triple P f Q R \<longleftrightarrow>
     (\<forall>s. P s \<longrightarrow> (case f s of (Inr a, s') \<Rightarrow> Q a s' | (Inl e, s') \<Rightarrow> R e s'))"

named_theorems triple_rules \<open>Hoare rules of the combinators\<close>

lemma triple_ok [triple_rules]: "triple (Q a) (op_ok a) Q R"
  by (simp add: triple_def op_ok_def)

lemma triple_err [triple_rules]: "triple (R e) (op_err e) Q R"
  by (simp add: triple_def op_err_def)

lemma triple_result [triple_rules]: "triple (\<lambda>s. case r of Inr a \<Rightarrow> Q a s | Inl e \<Rightarrow> R e s) (op_result r) Q R"
  by (simp add: triple_def op_result_def split: sum.splits)

lemma triple_get [triple_rules]: "triple (\<lambda>s. Q (f s) s) (op_get f) Q R"
  by (simp add: triple_def op_get_def)

lemma triple_modify [triple_rules]: "triple (\<lambda>s. Q () (f s)) (op_modify f) Q R"
  by (simp add: triple_def op_modify_def)

lemma triple_bind:
  "triple P f Q' R \<Longrightarrow> (\<And>a. triple (Q' a) (g a) Q R) \<Longrightarrow> triple P (op_bind f g) Q R"
  by (fastforce simp: triple_def op_bind_def split: prod.splits sum.splits)

lemma triple_iff:
  "triple P f Q R \<longleftrightarrow>
     (\<forall>s r s'. P s \<longrightarrow> f s = (r, s') \<longrightarrow> (case r of Inr a \<Rightarrow> Q a s' | Inl e \<Rightarrow> R e s'))"
  by (auto simp: triple_def split: prod.splits sum.splits)

lemma triple_map_err:
  assumes "triple P f Q (\<lambda>e. R (h e))"
  shows "triple P (op_map_err h f) Q R"
  unfolding triple_iff
proof (intro allI impI)
  fix s r s' assume "P s" and run: "op_map_err h f s = (r, s')"
  then obtain r0 where "f s = (r0, s')" "r = map_err h r0" by (auto simp: op_map_err_def split: prod.splits)
  with assms \<open>P s\<close> show "case r of Inr a \<Rightarrow> Q a s' | Inl e \<Rightarrow> R e s'"
    unfolding triple_iff by (cases r0) (fastforce simp: map_err_simps)+
qed

lemma triple_catch:
  assumes "triple P f (\<lambda>a. Q' (Inr a)) (\<lambda>e. Q' (Inl e))" "\<And>r. triple (Q' r) (g r) Q R"
  shows "triple P (op_catch f g) Q R"
  unfolding triple_iff
proof (intro allI impI)
  fix s r s' assume "P s" and run: "op_catch f g s = (r, s')"
  then obtain r0 s0 where "f s = (r0, s0)" "g r0 s0 = (r, s')" by (auto simp: op_catch_def split: prod.splits)
  moreover from this assms(1) \<open>P s\<close> have "Q' r0 s0" unfolding triple_iff by (cases r0) fastforce+
  ultimately show "case r of Inr a \<Rightarrow> Q a s' | Inl e \<Rightarrow> R e s'"
    using assms(2) unfolding triple_iff by blast
qed

lemma triple_pre: "triple P f Q R \<Longrightarrow> (\<And>s. P' s \<Longrightarrow> P s) \<Longrightarrow> triple P' f Q R"
  by (simp add: triple_def)

lemma triple_weaken:
  "triple P f Q R \<Longrightarrow> (\<And>s. P' s \<Longrightarrow> P s) \<Longrightarrow> (\<And>a s. Q a s \<Longrightarrow> Q' a s) \<Longrightarrow> (\<And>e s. R e s \<Longrightarrow> R' e s) \<Longrightarrow>
     triple P' f Q' R'"
  by (fastforce simp: triple_def split: prod.splits sum.splits)

lemma triple_case_option:
  "triple P none Q R \<Longrightarrow> (\<And>x. triple P' (some x) Q R) \<Longrightarrow> triple (\<lambda>s. case opt of None \<Rightarrow> P s | Some x \<Rightarrow> P' s)
     (case opt of None \<Rightarrow> none | Some x \<Rightarrow> some x) Q R"
  by (cases opt) auto

lemma triple_run: "triple P f Q R \<Longrightarrow> P s \<Longrightarrow> f s = (r, s') \<Longrightarrow> (case r of Inr a \<Rightarrow> Q a s' | Inl e \<Rightarrow> R e s')"
  by (fastforce simp: triple_def split: sum.splits)

text \<open>An assertion that holds before and after, whatever the outcome.\<close>

abbreviation keeps :: "('s \<Rightarrow> bool) \<Rightarrow> ('s, 'e, 'a) oper \<Rightarrow> bool" where
  "keeps I f \<equiv> triple I f (\<lambda>_. I) (\<lambda>_. I)"

named_theorems keeps_rules \<open>operations that keep an assertion\<close>

lemma keeps_ok [keeps_rules]: "keeps I (op_ok a)"
  and keeps_err [keeps_rules]: "keeps I (op_err e)"
  and keeps_result [keeps_rules]: "keeps I (op_result r)"
  and keeps_get [keeps_rules]: "keeps I (op_get f)"
  by (auto simp: triple_def op_ok_def op_err_def op_result_def op_get_def split: sum.splits)

lemma keeps_bind [keeps_rules]: "keeps I f \<Longrightarrow> (\<And>a. keeps I (g a)) \<Longrightarrow> keeps I (op_bind f g)"
  by (rule triple_bind)

lemma keeps_map_err [keeps_rules]: "keeps I f \<Longrightarrow> keeps I (op_map_err h f)"
  by (rule triple_map_err)

lemma keeps_catch [keeps_rules]: "keeps I f \<Longrightarrow> (\<And>r. keeps I (g r)) \<Longrightarrow> keeps I (op_catch f g)"
  by (rule triple_catch)

lemma keeps_modify [keeps_rules]: "(\<And>s. I s \<Longrightarrow> I (f s)) \<Longrightarrow> keeps I (op_modify f)"
  by (simp add: triple_def op_modify_def)

lemma keeps_run: "keeps I f \<Longrightarrow> I s \<Longrightarrow> f s = (r, s') \<Longrightarrow> I s'"
  by (drule (2) triple_run) (simp split: sum.splits)

subsection \<open>Relations between the states before and after\<close>

text \<open>An operation respects a relation if the states before and after each run are related. For a
  preorder this is compositional.\<close>

definition op_respects :: "('s \<Rightarrow> 's \<Rightarrow> bool) \<Rightarrow> ('s, 'e, 'a) oper \<Rightarrow> bool" where
  "op_respects R f \<longleftrightarrow> (\<forall>s r s'. f s = (r, s') \<longrightarrow> R s s')"

lemma respectsD: "op_respects R f \<Longrightarrow> f s = (r, s') \<Longrightarrow> R s s'"
  by (auto simp: op_respects_def)

locale state_preorder =
  fixes R :: "'s \<Rightarrow> 's \<Rightarrow> bool"
  assumes refl: "R s s"
    and trans: "R s t \<Longrightarrow> R t u \<Longrightarrow> R s u"
begin

lemma respects_pure:
  "op_respects R (op_ok a)" "op_respects R (op_err e)" "op_respects R (op_result r)" "op_respects R (op_get g)"
  using refl by (auto simp: op_respects_def op_ok_def op_err_def op_result_def op_get_def)

lemma respects_bind: "op_respects R f \<Longrightarrow> (\<And>a. op_respects R (g a)) \<Longrightarrow> op_respects R (op_bind f g)"
  unfolding op_respects_def op_bind_def by (fastforce split: prod.splits sum.splits intro: trans)

lemma respects_catch: "op_respects R f \<Longrightarrow> (\<And>r. op_respects R (g r)) \<Longrightarrow> op_respects R (op_catch f g)"
  unfolding op_respects_def op_catch_def by (fastforce split: prod.splits intro: trans)

lemma respects_map_err: "op_respects R f \<Longrightarrow> op_respects R (op_map_err h f)"
  unfolding op_respects_def op_map_err_def by (fastforce split: prod.splits)

lemma respects_modify: "(\<And>s. R s (f s)) \<Longrightarrow> op_respects R (op_modify f)"
  by (simp add: op_respects_def op_modify_def)

lemma respects_cases:
  "op_respects R f \<Longrightarrow> op_respects R g \<Longrightarrow> op_respects R (if b then f else g)"
  "op_respects R f \<Longrightarrow> (\<And>x. op_respects R (h x)) \<Longrightarrow> op_respects R (case opt of None \<Rightarrow> f | Some x \<Rightarrow> h x)"
  "(\<And>y. op_respects R (k y)) \<Longrightarrow> (\<And>x. op_respects R (h x)) \<Longrightarrow> op_respects R (case res of Inl y \<Rightarrow> k y | Inr x \<Rightarrow> h x)"
  by (auto split: option.splits sum.splits)

lemmas respects_rules = respects_pure respects_bind respects_catch respects_map_err respects_cases

end

section \<open>The world\<close>

datatype io_error = IoNotFound | IoOther string

record stamp =
  st_modified :: "nat option"
  st_dev :: nat
  st_ino :: nat

datatype node = File "octet list" stamp | Directory | Symlink string | Special

type_synonym file_system = "string \<Rightarrow> node option"

record 'u world =
  w_tick :: nat
  w_fs :: file_system
  w_sent :: "'u list"
  w_storage_sequence :: nat
  w_metadata_sequence :: nat

text \<open>The environment: \<open>Instant::now\<close> in nanoseconds and \<open>now_epoch\<close> in seconds at a tick, the failure of
  the I/O operation at a tick, the metadata the system gives to a file written at a tick, the process
  id, the URL crate and the network.\<close>

record ('u, 'c) env =
  env_instant :: "nat \<Rightarrow> nat"
  env_epoch :: "nat \<Rightarrow> nat"
  env_io :: "nat \<Rightarrow> io_error option"
  env_stamp :: "nat \<Rightarrow> stamp"
  env_pid :: nat
  env_url :: "'u url_api"
  env_send :: "('u, 'c) sender"

definition second :: nat where "second = 1000000000"

definition instant_now :: "('u, 'c, 'y) env_scheme \<Rightarrow> (('u, 'z) world_scheme, 'e, nat) oper" where
  "instant_now env = (\<lambda>s. (Inr (env_instant env (w_tick s)), s\<lparr>w_tick := w_tick s + 1\<rparr>))"

definition now_epoch :: "('u, 'c, 'y) env_scheme \<Rightarrow> (('u, 'z) world_scheme, 'e, nat) oper" where
  "now_epoch env = (\<lambda>s. (Inr (env_epoch env (w_tick s)), s\<lparr>w_tick := w_tick s + 1\<rparr>))"

definition http_get ::
  "('u, 'c, 'y) env_scheme \<Rightarrow> 'c outbound_client \<Rightarrow> 'u \<Rightarrow> nat \<Rightarrow> (('u, 'z) world_scheme, outbound_error, 'u response) oper" where
  "http_get env client url timeout =
     (\<lambda>s. case outbound_get (env_url env) (env_send env) client url timeout (w_sent s) of
            (r, sent) \<Rightarrow> (r, s\<lparr>w_sent := sent\<rparr>))"

subsection \<open>Paths\<close>

text \<open>\<open>Path::join\<close> and \<open>Path::parent\<close> on Unix, the latter for a path that does not end in a slash.\<close>

definition path_join :: "string \<Rightarrow> string \<Rightarrow> string" where
  "path_join p s =
     (if s \<noteq> [] \<and> hd s = CHR ''/'' then s
      else if p = [] \<or> last p = CHR ''/'' then p @ s
      else p @ CHR ''/'' # s)"

definition path_parent :: "string \<Rightarrow> string" where
  "path_parent p = (case rsplit_once CHR ''/'' p of Some (parent, name) \<Rightarrow> parent | None \<Rightarrow> [])"

subsection \<open>File operations\<close>

text \<open>Each takes a tick and fails when the environment says so.\<close>

definition io_op ::
  "('u, 'c, 'y) env_scheme \<Rightarrow> (nat \<Rightarrow> file_system \<Rightarrow> (io_error, 'a \<times> file_system) result) \<Rightarrow>
     (('u, 'z) world_scheme, io_error, 'a) oper" where
  "io_op env act =
     (\<lambda>s. case env_io env (w_tick s) of
            Some e \<Rightarrow> (Inl e, s\<lparr>w_tick := w_tick s + 1\<rparr>)
          | None \<Rightarrow>
         (case act (w_tick s) (w_fs s) of
            Inl e \<Rightarrow> (Inl e, s\<lparr>w_tick := w_tick s + 1\<rparr>)
          | Inr (a, fs) \<Rightarrow> (Inr a, s\<lparr>w_tick := w_tick s + 1, w_fs := fs\<rparr>)))"

text \<open>Opening a path follows symbolic links, at most forty of them.\<close>

fun fs_resolve :: "nat \<Rightarrow> file_system \<Rightarrow> string \<Rightarrow> (io_error, string) result" where
  "fs_resolve fuel fs p =
     (case fs p of
        None \<Rightarrow> Inl IoNotFound
      | Some (Symlink target) \<Rightarrow>
          (case fuel of 0 \<Rightarrow> Inl (IoOther ''too many levels of symbolic links'')
           | Suc fuel' \<Rightarrow> fs_resolve fuel' fs (path_join (path_parent p) target))
      | Some _ \<Rightarrow> Inr p)"

definition symlink_metadata :: "('u, 'c, 'y) env_scheme \<Rightarrow> string \<Rightarrow> (('u, 'z) world_scheme, io_error, node) oper" where
  "symlink_metadata env p =
     io_op env (\<lambda>_ fs. case fs p of None \<Rightarrow> Inl IoNotFound | Some n \<Rightarrow> Inr (n, fs))"

definition open_file :: "('u, 'c, 'y) env_scheme \<Rightarrow> string \<Rightarrow> (('u, 'z) world_scheme, io_error, node) oper" where
  "open_file env p =
     io_op env (\<lambda>_ fs. case fs_resolve 40 fs p of Inl e \<Rightarrow> Inl e | Inr q \<Rightarrow> Inr (the (fs q), fs))"

text \<open>A step of an open file that leaves the file system as it is: \<open>metadata\<close>, \<open>read\<close>, \<open>sync_all\<close>.\<close>

definition file_step :: "('u, 'c, 'y) env_scheme \<Rightarrow> (('u, 'z) world_scheme, io_error, unit) oper" where
  "file_step env = io_op env (\<lambda>_ fs. Inr ((), fs))"

definition read_file :: "('u, 'c, 'y) env_scheme \<Rightarrow> string \<Rightarrow> (('u, 'z) world_scheme, io_error, octet list) oper" where
  "read_file env p =
     io_op env (\<lambda>_ fs. case fs_resolve 40 fs p of
        Inl e \<Rightarrow> Inl e
      | Inr q \<Rightarrow> (case fs q of Some (File bytes _) \<Rightarrow> Inr (bytes, fs) | _ \<Rightarrow> Inl (IoOther ''not a file'')))"

text \<open>\<open>create_dir_all\<close>: every prefix of the path that ends before a slash becomes a directory.\<close>

definition dir_prefixes :: "string \<Rightarrow> string list" where
  "dir_prefixes p = filter (\<lambda>q. q \<noteq> []) (map (\<lambda>i. take i p) (filter (\<lambda>i. i = length p \<or> p ! i = CHR ''/'') [0 ..< Suc (length p)]))"

definition create_dir_all :: "('u, 'c, 'y) env_scheme \<Rightarrow> string \<Rightarrow> (('u, 'z) world_scheme, io_error, unit) oper" where
  "create_dir_all env p =
     io_op env (\<lambda>_ fs.
       if list_ex (\<lambda>q. fs q \<noteq> None \<and> (case fs_resolve 40 fs q of Inr q' \<Rightarrow> fs q' \<noteq> Some Directory | Inl _ \<Rightarrow> True))
            (dir_prefixes p)
       then Inl (IoOther ''not a directory'')
       else Inr ((), \<lambda>q. if fs q = None \<and> q \<in> set (dir_prefixes p) then Some Directory else fs q))"

definition create_new_file :: "('u, 'c, 'y) env_scheme \<Rightarrow> string \<Rightarrow> (('u, 'z) world_scheme, io_error, unit) oper" where
  "create_new_file env p =
     io_op env (\<lambda>tick fs. if fs p = None then Inr ((), fs(p \<mapsto> File [] (env_stamp env tick))) else Inl (IoOther ''file exists''))"

text \<open>\<open>write_all\<close> on the file created at \<open>p\<close>.\<close>

definition append_file :: "('u, 'c, 'y) env_scheme \<Rightarrow> string \<Rightarrow> octet list \<Rightarrow> (('u, 'z) world_scheme, io_error, unit) oper" where
  "append_file env p bytes =
     io_op env (\<lambda>tick fs. case fs p of
        Some (File old _) \<Rightarrow> Inr ((), fs(p \<mapsto> File (old @ bytes) (env_stamp env tick)))
      | _ \<Rightarrow> Inl (IoOther ''not a file''))"

definition rename_file :: "('u, 'c, 'y) env_scheme \<Rightarrow> string \<Rightarrow> string \<Rightarrow> (('u, 'z) world_scheme, io_error, unit) oper" where
  "rename_file env p q =
     io_op env (\<lambda>_ fs. case fs p of
        None \<Rightarrow> Inl IoNotFound
      | Some n \<Rightarrow> if fs q = Some Directory then Inl (IoOther ''is a directory'')
                  else Inr ((), (fs(p := None))(q \<mapsto> n)))"

definition remove_file :: "('u, 'c, 'y) env_scheme \<Rightarrow> string \<Rightarrow> (('u, 'z) world_scheme, io_error, unit) oper" where
  "remove_file env p =
     io_op env (\<lambda>_ fs. case fs p of
        None \<Rightarrow> Inl IoNotFound
      | Some Directory \<Rightarrow> Inl (IoOther ''is a directory'')
      | Some _ \<Rightarrow> Inr ((), fs(p := None)))"

text \<open>\<open>fetch_add(1)\<close> on an \<open>AtomicU64\<close> wraps around.\<close>

definition wrapping_inc64 :: "nat \<Rightarrow> nat" where
  "wrapping_inc64 n = (n + 1) mod 2 ^ 64"

section \<open>Lemmas\<close>

declare fs_resolve.simps [simp del]

text \<open>The world operations keep what does not depend on the fields they change.\<close>

lemma keeps_tick_op:
  assumes "\<And>s n. I s \<Longrightarrow> I (s\<lparr>w_tick := n\<rparr>)"
  shows "keeps I (instant_now env)" "keeps I (now_epoch env)"
  using assms by (auto simp: triple_def instant_now_def now_epoch_def)

lemma keeps_io_op:
  assumes "\<And>s n. I s \<Longrightarrow> I (s\<lparr>w_tick := n\<rparr>)"
    and "\<And>s a fs. I s \<Longrightarrow> act (w_tick s) (w_fs s) = Inr (a, fs) \<Longrightarrow> I (s\<lparr>w_tick := w_tick s + 1, w_fs := fs\<rparr>)"
  shows "keeps I (io_op env act)"
  using assms by (auto simp: triple_iff io_op_def split: option.splits sum.splits prod.splits)

lemma io_op_frame:
  "io_op env act s = (r, s') \<Longrightarrow> w_sent s' = w_sent s \<and> w_metadata_sequence s' = w_metadata_sequence s \<and>
     w_storage_sequence s' = w_storage_sequence s \<and> world.more s' = world.more s"
  by (auto simp: io_op_def split: option.splits sum.splits prod.splits)

subsection \<open>Requests\<close>

text \<open>The operation sends at most \<open>n\<close> requests, all of them to URLs that the client's policy allows.\<close>

definition requests_within ::
  "('u, 'c, 'y) env_scheme \<Rightarrow> 'c outbound_client \<Rightarrow> nat \<Rightarrow> (('u, 'z) world_scheme, 'e, 'a) oper \<Rightarrow> bool" where
  "requests_within env client n f \<longleftrightarrow>
     (\<forall>s r s'. f s = (r, s') \<longrightarrow>
        (\<exists>new. w_sent s' = w_sent s @ new \<and> length new \<le> n \<and>
           list_all (\<lambda>u. validate_url (env_url env) client u = Inr ()) new))"

named_theorems request_rules \<open>bounds on the requests of an operation\<close>

lemma requests_same_log:
  "(\<And>s r s'. f s = (r, s') \<Longrightarrow> w_sent s' = w_sent s) \<Longrightarrow> requests_within env client 0 f"
  by (fastforce simp: requests_within_def)

lemma requests_none [request_rules]:
  "requests_within env client 0 (op_ok a)" "requests_within env client 0 (op_err e)"
  "requests_within env client 0 (op_result r)" "requests_within env client 0 (op_get f)"
  "requests_within env client 0 (instant_now env')" "requests_within env client 0 (now_epoch env')"
  "requests_within env client 0 (io_op env' act)"
  by (auto intro!: requests_same_log dest: io_op_frame
      simp: op_ok_def op_err_def op_result_def op_get_def instant_now_def now_epoch_def)

lemma requests_modify [request_rules]:
  "(\<And>s. w_sent (f s) = w_sent s) \<Longrightarrow> requests_within env client 0 (op_modify f)"
  by (auto intro!: requests_same_log simp: op_modify_def)

lemma requests_get [request_rules]: "requests_within env client (Suc MAX_REDIRECTS) (http_get env client url timeout)"
  unfolding requests_within_def http_get_def
  by (auto split: prod.splits simp: outbound_get_def dest!: get_loop_sent)

lemma requests_mono: "requests_within env client n f \<Longrightarrow> n \<le> m \<Longrightarrow> requests_within env client m f"
  unfolding requests_within_def by (meson le_trans)

lemma requests_bind:
  assumes "requests_within env client n f" "\<And>a. requests_within env client m (g a)"
  shows "requests_within env client (n + m) (op_bind f g)"
  unfolding requests_within_def
proof (intro allI impI)
  fix s r s' assume run: "op_bind f g s = (r, s')"
  obtain r0 s0 where f: "f s = (r0, s0)" by fastforce
  from assms(1) f obtain new where new: "w_sent s0 = w_sent s @ new" "length new \<le> n"
    "list_all (\<lambda>u. validate_url (env_url env) client u = Inr ()) new"
    unfolding requests_within_def by blast
  show "\<exists>new. w_sent s' = w_sent s @ new \<and> length new \<le> n + m \<and>
      list_all (\<lambda>u. validate_url (env_url env) client u = Inr ()) new"
  proof (cases r0)
    case (Inl e)
    then show ?thesis using run f new by (auto simp: op_bind_def)
  next
    case (Inr a)
    then have "g a s0 = (r, s')" using run f by (simp add: op_bind_def)
    with assms(2) obtain more where "w_sent s' = w_sent s0 @ more" "length more \<le> m"
      "list_all (\<lambda>u. validate_url (env_url env) client u = Inr ()) more"
      unfolding requests_within_def by blast
    with new show ?thesis by (intro exI [of _ "new @ more"]) auto
  qed
qed

lemma requests_catch:
  assumes "requests_within env client n f" "\<And>r. requests_within env client m (g r)"
  shows "requests_within env client (n + m) (op_catch f g)"
proof -
  have eq: "op_catch f g = op_bind (\<lambda>s. case f s of (r, s') \<Rightarrow> (Inr r, s')) g"
    by (auto simp: op_catch_def op_bind_def fun_eq_iff split: prod.splits)
  have "requests_within env client n (\<lambda>s. case f s of (r, s') \<Rightarrow> (Inr r, s'))"
    using assms(1) by (auto simp: requests_within_def split: prod.splits)
  then show ?thesis unfolding eq using assms(2) by (rule requests_bind)
qed

lemma requests_map_err: "requests_within env client n f \<Longrightarrow> requests_within env client n (op_map_err h f)"
  by (auto simp: requests_within_def op_map_err_def split: prod.splits)

lemma requests_bind0:
  "requests_within env client 0 f \<Longrightarrow> (\<And>a. requests_within env client m (g a)) \<Longrightarrow> requests_within env client m (op_bind f g)"
  using requests_bind [of env client 0 f m g] by simp

lemma requests_bind1:
  "requests_within env client n f \<Longrightarrow> (\<And>a. requests_within env client 0 (g a)) \<Longrightarrow> requests_within env client n (op_bind f g)"
  using requests_bind [of env client n f 0 g] by simp

lemma requests_catch1:
  "requests_within env client n f \<Longrightarrow> (\<And>a. requests_within env client 0 (g a)) \<Longrightarrow> requests_within env client n (op_catch f g)"
  using requests_catch [of env client n f 0 g] by simp

lemma requests_cases:
  "requests_within env client n f \<Longrightarrow> requests_within env client n g \<Longrightarrow> requests_within env client n (if b then f else g)"
  "requests_within env client n f \<Longrightarrow> (\<And>x. requests_within env client n (h x)) \<Longrightarrow>
     requests_within env client n (case opt of None \<Rightarrow> f | Some x \<Rightarrow> h x)"
  "(\<And>y. requests_within env client n (k y)) \<Longrightarrow> (\<And>x. requests_within env client n (h x)) \<Longrightarrow>
     requests_within env client n (case res of Inl y \<Rightarrow> k y | Inr x \<Rightarrow> h x)"
  by (auto split: option.splits sum.splits)

lemma keeps_cases [keeps_rules]:
  "keeps I f \<Longrightarrow> keeps I g \<Longrightarrow> keeps I (if b then f else g)"
  "keeps I f \<Longrightarrow> (\<And>x. keeps I (h x)) \<Longrightarrow> keeps I (case opt of None \<Rightarrow> f | Some x \<Rightarrow> h x)"
  "(\<And>y. keeps I (k y)) \<Longrightarrow> (\<And>x. keeps I (h x)) \<Longrightarrow> keeps I (case res of Inl y \<Rightarrow> k y | Inr x \<Rightarrow> h x)"
  by (auto split: option.splits sum.splits)

subsection \<open>Errors\<close>

text \<open>All the errors that an operation can end in satisfy a predicate.\<close>

definition refuses_with :: "('e \<Rightarrow> bool) \<Rightarrow> ('s, 'e, 'a) oper \<Rightarrow> bool" where
  "refuses_with P f \<longleftrightarrow> (\<forall>s e s'. f s = (Inl e, s') \<longrightarrow> P e)"

lemma refuses_with_basic:
  "refuses_with P (op_ok a)" "P e \<Longrightarrow> refuses_with P (op_err e)" "(\<And>e. r = Inl e \<Longrightarrow> P e) \<Longrightarrow> refuses_with P (op_result r)"
  "refuses_with P (op_get f')" "refuses_with P (op_modify g)"
  by (simp_all add: refuses_with_def op_defs)

lemma refuses_with_map_err:
  "(\<And>e. P (h e)) \<Longrightarrow> refuses_with P (op_map_err h f)" "refuses_with (\<lambda>e. P (h e)) f \<Longrightarrow> refuses_with P (op_map_err h f)"
  by (auto simp: refuses_with_def op_map_err_def map_err_def split: prod.splits sum.splits)

lemma refuses_with_weaken: "refuses_with P f \<Longrightarrow> (\<And>e. P e \<Longrightarrow> Q e) \<Longrightarrow> refuses_with Q f"
  unfolding refuses_with_def by blast

lemma refuses_with_bind: "refuses_with P f \<Longrightarrow> (\<And>a. refuses_with P (g a)) \<Longrightarrow> refuses_with P (op_bind f g)"
  unfolding refuses_with_def op_bind_def by (fastforce split: prod.splits sum.splits)

lemma refuses_with_catch:
  assumes "refuses_with P' f" "\<And>r. (\<forall>e. r = Inl e \<longrightarrow> P' e) \<Longrightarrow> refuses_with P (g r)"
  shows "refuses_with P (op_catch f g)"
  unfolding refuses_with_def
proof (intro allI impI)
  fix s e s' assume run: "op_catch f g s = (Inl e, s')"
  obtain r0 s0 where f: "f s = (r0, s0)" by fastforce
  then have "g r0 s0 = (Inl e, s')" using run by (simp add: op_catch_def)
  moreover have "\<forall>e. r0 = Inl e \<longrightarrow> P' e" using assms(1) f by (auto simp: refuses_with_def)
  ultimately show "P e" using assms(2) unfolding refuses_with_def by blast
qed

lemma refuses_with_cases:
  "refuses_with P f \<Longrightarrow> refuses_with P g \<Longrightarrow> refuses_with P (if b then f else g)"
  "refuses_with P f \<Longrightarrow> (\<And>x. refuses_with P (h x)) \<Longrightarrow> refuses_with P (case opt of None \<Rightarrow> f | Some x \<Rightarrow> h x)"
  "(\<And>y. refuses_with P (k y)) \<Longrightarrow> (\<And>x. refuses_with P (h x)) \<Longrightarrow> refuses_with P (case res of Inl y \<Rightarrow> k y | Inr x \<Rightarrow> h x)"
  by (auto split: option.splits sum.splits)

lemma refuses_with_clock: "refuses_with P (instant_now env)" "refuses_with P (now_epoch env)"
  by (simp_all add: refuses_with_def instant_now_def now_epoch_def)

lemmas refuses_with_rules = refuses_with_basic refuses_with_bind refuses_with_cases refuses_with_clock

end
