(* ===== verification/Key_Locks.thy ===== *)
theory Key_Locks
  imports Contracts
begin

text \<open>
  The per-key locks of the metadata service (\<^verbatim>\<open>metadata.rs\<close>: \<open>lock_for\<close>, \<open>ManagedKeyLock\<close> and its
  \<open>Drop\<close>) and of the archive storage (\<^verbatim>\<open>storage.rs\<close>: \<open>lock_for\<close>, \<open>ManagedArchiveLock\<close>), which are the
  same code on two key types.

  A table maps keys to reference-counted mutexes. An \<open>Arc\<close> is the number of its allocation,
  \<open>lt_strong\<close> its strong count, the reference the map itself keeps included. The functions model one
  call each; the step relation interleaves the calls of any number of tasks at the points where the
  code releases the lock of the map.
\<close>

section \<open>Definitions\<close>

record 'k lock_table =
  lt_map :: "('k, nat) hashmap"
  lt_strong :: "nat \<Rightarrow> nat"
  lt_next :: nat

definition empty_lock_table :: "'k lock_table" where
  "empty_lock_table = \<lparr>lt_map = [], lt_strong = (\<lambda>_. 0), lt_next = 0\<rparr>"

text \<open>\<open>lock_for\<close>: under the write lock of the map, find or allocate the mutex and clone the \<open>Arc\<close>.\<close>

definition lock_for :: "'k lock_table \<Rightarrow> 'k \<Rightarrow> nat \<times> 'k lock_table" where
  "lock_for t key =
     (case hm_get (lt_map t) key of
        Some m \<Rightarrow> (m, t\<lparr>lt_strong := (lt_strong t)(m := lt_strong t m + 1)\<rparr>)
      | None \<Rightarrow>
          (let m = lt_next t
           in (m, \<lparr>lt_map = hm_insert key m (lt_map t), lt_strong = (lt_strong t)(m := 2), lt_next = m + 1\<rparr>)))"

text \<open>The body of \<open>Drop::drop\<close>, and the drop of the \<open>mutex\<close> field that follows it.\<close>

definition drop_check :: "'k lock_table \<Rightarrow> 'k \<Rightarrow> nat \<Rightarrow> 'k lock_table" where
  "drop_check t key m =
     (if lt_strong t m = 2 \<and> hm_get (lt_map t) key = Some m
      then t\<lparr>lt_map := hm_remove key (lt_map t), lt_strong := (lt_strong t)(m := lt_strong t m - 1)\<rparr>
      else t)"

definition drop_mutex :: "'k lock_table \<Rightarrow> nat \<Rightarrow> 'k lock_table" where
  "drop_mutex t m = t\<lparr>lt_strong := (lt_strong t)(m := lt_strong t m - 1)\<rparr>"

definition drop_lock :: "'k lock_table \<Rightarrow> 'k \<Rightarrow> nat \<Rightarrow> 'k lock_table" where
  "drop_lock t key m = drop_mutex (drop_check t key m) m"

subsection \<open>Tasks\<close>

text \<open>Where a task stands: it has no lock, waits on the mutex, holds it, has given the guard back,
  or has run \<open>Drop::drop\<close> and still owns its \<open>Arc\<close>.\<close>

datatype 'k task =
    Idle
  | Waiting 'k nat
  | Holding 'k nat
  | Releasing 'k nat
  | Checked nat

record ('k, 't) lock_state =
  ls_table :: "'k lock_table"
  ls_owner :: "nat \<Rightarrow> 't option"
  ls_task :: "'t \<Rightarrow> 'k task"

definition lock_init :: "('k, 't) lock_state \<Rightarrow> bool" where
  "lock_init s \<longleftrightarrow> s = \<lparr>ls_table = empty_lock_table, ls_owner = (\<lambda>_. None), ls_task = (\<lambda>_. Idle)\<rparr>"

inductive lock_step :: "('k, 't) lock_state \<Rightarrow> ('k, 't) lock_state \<Rightarrow> bool" where
  request: "ls_task s t = Idle \<Longrightarrow> lock_for (ls_table s) k = (m, table) \<Longrightarrow>
    lock_step s (s\<lparr>ls_table := table, ls_task := (ls_task s)(t := Waiting k m)\<rparr>)"
| acquire: "ls_task s t = Waiting k m \<Longrightarrow> ls_owner s m = None \<Longrightarrow>
    lock_step s (s\<lparr>ls_owner := (ls_owner s)(m := Some t), ls_task := (ls_task s)(t := Holding k m)\<rparr>)"
| cancel: "ls_task s t = Waiting k m \<Longrightarrow>
    lock_step s (s\<lparr>ls_task := (ls_task s)(t := Releasing k m)\<rparr>)"
| release: "ls_task s t = Holding k m \<Longrightarrow>
    lock_step s (s\<lparr>ls_owner := (ls_owner s)(m := None), ls_task := (ls_task s)(t := Releasing k m)\<rparr>)"
| check: "ls_task s t = Releasing k m \<Longrightarrow>
    lock_step s (s\<lparr>ls_table := drop_check (ls_table s) k m, ls_task := (ls_task s)(t := Checked m)\<rparr>)"
| free: "ls_task s t = Checked m \<Longrightarrow>
    lock_step s (s\<lparr>ls_table := drop_mutex (ls_table s) m, ls_task := (ls_task s)(t := Idle)\<rparr>)"

abbreviation lock_reach :: "('k, 't) lock_state \<Rightarrow> bool" where
  "lock_reach \<equiv> reach lock_init lock_step"

inductive_cases lock_stepE: "lock_step s s'"

section \<open>The invariant\<close>

text \<open>The mutex a task has a reference to, and the one it uses with its key.\<close>

fun handle :: "'k task \<Rightarrow> nat option" where
  "handle Idle = None"
| "handle (Waiting k m) = Some m"
| "handle (Holding k m) = Some m"
| "handle (Releasing k m) = Some m"
| "handle (Checked m) = Some m"

fun keyed :: "'k task \<Rightarrow> ('k \<times> nat) option" where
  "keyed (Waiting k m) = Some (k, m)"
| "keyed (Holding k m) = Some (k, m)"
| "keyed (Releasing k m) = Some (k, m)"
| "keyed _ = None"

abbreviation handles :: "('t \<Rightarrow> 'k task) \<Rightarrow> nat \<Rightarrow> 't set" where
  "handles task m \<equiv> {t. handle (task t) = Some m}"

abbreviation mapped :: "'k lock_table \<Rightarrow> nat \<Rightarrow> bool" where
  "mapped table m \<equiv> \<exists>k. hm_get (lt_map table) k = Some m"

definition table_inv :: "'k lock_table \<Rightarrow> bool" where
  "table_inv table \<longleftrightarrow>
     (\<forall>k m. hm_get (lt_map table) k = Some m \<longrightarrow> m < lt_next table) \<and>
     (\<forall>k k' m. hm_get (lt_map table) k = Some m \<longrightarrow> hm_get (lt_map table) k' = Some m \<longrightarrow> k = k')"

definition tasks_inv :: "'k lock_table \<Rightarrow> ('t \<Rightarrow> 'k task) \<Rightarrow> bool" where
  "tasks_inv table task \<longleftrightarrow>
     (\<forall>m. finite (handles task m)) \<and>
     (\<forall>t m. handle (task t) = Some m \<longrightarrow> m < lt_next table) \<and>
     (\<forall>t k m. keyed (task t) = Some (k, m) \<longrightarrow> hm_get (lt_map table) k = Some m) \<and>
     (\<forall>m. lt_strong table m = card (handles task m) + (if mapped table m then 1 else 0))"

definition owner_inv :: "(nat \<Rightarrow> 't option) \<Rightarrow> ('t \<Rightarrow> 'k task) \<Rightarrow> bool" where
  "owner_inv owner task \<longleftrightarrow> (\<forall>t k m. task t = Holding k m \<longrightarrow> owner m = Some t)"

definition lock_inv :: "('k, 't) lock_state \<Rightarrow> bool" where
  "lock_inv s \<longleftrightarrow> table_inv (ls_table s) \<and> tasks_inv (ls_table s) (ls_task s) \<and> owner_inv (ls_owner s) (ls_task s)"

section \<open>Lemmas\<close>

lemma handles_update:
  "handles (task(t := x)) m =
     (if handle x = Some m then insert t (handles task m) else handles task m - {t})"
  by auto

lemma keyed_handle: "keyed x = Some (k, m) \<Longrightarrow> handle x = Some m"
  by (cases x) auto

lemma tasks_invD:
  assumes "tasks_inv table task"
  shows "finite (handles task m)"
    and "handle (task t) = Some m \<Longrightarrow> m < lt_next table"
    and "keyed (task t) = Some (k, m) \<Longrightarrow> hm_get (lt_map table) k = Some m"
    and "lt_strong table m = card (handles task m) + (if mapped table m then 1 else 0)"
  using assms unfolding tasks_inv_def by blast+

lemma lock_for_table_inv:
  assumes "table_inv table" "lock_for table k = (m, table')"
  shows "table_inv table'" "hm_get (lt_map table') k = Some m"
    "\<And>k'. k' \<noteq> k \<Longrightarrow> hm_get (lt_map table') k' = hm_get (lt_map table) k'"
    "lt_next table \<le> lt_next table'" "m < lt_next table'"
  using assms
  by (fastforce simp: lock_for_def table_inv_def Let_def hm_insert_get split: option.splits if_splits)+

lemma lock_for_tasks_inv:
  assumes "table_inv table" "tasks_inv table task" "handle (task t) = None"
    and lock: "lock_for table k = (m, table')"
  shows "tasks_inv table' (task(t := Waiting k m))"
proof -
  note new = lock_for_table_inv [OF assms(1) lock]
  have fin: "finite (handles task n)" for n using assms(2) by (simp add: tasks_inv_def)
  have t: "t \<notin> handles task n" for n using assms(3) by simp
  have strong: "lt_strong table n = card (handles task n) + (if mapped table n then 1 else 0)" for n
    using assms(2) by (simp add: tasks_inv_def)
  have count: "lt_strong table' n = card (handles (task(t := Waiting k m)) n) + (if mapped table' n then 1 else 0)" for n
  proof (cases "hm_get (lt_map table) k")
    case (Some m')
    then have "m' = m" "table' = table\<lparr>lt_strong := (lt_strong table)(m := lt_strong table m + 1)\<rparr>"
      using lock by (auto simp: lock_for_def)
    then show ?thesis using strong [of n] t fin by (simp add: handles_update del: fun_upd_apply) (simp add: fun_upd_def)
  next
    case None
    then have m: "m = lt_next table" and table': "table' = \<lparr>lt_map = hm_insert k m (lt_map table),
        lt_strong = (lt_strong table)(m := 2), lt_next = m + 1\<rparr>"
      using lock by (auto simp: lock_for_def Let_def)
    have "handles task m = {}" using assms(2) m by (auto simp: tasks_inv_def)
    moreover have "mapped table' n \<longleftrightarrow> (if n = m then True else mapped table n)"
      using None by (auto simp: table' hm_insert_get) (metis option.distinct(1))
    ultimately show ?thesis
      using strong [of n] t fin by (simp add: handles_update table' del: fun_upd_apply) (simp add: fun_upd_def)
  qed
  have "finite (handles (task(t := Waiting k m)) n)" for n using fin by (simp add: handles_update del: fun_upd_apply)
  moreover have "hm_get (lt_map table') k' = Some m'" if "keyed ((task(t := Waiting k m)) t') = Some (k', m')" for t' k' m'
  proof (cases "t' = t")
    case False
    then have "hm_get (lt_map table) k' = Some m'" using that assms(2) by (auto simp: tasks_inv_def)
    then show ?thesis using new(2,3) lock by (cases "k' = k") (auto simp: lock_for_def)
  qed (use that new in auto)
  moreover have "m' < lt_next table'" if "handle ((task(t := Waiting k m)) t') = Some m'" for t' m'
    using that new(4,5) assms(2) by (fastforce simp: tasks_inv_def split: if_splits)
  ultimately show ?thesis using count unfolding tasks_inv_def by blast
qed

text \<open>A move that keeps the reference keeps the invariant of the tasks.\<close>

lemma same_handle_tasks_inv:
  assumes "tasks_inv table task" "handle x = handle (task t)"
    and "\<And>k m. keyed x = Some (k, m) \<Longrightarrow> hm_get (lt_map table) k = Some m"
  shows "tasks_inv table (task(t := x))"
proof -
  have "handle ((task(t := x)) t') = handle (task t')" for t' using assms(2) by simp
  moreover have "hm_get (lt_map table) k = Some m" if "keyed ((task(t := x)) t') = Some (k, m)" for t' k m
    using that assms(1,3) by (cases "t' = t") (auto simp: tasks_inv_def)
  ultimately show ?thesis
    using assms(1) unfolding tasks_inv_def by (simp only:) blast
qed

text \<open>The entry of a key is removed only when the task is alone with its mutex.\<close>

lemma drop_check_removes:
  assumes "tasks_inv table task" "task t = Releasing k m" "lt_strong table m = 2" "hm_get (lt_map table) k = Some m"
  shows "handles task m = {t}"
proof -
  have "mapped table m" using assms(4) by blast
  then have "card (handles task m) = 1" using assms(1,3) by (auto simp: tasks_inv_def)
  moreover have "t \<in> handles task m" using assms(2) by simp
  ultimately show ?thesis by (metis card_1_singletonE singletonD)
qed

lemma drop_check_inv:
  assumes table: "table_inv table" and tasks: "tasks_inv table task" and t: "task t = Releasing k m"
  shows "table_inv (drop_check table k m) \<and> tasks_inv (drop_check table k m) (task(t := Checked m))"
proof (cases "lt_strong table m = 2 \<and> hm_get (lt_map table) k = Some m")
  case True
  define table' where "table' = drop_check table k m"
  have get: "hm_get (lt_map table') k' = (if k' = k then None else hm_get (lt_map table) k')" for k'
    using True by (simp add: table'_def drop_check_def hm_remove_get)
  have next': "lt_next table' = lt_next table" by (simp add: table'_def drop_check_def)
  have single: "handles task m = {t}" using tasks t True by (intro drop_check_removes) auto
  have "table_inv table'" using table by (auto simp: table_inv_def get next' split: if_splits)
  moreover have "tasks_inv table' (task(t := Checked m))"
    unfolding tasks_inv_def
  proof (intro conjI allI impI)
    show "finite (handles (task(t := Checked m)) n)" for n
      using tasks_invD(1) [OF tasks] by (simp add: handles_update del: fun_upd_apply)
    show "m' < lt_next table'" if "handle ((task(t := Checked m)) t') = Some m'" for t' m'
      using that tasks_invD(2) [OF tasks, of t'] t next' by (cases "t' = t") auto
    show "hm_get (lt_map table') k' = Some m'" if key: "keyed ((task(t := Checked m)) t') = Some (k', m')" for t' k' m'
    proof -
      have t': "t' \<noteq> t" "keyed (task t') = Some (k', m')" using key by (auto split: if_splits)
      then have "hm_get (lt_map table) k' = Some m'" using tasks_invD(3) [OF tasks] by blast
      moreover have "k' \<noteq> k"
      proof
        assume "k' = k"
        then have "m' = m" using calculation True by simp
        then have "t' \<in> handles task m" using keyed_handle [OF t'(2)] by simp
        then show False using single t'(1) by simp
      qed
      ultimately show ?thesis by (simp add: get)
    qed
    show "lt_strong table' n = card (handles (task(t := Checked m)) n) + (if mapped table' n then 1 else 0)" for n
    proof -
      have "handles (task(t := Checked m)) n = handles task n" using t by auto
      moreover have "mapped table' n \<longleftrightarrow> n \<noteq> m \<and> mapped table n"
      proof -
        have "k' = k" if "hm_get (lt_map table) k' = Some m" for k'
          using that True table unfolding table_inv_def by blast
        then show ?thesis using True unfolding get by (metis option.distinct(1) option.inject)
      qed
      moreover have "lt_strong table' n = (if n = m then 1 else lt_strong table n)"
        using True by (auto simp: table'_def drop_check_def)
      ultimately show ?thesis using tasks_invD(4) [OF tasks, of n] single by (cases "n = m") auto
    qed
  qed
  ultimately show ?thesis by (simp add: table'_def)
next
  case False
  then have "drop_check table k m = table" by (auto simp: drop_check_def)
  then show ?thesis using table tasks t by (auto intro!: same_handle_tasks_inv)
qed

lemma drop_mutex_inv:
  assumes "table_inv table" "tasks_inv table task" "task t = Checked m"
  shows "table_inv (drop_mutex table m) \<and> tasks_inv (drop_mutex table m) (task(t := Idle))"
proof -
  have "card (handles (task(t := Idle)) n) = (if n = m then card (handles task m) - 1 else card (handles task n))" for n
    using assms(3) by (auto simp: handles_update simp del: fun_upd_apply)
  moreover have "t \<in> handles task m" "finite (handles task m)"
    using assms(2,3) by (auto simp: tasks_inv_def)
  moreover from this have "0 < card (handles task m)" by (auto simp: card_gt_0_iff)
  ultimately have "lt_strong (drop_mutex table m) n =
      card (handles (task(t := Idle)) n) + (if mapped (drop_mutex table m) n then 1 else 0)" for n
    using assms(2) by (auto simp: tasks_inv_def drop_mutex_def)
  moreover have "finite (handles (task(t := Idle)) n)" for n
    using assms(2) by (simp add: handles_update tasks_inv_def del: fun_upd_apply)
  moreover have "handle ((task(t := Idle)) t') = Some n \<Longrightarrow> handle (task t') = Some n"
    "keyed ((task(t := Idle)) t') = Some (k, n) \<Longrightarrow> keyed (task t') = Some (k, n)" for t' n k
    by (auto split: if_splits)
  moreover have "lt_map (drop_mutex table m) = lt_map table" "lt_next (drop_mutex table m) = lt_next table"
    by (simp_all add: drop_mutex_def)
  ultimately show ?thesis using assms(1,2) unfolding tasks_inv_def table_inv_def by metis
qed

lemma lock_inv_init: "lock_init s \<Longrightarrow> lock_inv s"
  by (auto simp: lock_init_def lock_inv_def table_inv_def tasks_inv_def owner_inv_def empty_lock_table_def)

lemma lock_inv_step: "lock_step s s' \<Longrightarrow> lock_inv s \<Longrightarrow> lock_inv s'"
proof (induction rule: lock_step.induct)
  case (request s t k m table)
  then show ?case
    using lock_for_table_inv(1) [of "ls_table s" k m table] lock_for_tasks_inv [of "ls_table s" "ls_task s" t k m table]
    by (auto simp: lock_inv_def owner_inv_def)
next
  case (acquire s t k m)
  have "tasks_inv (ls_table s) ((ls_task s)(t := Holding k m))"
    using acquire tasks_invD(3) [of "ls_table s" "ls_task s" t k m]
    by (intro same_handle_tasks_inv) (auto simp: lock_inv_def)
  moreover have "t' = t" if "ls_task s t' = Holding k' m" for t' k'
    using that acquire by (auto simp: lock_inv_def owner_inv_def)
  ultimately show ?case using acquire by (fastforce simp: lock_inv_def owner_inv_def)
next
  case (cancel s t k m)
  have "tasks_inv (ls_table s) ((ls_task s)(t := Releasing k m))"
    using cancel tasks_invD(3) [of "ls_table s" "ls_task s" t k m]
    by (intro same_handle_tasks_inv) (auto simp: lock_inv_def)
  then show ?case using cancel by (auto simp: lock_inv_def owner_inv_def)
next
  case (release s t k m)
  have "tasks_inv (ls_table s) ((ls_task s)(t := Releasing k m))"
    using release tasks_invD(3) [of "ls_table s" "ls_task s" t k m]
    by (intro same_handle_tasks_inv) (auto simp: lock_inv_def)
  moreover have "m' \<noteq> m" if "ls_task s t' = Holding k' m'" "t' \<noteq> t" for t' k' m'
  proof
    assume "m' = m"
    with that release have "ls_owner s m = Some t'" "ls_owner s m = Some t"
      unfolding lock_inv_def owner_inv_def by blast+
    with that show False by simp
  qed
  ultimately show ?case using release by (auto simp: lock_inv_def owner_inv_def)
next
  case (check s t k m)
  then show ?case
    using drop_check_inv [of "ls_table s" "ls_task s" t k m] by (auto simp: lock_inv_def owner_inv_def)
next
  case (free s t m)
  then show ?case
    using drop_mutex_inv [of "ls_table s" "ls_task s" t m] by (auto simp: lock_inv_def owner_inv_def)
qed

interpretation locks: inductive_invariant lock_init lock_step lock_inv
  by unfold_locales (auto intro: lock_inv_init lock_inv_step)

lemma holding_unique:
  assumes "lock_inv L" "ls_task L t = Holding k m" "ls_task L u = Holding k m'"
  shows "t = u"
proof -
  have key: "hm_get (lt_map (ls_table L)) k = Some n" if "ls_task L v = Holding k n" for v n
    using tasks_invD(3) [of "ls_table L" "ls_task L" v k n] assms(1) that by (simp add: lock_inv_def)
  from key [OF assms(2)] key [OF assms(3)] have "m = m'" by simp
  then show ?thesis using assms unfolding lock_inv_def owner_inv_def by (metis option.inject)
qed

text \<open>The mutexes have no owner but the tasks that hold them.\<close>

definition owners_hold :: "('k, 't) lock_state \<Rightarrow> bool" where
  "owners_hold L \<longleftrightarrow> (\<forall>m t. ls_owner L m = Some t \<longrightarrow> (\<exists>k. ls_task L t = Holding k m))"

lemma owners_hold_step: "lock_step L L' \<Longrightarrow> owners_hold L \<Longrightarrow> owners_hold L'"
  by (induction rule: lock_step.induct) (fastforce simp: owners_hold_def split: if_splits)+

interpretation owners: inductive_invariant lock_init lock_step owners_hold
  by unfold_locales (simp add: lock_init_def owners_hold_def, rule owners_hold_step)

subsection \<open>One task at a time\<close>

lemma drop_lock_after_lock_for:
  assumes "\<And>m'. hm_get (lt_map table) k = Some m' \<Longrightarrow> lt_strong table m' = 1"
    and "lock_for table k = (m, table')"
  shows "hm_get (lt_map (drop_lock table' k m)) k' = (if k' = k then None else hm_get (lt_map table) k')"
  using assms
  by (auto simp: lock_for_def drop_lock_def drop_check_def drop_mutex_def hm_insert_get hm_remove_get Let_def
      split: option.splits)

subsection \<open>Two tasks on one key\<close>

text \<open>Both ask for key 7; the first holds the lock, the second waits.\<close>

definition two_tasks_contend :: "(nat, nat) lock_state" where
  "two_tasks_contend =
     \<lparr>ls_table = \<lparr>lt_map = [(7, 0)], lt_strong = (\<lambda>_. 0)(0 := 3), lt_next = 1\<rparr>,
      ls_owner = (\<lambda>_. None)(0 := Some 0), ls_task = (\<lambda>_. Idle)(0 := Holding 7 0, 1 := Waiting 7 0)\<rparr>"

lemma two_tasks_contend_reach: "lock_reach two_tasks_contend"
proof -
  define s0 :: "(nat, nat) lock_state" where
    "s0 = \<lparr>ls_table = empty_lock_table, ls_owner = (\<lambda>_. None), ls_task = (\<lambda>_. Idle)\<rparr>"
  define s1 where "s1 = s0\<lparr>ls_table := snd (lock_for (ls_table s0) 7), ls_task := (ls_task s0)(0 := Waiting 7 0)\<rparr>"
  define s2 where "s2 = s1\<lparr>ls_table := snd (lock_for (ls_table s1) 7), ls_task := (ls_task s1)(1 := Waiting 7 0)\<rparr>"
  define s3 where "s3 = s2\<lparr>ls_owner := (ls_owner s2)(0 := Some 0), ls_task := (ls_task s2)(0 := Holding 7 0)\<rparr>"
  have "lock_reach s0" by (rule reach.start) (simp add: lock_init_def s0_def)
  moreover have "lock_step s0 s1" unfolding s1_def
    by (rule lock_step.request) (simp_all add: s0_def lock_for_def empty_lock_table_def Let_def)
  moreover have "lock_step s1 s2" unfolding s2_def
    by (rule lock_step.request) (simp_all add: s1_def s0_def lock_for_def empty_lock_table_def Let_def)
  moreover have "lock_step s2 s3" unfolding s3_def
    by (rule lock_step.acquire) (simp_all add: s2_def s1_def s0_def)
  moreover have "s3 = two_tasks_contend"
    by (auto simp: s3_def s2_def s1_def s0_def two_tasks_contend_def lock_for_def empty_lock_table_def Let_def fun_upd_twist)
  ultimately show ?thesis by (metis reach.move)
qed

text \<open>From there both give up, both run \<open>Drop::drop\<close>, and only then both free their reference.\<close>

lemma leaked_entry_reach:
  "\<exists>s :: (nat, nat) lock_state. lock_reach s \<and> (\<forall>t. ls_task s t = Idle) \<and> lt_map (ls_table s) = [(7, 0)]"
proof -
  let ?s0 = two_tasks_contend
  define s1 where "s1 = ?s0\<lparr>ls_owner := (ls_owner ?s0)(0 := None), ls_task := (ls_task ?s0)(0 := Releasing 7 0)\<rparr>"
  define s2 where "s2 = s1\<lparr>ls_task := (ls_task s1)(1 := Releasing 7 0)\<rparr>"
  define s3 where "s3 = s2\<lparr>ls_table := drop_check (ls_table s2) 7 0, ls_task := (ls_task s2)(0 := Checked 0)\<rparr>"
  define s4 where "s4 = s3\<lparr>ls_table := drop_check (ls_table s3) 7 0, ls_task := (ls_task s3)(1 := Checked 0)\<rparr>"
  define s5 where "s5 = s4\<lparr>ls_table := drop_mutex (ls_table s4) 0, ls_task := (ls_task s4)(0 := Idle)\<rparr>"
  define s6 where "s6 = s5\<lparr>ls_table := drop_mutex (ls_table s5) 0, ls_task := (ls_task s5)(1 := Idle)\<rparr>"
  note defs = s6_def s5_def s4_def s3_def s2_def s1_def two_tasks_contend_def drop_check_def drop_mutex_def
  have "lock_step ?s0 s1" unfolding s1_def by (rule lock_step.release) (simp add: two_tasks_contend_def)
  moreover have "lock_step s1 s2" unfolding s2_def by (rule lock_step.cancel) (simp add: defs)
  moreover have "lock_step s2 s3" unfolding s3_def by (rule lock_step.check) (simp add: defs)
  moreover have "lock_step s3 s4" unfolding s4_def by (rule lock_step.check) (simp add: defs)
  moreover have "lock_step s4 s5" unfolding s5_def by (rule lock_step.free) (simp add: defs)
  moreover have "lock_step s5 s6" unfolding s6_def by (rule lock_step.free) (simp add: defs)
  ultimately have "lock_reach s6" using two_tasks_contend_reach by (metis reach.move)
  moreover have "\<forall>t. ls_task s6 t = Idle" "lt_map (ls_table s6) = [(7, 0)]" by (auto simp: defs)
  ultimately show ?thesis by blast
qed

section \<open>Properties\<close>

text \<open>C11: the locks exclude. However the calls of any number of tasks interleave, with cancelled waits
  and with entries removed and created anew, two tasks never hold the lock of the same key at the same
  time, and the entry of a key stays in the table while a task waits for its lock or holds it.\<close>

theorem key_lock_mutual_exclusion:
  assumes "lock_reach s"
  shows "(\<forall>t t' m m'. ls_task s t = Holding k m \<and> ls_task s t' = Holding k m' \<longrightarrow> t' = t) \<and>
    (\<forall>t m. ls_task s t \<in> {Waiting k m, Holding k m} \<longrightarrow> hm_get (lt_map (ls_table s)) k = Some m)"
proof -
  from assms have inv: "lock_inv s" by (rule locks.reach_inv)
  then have key: "keyed (ls_task s t) = Some (k, m) \<Longrightarrow> hm_get (lt_map (ls_table s)) k = Some m" for t m
    by (auto simp: lock_inv_def dest: tasks_invD(3))
  have "hm_get (lt_map (ls_table s)) k = Some m" if "ls_task s t \<in> {Waiting k m, Holding k m}" for t m
    using that key [of t m] by auto
  moreover have "t' = t" if "ls_task s t = Holding k m" "ls_task s t' = Holding k m'" for t t' m m'
    by (rule holding_unique [OF inv that(2,1)])
  ultimately show ?thesis by blast
qed

theorem key_lock_mutual_exclusion_witness:
  "\<exists>s :: (nat, nat) lock_state. lock_reach s \<and> ls_task s 0 = Holding 7 0 \<and> ls_task s 1 = Waiting 7 0 \<and>
     (\<forall>t' m'. ls_task s t' = Holding 7 m' \<longrightarrow> t' = 0)"
proof -
  have reach: "lock_reach two_tasks_contend" by (rule two_tasks_contend_reach)
  moreover have "ls_task two_tasks_contend 0 = Holding 7 0" "ls_task two_tasks_contend 1 = Waiting 7 0"
    by (simp_all add: two_tasks_contend_def)
  ultimately show ?thesis using key_lock_mutual_exclusion [OF reach, of 7] by blast
qed

text \<open>C31: the table is cleaned up, except when two drops race. A task that takes and drops the lock
  of a key that no other task uses leaves the table without an entry for that key and without other
  changes to the map; but two tasks that drop the same lock at the same time can both read a count of
  three, after which the entry stays although no task is left.\<close>

theorem lock_table_cleanup_and_leak:
  "(\<forall>(table :: nat lock_table) k m table'.
      (\<forall>m'. hm_get (lt_map table) k = Some m' \<longrightarrow> lt_strong table m' = 1) \<and> lock_for table k = (m, table') \<longrightarrow>
      (\<forall>k'. hm_get (lt_map (drop_lock table' k m)) k' = (if k' = k then None else hm_get (lt_map table) k'))) \<and>
   (\<exists>s :: (nat, nat) lock_state. lock_reach s \<and> (\<forall>t. ls_task s t = Idle) \<and> lt_map (ls_table s) = [(7, 0)])"
proof
  show "\<exists>s :: (nat, nat) lock_state. lock_reach s \<and> (\<forall>t. ls_task s t = Idle) \<and> lt_map (ls_table s) = [(7, 0)]"
    using leaked_entry_reach by blast
qed (auto simp: drop_lock_after_lock_for)

theorem lock_table_cleanup_and_leak_witness:
  "hm_get (lt_map (drop_lock (snd (lock_for (empty_lock_table :: nat lock_table) 7)) 7 0)) 7 = None"
proof -
  define table :: "nat lock_table" where "table = snd (lock_for empty_lock_table 7)"
  have "lock_for (empty_lock_table :: nat lock_table) 7 = (0, table)"
    by (simp add: table_def lock_for_def empty_lock_table_def Let_def)
  moreover have "\<forall>m'. hm_get (lt_map (empty_lock_table :: nat lock_table)) 7 = Some m' \<longrightarrow>
      lt_strong (empty_lock_table :: nat lock_table) m' = 1"
    by (simp add: empty_lock_table_def)
  ultimately have "hm_get (lt_map (drop_lock table 7 0)) 7 = None"
    using lock_table_cleanup_and_leak [THEN conjunct1, rule_format, of empty_lock_table 7 0 table 7] by simp
  then show ?thesis unfolding table_def .
qed

end
