(* ===== verification/Registry.thy ===== *)
theory Registry
  imports Effects Key_Locks
begin

text \<open>
  The client of the upstream registries (\<^verbatim>\<open>src/src/registry.rs\<close>): Terraform service discovery with its
  cache and retry backoff, the list of the versions of a provider and the package of a platform.

  The state is the world extended by the discovery cache and the discovery locks. The JSON decoder
  of \<^verbatim>\<open>serde_json\<close> is a parameter, one function per type decoded. A panic of \<open>expect\<close> is the error
  \<open>RegPanic\<close>. The lock a call waits for excludes the other calls on the same host (theory
  \<open>Key_Locks\<close>), so a call is modelled as running alone between its lock and its end.
\<close>

section \<open>Definitions\<close>

datatype registry_error =
    RegNotFound
  | RegInvalidOrigin string
  | RegRequest "cause list"
  | RegOutbound outbound_error
  | RegInvalidResponse string
  | RegResponseTooLarge nat
  | RegDiscoveryBackoff
  | RegPanic string

record registry_platform =
  rp_os :: string
  rp_arch :: string

record registry_version =
  rv_version :: string
  rv_platforms :: "registry_platform list"

record platform_metadata =
  pm_os :: string
  pm_arch :: string
  pm_filename :: string
  pm_shasum :: "string option"
  pm_download_url :: string

record 'u discovery_entry =
  de_origin :: "'u option"
  de_fetched_at :: nat
  de_retry_at :: "nat option"

record ('u, 'c) registry_client =
  rc_outbound :: "'c outbound_client"
  rc_origins :: "string \<rightharpoonup> 'u"
  rc_discovery_origins :: "string \<rightharpoonup> 'u"

record 'u registry_state = "'u world" +
  rs_cache :: "string \<rightharpoonup> 'u discovery_entry"
  rs_locks :: "string lock_table"

record ('u, 'c) registry_env = "('u, 'c) env" +
  env_json_versions :: "octet list \<Rightarrow> (string, registry_version list) result"
  env_json_package :: "octet list \<Rightarrow> (string, platform_metadata) result"
  env_json_discovery :: "octet list \<Rightarrow> (string, string option) result"

definition MAX_INDEX_JSON_BYTES :: nat where "MAX_INDEX_JSON_BYTES = 2 * 1024 * 1024"
definition MAX_PACKAGE_JSON_BYTES :: nat where "MAX_PACKAGE_JSON_BYTES = 256 * 1024"
definition MAX_PROVIDER_VERSIONS :: nat where "MAX_PROVIDER_VERSIONS = 4096"
definition MAX_PLATFORMS_PER_VERSION :: nat where "MAX_PLATFORMS_PER_VERSION = 128"

subsection \<open>Origins\<close>

definition normalize_origin :: "'u url_api \<Rightarrow> 'u \<Rightarrow> 'u" where
  "normalize_origin api origin =
     (if strip_suffix ''/'' (url_path api origin) = None
      then url_set_path api origin (url_path api origin @ ''/'') else origin)"

definition parse_origin :: "'u url_api \<Rightarrow> string \<Rightarrow> (registry_error, 'u) result" where
  "parse_origin api origin =
     (case url_parse api origin of
        Inl e \<Rightarrow> Inl (RegInvalidOrigin e)
      | Inr url \<Rightarrow>
          (if url_scheme api url \<notin> {''http'', ''https''} \<or> url_host_str api url = None
           then Inl (RegInvalidOrigin origin)
           else Inr (normalize_origin api url)))"

definition with_outbound :: "'c outbound_client \<Rightarrow> ('u, 'c) registry_client" where
  "with_outbound client = \<lparr>rc_outbound = client, rc_origins = Map.empty, rc_discovery_origins = Map.empty\<rparr>"

definition registry_new :: "(outbound_error, 'c outbound_client) result \<Rightarrow> (registry_error, ('u, 'c) registry_client) result" where
  "registry_new direct_client = map_sum RegOutbound with_outbound direct_client"

definition with_origin ::
  "'u url_api \<Rightarrow> 'c outbound_client \<Rightarrow> string \<Rightarrow> string \<Rightarrow> (registry_error, ('u, 'c) registry_client) result" where
  "with_origin api test_client hostname origin =
     (case parse_origin api origin of
        Inl e \<Rightarrow> Inl e
      | Inr base \<Rightarrow>
     (case url_join api base ''v1/providers/'' of
        Inl e \<Rightarrow> Inl (RegInvalidOrigin e)
      | Inr url \<Rightarrow>
          (let registry = with_outbound test_client
           in Inr (registry\<lparr>rc_origins := (rc_origins registry)(hostname \<mapsto> url)\<rparr>))))"

definition with_discovery_origin ::
  "'u url_api \<Rightarrow> 'c outbound_client \<Rightarrow> string \<Rightarrow> string \<Rightarrow> (registry_error, ('u, 'c) registry_client) result" where
  "with_discovery_origin api test_client hostname origin =
     (case parse_origin api origin of
        Inl e \<Rightarrow> Inl e
      | Inr url \<Rightarrow>
          (let registry = with_outbound test_client
           in Inr (registry\<lparr>rc_discovery_origins := (rc_discovery_origins registry)(hostname \<mapsto> url)\<rparr>)))"

subsection \<open>Response bodies\<close>

definition saturating_add64 :: "nat \<Rightarrow> nat \<Rightarrow> nat" where
  "saturating_add64 a b = min (a + b) (2 ^ 64 - 1)"

fun collect_body :: "nat \<Rightarrow> octet list \<Rightarrow> (cause list, octet list) result list \<Rightarrow> (registry_error, octet list) result" where
  "collect_body maximum body [] = Inr body"
| "collect_body maximum body (Inl e # chunks) = Inl (RegRequest e)"
| "collect_body maximum body (Inr chunk # chunks) =
     (if saturating_add64 (length body) (length chunk) > maximum then Inl (RegResponseTooLarge maximum)
      else collect_body maximum (body @ chunk) chunks)"

definition decode_json ::
  "(octet list \<Rightarrow> (string, 'a) result) \<Rightarrow> 'u response \<Rightarrow> nat \<Rightarrow> (registry_error, 'a) result" where
  "decode_json from_slice response maximum =
     (if (case resp_content_length response of None \<Rightarrow> False | Some l \<Rightarrow> l > maximum)
      then Inl (RegResponseTooLarge maximum)
      else try_bind (collect_body maximum [] (resp_chunks response))
             (\<lambda>body. map_err RegInvalidResponse (from_slice body)))"

subsection \<open>Discovery\<close>

text \<open>The cache lookup at the start of \<open>discover\<close>, done again under the lock: \<open>None\<close> to go on.\<close>

definition cached_discovery ::
  "('u, 'c, 'y) registry_env_scheme \<Rightarrow> string \<Rightarrow> (('u, 'z) registry_state_scheme, registry_error, 'u option) oper" where
  "cached_discovery env hostname =
     op_bind (op_get (\<lambda>s. rs_cache s hostname)) (\<lambda>cached. case cached of
       None \<Rightarrow> op_ok None
     | Some entry \<Rightarrow>
         op_bind (instant_now env) (\<lambda>now.
           if de_origin entry \<noteq> None \<and> now - de_fetched_at entry < 30 * 60 * second
           then op_result (map_sum id Some (ok_or (de_origin entry) RegDiscoveryBackoff))
           else (case de_retry_at entry of
             None \<Rightarrow> op_ok None
           | Some retry_at \<Rightarrow>
               op_bind (instant_now env) (\<lambda>now.
                 if now < retry_at
                 then op_result (map_sum id Some (ok_or (de_origin entry) RegDiscoveryBackoff))
                 else op_ok None))))"

text \<open>The inner block: fetch the document and take the origin out of it.\<close>

definition fetch_origin ::
  "('u, 'c, 'y) registry_env_scheme \<Rightarrow> 'c outbound_client \<Rightarrow> 'u \<Rightarrow> (('u, 'z) registry_state_scheme, registry_error, 'u) oper" where
  "fetch_origin env client discovery_url =
     op_bind (op_map_err RegOutbound (http_get env client discovery_url 30)) (\<lambda>response.
     op_bind (op_result (map_err RegRequest (error_for_status response))) (\<lambda>ok_response.
     op_bind (op_result (decode_json (env_json_discovery env) ok_response (64 * 1024))) (\<lambda>providers_v1.
     op_bind (op_result (ok_or providers_v1
       (RegInvalidResponse ''Terraform discovery document is missing providers.v1''))) (\<lambda>service.
     op_bind (op_result (map_err RegInvalidOrigin (url_join (env_url env) (resp_url response) service))) (\<lambda>origin.
       if url_host_str (env_url env) origin = None \<or>
          \<not> oc_allow_http client \<and> url_scheme (env_url env) origin \<noteq> ''https''
       then op_err (RegInvalidOrigin ''providers.v1 must be an HTTPS URL with a host'')
       else op_ok (normalize_origin (env_url env) origin))))))"

text \<open>What is done with the outcome.\<close>

definition store_origin ::
  "('u, 'c, 'y) registry_env_scheme \<Rightarrow> string \<Rightarrow> (registry_error, 'u) result \<Rightarrow>
     (('u, 'z) registry_state_scheme, registry_error, 'u) oper" where
  "store_origin env hostname outcome = (case outcome of
     Inr origin \<Rightarrow>
       op_bind (instant_now env) (\<lambda>now.
       op_bind (op_modify (\<lambda>s. s\<lparr>rs_cache := (rs_cache s)(hostname \<mapsto>
         \<lparr>de_origin = Some origin, de_fetched_at = now, de_retry_at = None\<rparr>)\<rparr>)) (\<lambda>_.
       op_ok origin))
   | Inl error \<Rightarrow>
       op_bind (instant_now env) (\<lambda>now.
       op_bind (op_get (\<lambda>s. case rs_cache s hostname of
           Some entry \<Rightarrow> entry
         | None \<Rightarrow> \<lparr>de_origin = None, de_fetched_at = now, de_retry_at = None\<rparr>)) (\<lambda>entry.
       op_bind (instant_now env) (\<lambda>now'.
       op_bind (op_modify (\<lambda>s. s\<lparr>rs_cache := (rs_cache s)(hostname \<mapsto>
         entry\<lparr>de_retry_at := Some (now' + 30 * second)\<rparr>)\<rparr>)) (\<lambda>_.
       op_result (ok_or (de_origin entry) error))))))"

definition discover_locked ::
  "('u, 'c, 'y) registry_env_scheme \<Rightarrow> 'c outbound_client \<Rightarrow> string \<Rightarrow> 'u \<Rightarrow>
     (('u, 'z) registry_state_scheme, registry_error, 'u) oper" where
  "discover_locked env client hostname base =
     op_bind (cached_discovery env hostname) (\<lambda>hit. case hit of
       Some origin \<Rightarrow> op_ok origin
     | None \<Rightarrow>
         op_bind (op_result (map_err RegInvalidOrigin (url_join (env_url env) base ''.well-known/terraform.json'')))
           (\<lambda>discovery_url. op_catch (fetch_origin env client discovery_url) (store_origin env hostname)))"

text \<open>The discovery locks are plain shared mutexes, never removed from their map.\<close>

definition with_discovery_lock ::
  "string \<Rightarrow> (('u, 'z) registry_state_scheme, 'e, 'a) oper \<Rightarrow> (('u, 'z) registry_state_scheme, 'e, 'a) oper" where
  "with_discovery_lock hostname body =
     (\<lambda>s. case lock_for (rs_locks s) hostname of (m, table) \<Rightarrow>
        (case body (s\<lparr>rs_locks := table\<rparr>) of (r, s') \<Rightarrow> (r, s'\<lparr>rs_locks := drop_mutex (rs_locks s') m\<rparr>)))"

definition discover ::
  "('u, 'c, 'y) registry_env_scheme \<Rightarrow> 'c outbound_client \<Rightarrow> string \<Rightarrow> 'u \<Rightarrow>
     (('u, 'z) registry_state_scheme, registry_error, 'u) oper" where
  "discover env client hostname base =
     op_bind (cached_discovery env hostname) (\<lambda>hit. case hit of
       Some origin \<Rightarrow> op_ok origin
     | None \<Rightarrow> with_discovery_lock hostname (discover_locked env client hostname base))"

subsection \<open>The queries\<close>

definition registry_origin ::
  "('u, 'c, 'y) registry_env_scheme \<Rightarrow> ('u, 'c) registry_client \<Rightarrow> string \<Rightarrow>
     (('u, 'z) registry_state_scheme, registry_error, 'u) oper" where
  "registry_origin env rc hostname = (case rc_origins rc hostname of
     Some origin \<Rightarrow> op_ok origin
   | None \<Rightarrow>
      (case rc_discovery_origins rc hostname of
         Some base \<Rightarrow> discover env (rc_outbound rc) hostname base
       | None \<Rightarrow>
      (case url_parse (env_url env) (''https://'' @ hostname @ ''/'') of
         Inl _ \<Rightarrow> op_err (RegPanic ''hostname URL'')
       | Inr base \<Rightarrow> discover env (rc_outbound rc) hostname base)))"

definition registry_get ::
  "('u, 'c, 'y) registry_env_scheme \<Rightarrow> ('u, 'c) registry_client \<Rightarrow> string \<Rightarrow> string \<Rightarrow>
     (('u, 'z) registry_state_scheme, registry_error, 'u response) oper" where
  "registry_get env rc hostname relative =
     op_bind (registry_origin env rc hostname) (\<lambda>origin.
     op_bind (op_result (map_err RegInvalidOrigin (url_join (env_url env) origin relative))) (\<lambda>url.
     op_bind (op_map_err RegOutbound (http_get env (rc_outbound rc) url 30)) (\<lambda>response.
       if resp_status response = 404 then op_err RegNotFound
       else op_result (map_err RegRequest (error_for_status response)))))"

definition registry_versions ::
  "('u, 'c, 'y) registry_env_scheme \<Rightarrow> ('u, 'c) registry_client \<Rightarrow> string \<Rightarrow> string \<Rightarrow> string \<Rightarrow>
     (('u, 'z) registry_state_scheme, registry_error, registry_version list) oper" where
  "registry_versions env rc hostname namespace provider_type =
     op_bind (registry_get env rc hostname (namespace @ ''/'' @ provider_type @ ''/versions'')) (\<lambda>response.
     op_bind (op_result (decode_json (env_json_versions env) response MAX_INDEX_JSON_BYTES)) (\<lambda>versions.
       if length versions > MAX_PROVIDER_VERSIONS
       then op_err (RegInvalidResponse ''too many provider versions'')
       else if list_ex (\<lambda>v. length (rv_platforms v) > MAX_PLATFORMS_PER_VERSION) versions
       then op_err (RegInvalidResponse ''too many platforms for provider version'')
       else op_ok versions))"

definition registry_package ::
  "('u, 'c, 'y) registry_env_scheme \<Rightarrow> ('u, 'c) registry_client \<Rightarrow> string \<Rightarrow> string \<Rightarrow> string \<Rightarrow> string \<Rightarrow>
     registry_platform \<Rightarrow> (('u, 'z) registry_state_scheme, registry_error, platform_metadata) oper" where
  "registry_package env rc hostname namespace provider_type version platform =
     op_bind (registry_get env rc hostname (namespace @ ''/'' @ provider_type @ ''/'' @ version @ ''/download/'' @
       rp_os platform @ ''/'' @ rp_arch platform)) (\<lambda>response.
     op_result (decode_json (env_json_package env) response MAX_PACKAGE_JSON_BYTES))"

subsection \<open>Laws of the URL crate\<close>

text \<open>\<open>Url::set_path\<close> changes the path only, and a path it sets to end in a slash ends in one.\<close>

definition url_laws :: "'u url_api \<Rightarrow> bool" where
  "url_laws api \<longleftrightarrow>
     (\<forall>u p. url_scheme api (url_set_path api u p) = url_scheme api u \<and>
            url_host_str api (url_set_path api u p) = url_host_str api u \<and>
            strip_suffix ''/'' (url_path api (url_set_path api u (p @ ''/''))) \<noteq> None)"

text \<open>What the code wants of an origin, and of all the origins in the cache.\<close>

definition origin_ok :: "'u url_api \<Rightarrow> 'c outbound_client \<Rightarrow> 'u \<Rightarrow> bool" where
  "origin_ok api client origin \<longleftrightarrow>
     url_host_str api origin \<noteq> None \<and> (oc_allow_http client \<or> url_scheme api origin = ''https'') \<and>
     strip_suffix ''/'' (url_path api origin) \<noteq> None"

definition cache_ok :: "'u url_api \<Rightarrow> 'c outbound_client \<Rightarrow> ('u, 'z) registry_state_scheme \<Rightarrow> bool" where
  "cache_ok api client s \<longleftrightarrow>
     (\<forall>h entry origin. rs_cache s h = Some entry \<longrightarrow> de_origin entry = Some origin \<longrightarrow> origin_ok api client origin)"

section \<open>Lemmas\<close>

lemma normalize_origin_laws:
  assumes "url_laws api"
  shows "url_scheme api (normalize_origin api u) = url_scheme api u"
    "url_host_str api (normalize_origin api u) = url_host_str api u"
    "strip_suffix ''/'' (url_path api (normalize_origin api u)) \<noteq> None"
  using assms by (auto simp: normalize_origin_def url_laws_def)

lemma origin_ok_normalize:
  "url_laws api \<Longrightarrow> url_host_str api u \<noteq> None \<Longrightarrow> oc_allow_http client \<or> url_scheme api u = ''https'' \<Longrightarrow>
     origin_ok api client (normalize_origin api u)"
  by (simp add: origin_ok_def normalize_origin_laws del: not_None_eq)

lemma collect_body_iff:
  "maximum < 2 ^ 64 - 1 \<Longrightarrow> length body \<le> maximum \<Longrightarrow> collect_body maximum body chunks = Inr r \<longleftrightarrow>
     (\<exists>bs. chunks = map Inr bs \<and> r = body @ concat bs \<and> length r \<le> maximum)"
proof (induction maximum body chunks rule: collect_body.induct)
  case (3 m body chunk chunks)
  have sat: "saturating_add64 (length body) (length chunk) > m \<longleftrightarrow> length body + length chunk > m"
    using "3.prems" unfolding saturating_add64_def by (auto simp: min_def)
  show ?case
  proof (cases "length body + length chunk > m")
    case True
    then show ?thesis using sat by (auto simp: Cons_eq_map_conv)
  next
    case False
    then have "collect_body m body (Inr chunk # chunks) = collect_body m (body @ chunk) chunks" using sat by simp
    moreover have "collect_body m (body @ chunk) chunks = Inr r \<longleftrightarrow>
        (\<exists>bs. chunks = map Inr bs \<and> r = (body @ chunk) @ concat bs \<and> length r \<le> m)"
      using "3.IH" "3.prems" False sat by simp
    ultimately show ?thesis by (auto simp: Cons_eq_map_conv intro: exI [of _ "chunk # _"])
  qed
qed auto

lemma cached_discovery_triple:
  "triple (cache_ok api client) (cached_discovery env hostname)
     (\<lambda>hit s. cache_ok api client s \<and> (\<forall>origin. hit = Some origin \<longrightarrow> origin_ok api client origin))
     (\<lambda>_. cache_ok api client)"
  by (auto simp: triple_iff cached_discovery_def op_defs instant_now_def cache_ok_def Let_def ok_or_def
      split: option.splits if_splits sum.splits prod.splits)

lemma http_get_cache [simp]: "http_get env client url t s = (r, s') \<Longrightarrow> rs_cache s' = rs_cache s \<and> rs_locks s' = rs_locks s"
  by (auto simp: http_get_def split: prod.splits)

lemma fetch_origin_triple:
  assumes "url_laws (env_url env)"
  shows "triple (cache_ok (env_url env) client) (fetch_origin env client url)
     (\<lambda>origin s. cache_ok (env_url env) client s \<and> origin_ok (env_url env) client origin) (\<lambda>_. cache_ok (env_url env) client)"
proof -
  have get: "triple (cache_ok (env_url env) client) (op_map_err RegOutbound (http_get env client url 30))
      (\<lambda>_. cache_ok (env_url env) client) (\<lambda>_. cache_ok (env_url env) client)"
    by (rule triple_map_err) (auto simp: triple_iff cache_ok_def http_get_def split: sum.splits prod.splits)
  show ?thesis
    unfolding fetch_origin_def
    by (rule triple_bind [OF get])
      (auto simp: triple_iff op_defs intro!: origin_ok_normalize [OF assms] split: sum.splits prod.splits if_splits)
qed

lemma store_origin_triple:
  "triple (\<lambda>s. cache_ok api client s \<and> (\<forall>origin. outcome = Inr origin \<longrightarrow> origin_ok api client origin))
     (store_origin env hostname outcome)
     (\<lambda>origin s. cache_ok api client s \<and> origin_ok api client origin) (\<lambda>_. cache_ok api client)"
  by (cases outcome)
    (auto simp: triple_iff store_origin_def op_defs instant_now_def cache_ok_def ok_or_def
      split: option.splits if_splits sum.splits prod.splits)

lemma with_discovery_lock_triple:
  assumes "triple P body Q R"
    and "\<And>s t. P s \<Longrightarrow> P (s\<lparr>rs_locks := t\<rparr>)" "\<And>a s t. Q a s \<Longrightarrow> Q a (s\<lparr>rs_locks := t\<rparr>)" "\<And>e s t. R e s \<Longrightarrow> R e (s\<lparr>rs_locks := t\<rparr>)"
  shows "triple P (with_discovery_lock hostname body) Q R"
  unfolding triple_iff
proof (intro allI impI)
  fix s r s' assume "P s" and run: "with_discovery_lock hostname body s = (r, s')"
  then obtain m table s0 where "body (s\<lparr>rs_locks := table\<rparr>) = (r, s0)" "s' = s0\<lparr>rs_locks := drop_mutex (rs_locks s0) m\<rparr>"
    by (auto simp: with_discovery_lock_def split: prod.splits)
  moreover from this(1) have "case r of Inr a \<Rightarrow> Q a s0 | Inl e \<Rightarrow> R e s0"
    using assms(1) assms(2) [OF \<open>P s\<close>] unfolding triple_iff by blast
  ultimately show "case r of Inr a \<Rightarrow> Q a s' | Inl e \<Rightarrow> R e s'"
    using assms(3,4) by (auto split: sum.splits)
qed

lemma discover_triple:
  assumes "url_laws (env_url env)"
  shows "triple (cache_ok (env_url env) client) (discover env client hostname base)
     (\<lambda>origin s. cache_ok (env_url env) client s \<and> origin_ok (env_url env) client origin) (\<lambda>_. cache_ok (env_url env) client)"
proof -
  let ?I = "cache_ok (env_url env) client"
  have fetch: "triple ?I (op_catch (fetch_origin env client url) (store_origin env hostname))
      (\<lambda>origin s. ?I s \<and> origin_ok (env_url env) client origin) (\<lambda>_. ?I)" for url
    by (rule triple_catch [OF triple_weaken [OF fetch_origin_triple [OF assms]] store_origin_triple]) auto
  have "triple ?I (discover_locked env client hostname base)
      (\<lambda>origin s. ?I s \<and> origin_ok (env_url env) client origin) (\<lambda>_. ?I)"
    unfolding discover_locked_def
  proof (rule triple_bind [OF cached_discovery_triple])
    fix hit
    show "triple (\<lambda>s. ?I s \<and> (\<forall>origin. hit = Some origin \<longrightarrow> origin_ok (env_url env) client origin))
        (case hit of Some origin \<Rightarrow> op_ok origin | None \<Rightarrow>
           op_bind (op_result (map_err RegInvalidOrigin (url_join (env_url env) base ''.well-known/terraform.json'')))
             (\<lambda>url. op_catch (fetch_origin env client url) (store_origin env hostname)))
        (\<lambda>origin s. ?I s \<and> origin_ok (env_url env) client origin) (\<lambda>_. ?I)"
      by (cases hit)
        (auto intro: triple_pre [OF triple_bind [OF keeps_result fetch]] triple_pre [OF triple_ok])
  qed
  then have locked: "triple ?I (with_discovery_lock hostname (discover_locked env client hostname base))
      (\<lambda>origin s. ?I s \<and> origin_ok (env_url env) client origin) (\<lambda>_. ?I)"
    by (rule with_discovery_lock_triple) (auto simp: cache_ok_def)
  show ?thesis
    unfolding discover_def
  proof (rule triple_bind [OF cached_discovery_triple])
    fix hit
    show "triple (\<lambda>s. ?I s \<and> (\<forall>origin. hit = Some origin \<longrightarrow> origin_ok (env_url env) client origin))
        (case hit of Some origin \<Rightarrow> op_ok origin | None \<Rightarrow> with_discovery_lock hostname (discover_locked env client hostname base))
        (\<lambda>origin s. ?I s \<and> origin_ok (env_url env) client origin) (\<lambda>_. ?I)"
      using locked by (cases hit) (auto simp: triple_def op_ok_def)
  qed
qed

subsection \<open>Requests\<close>

lemma requests_cached_discovery: "requests_within env client 0 (cached_discovery env' hostname)"
  unfolding cached_discovery_def by (intro requests_bind0 requests_cases requests_none)

lemma requests_fetch_origin: "requests_within env client (Suc MAX_REDIRECTS) (fetch_origin env client url)"
  unfolding fetch_origin_def
  by (intro requests_bind1 [OF requests_map_err [OF requests_get]] requests_bind0 requests_cases requests_none)

lemma requests_store_origin: "requests_within env client 0 (store_origin env' hostname outcome)"
  unfolding store_origin_def
  by (intro requests_cases requests_bind0 requests_none requests_modify) simp_all

lemma requests_with_discovery_lock:
  assumes "requests_within env client n body"
  shows "requests_within env client n (with_discovery_lock hostname body)"
  unfolding requests_within_def
proof (intro allI impI)
  fix s r s' assume "with_discovery_lock hostname body s = (r, s')"
  then obtain m table s0 where "body (s\<lparr>rs_locks := table\<rparr>) = (r, s0)" "w_sent s' = w_sent s0"
    by (auto simp: with_discovery_lock_def split: prod.splits)
  then show "\<exists>new. w_sent s' = w_sent s @ new \<and> length new \<le> n \<and>
      list_all (\<lambda>u. validate_url (env_url env) client u = Inr ()) new"
    using assms unfolding requests_within_def by fastforce
qed

lemma requests_discover: "requests_within env client (Suc MAX_REDIRECTS) (discover env client hostname base)"
  unfolding discover_def discover_locked_def
  by (intro requests_bind0 [OF requests_cached_discovery] requests_cases requests_with_discovery_lock
      requests_bind0 [OF requests_none(3)] requests_catch1 [OF requests_fetch_origin] requests_store_origin
      requests_mono [OF requests_none(1)]) simp_all

lemma requests_registry_origin:
  "requests_within env (rc_outbound rc) (Suc MAX_REDIRECTS) (registry_origin env rc hostname)"
  unfolding registry_origin_def
  by (intro requests_cases requests_discover requests_mono [OF requests_none(1)] requests_mono [OF requests_none(2)]) simp_all

lemma requests_registry_get:
  "requests_within env (rc_outbound rc) 12 (registry_get env rc hostname relative)"
proof -
  have "requests_within env (rc_outbound rc) (Suc MAX_REDIRECTS + Suc MAX_REDIRECTS) (registry_get env rc hostname relative)"
    unfolding registry_get_def
    by (intro requests_bind [OF requests_registry_origin] requests_bind0 [OF requests_none(3)]
        requests_bind1 [OF requests_map_err [OF requests_get]] requests_cases requests_none)
  then show ?thesis by (simp add: MAX_REDIRECTS_def)
qed

lemma requests_registry_versions:
  "requests_within env (rc_outbound rc) 12 (registry_versions env rc hostname namespace provider_type)"
  unfolding registry_versions_def
  by (intro requests_bind1 [OF requests_registry_get] requests_bind0 requests_cases requests_none)

lemma requests_registry_package:
  "requests_within env (rc_outbound rc) 12 (registry_package env rc hostname namespace provider_type version platform)"
  unfolding registry_package_def
  by (intro requests_bind1 [OF requests_registry_get] requests_none)

subsection \<open>The discovery cache\<close>

lemma cached_discovery_frame:
  "cached_discovery env hostname s = (r, s') \<Longrightarrow>
     rs_cache s' = rs_cache s \<and> w_sent s' = w_sent s \<and> rs_locks s' = rs_locks s"
  by (auto simp: cached_discovery_def op_defs instant_now_def split: option.splits if_splits)

lemma fetch_origin_frame: "fetch_origin env client url s = (r, s') \<Longrightarrow> rs_cache s' = rs_cache s \<and> w_tick s' = w_tick s"
  by (auto simp: fetch_origin_def op_defs http_get_def split: prod.splits sum.splits if_splits)

lemma store_origin_outcome:
  assumes "store_origin env hostname outcome s = (r, s')"
  shows "case outcome of
      Inr origin \<Rightarrow> r = Inr origin \<and> (\<exists>now. rs_cache s' hostname = Some \<lparr>de_origin = Some origin, de_fetched_at = now, de_retry_at = None\<rparr>)
    | Inl error \<Rightarrow> r = ok_or (Option.bind (rs_cache s hostname) de_origin) error \<and>
        (\<exists>entry k. rs_cache s' hostname = Some entry \<and> k < w_tick s' \<and>
           de_retry_at entry = Some (env_instant env k + 30 * second) \<and>
           de_origin entry = Option.bind (rs_cache s hostname) de_origin)"
proof (cases outcome)
  case (Inr origin)
  then show ?thesis using assms by (auto simp: store_origin_def op_defs instant_now_def)
next
  case (Inl error)
  then show ?thesis
    using assms
    by (cases "rs_cache s hostname")
      (auto simp: store_origin_def op_defs instant_now_def intro!: exI [of _ "Suc (w_tick s)"])
qed

text \<open>A call that sends a request has looked in the cache twice in vain, and stores the outcome.\<close>

lemma discover_request:
  fixes s s' :: "('u, 'z) registry_state_scheme"
  assumes "discover env client hostname base s = (r, s')" "w_sent s' \<noteq> w_sent s"
  obtains outcome and s1 s2 :: "('u, 'z) registry_state_scheme" where "rs_cache s1 hostname = rs_cache s hostname"
    "store_origin env hostname outcome s1 = (r, s2)" "rs_cache s' = rs_cache s2" "w_tick s' = w_tick s2"
proof -
  obtain hit sa where a: "cached_discovery env hostname s = (hit, sa)" by fastforce
  note fa = cached_discovery_frame [OF a]
  have "hit = Inr None"
    using assms a fa by (auto simp: discover_def op_bind_def op_ok_def split: sum.splits option.splits)
  then obtain m table sb where b: "discover_locked env client hostname base (sa\<lparr>rs_locks := table\<rparr>) = (r, sb)"
    and s': "s' = sb\<lparr>rs_locks := drop_mutex (rs_locks sb) m\<rparr>"
    using assms(1) a by (auto simp: discover_def op_bind_def with_discovery_lock_def split: prod.splits)
  obtain hit' sc where c: "cached_discovery env hostname (sa\<lparr>rs_locks := table\<rparr>) = (hit', sc)" by fastforce
  note fc = cached_discovery_frame [OF c]
  have sent: "w_sent sb \<noteq> w_sent sc" using assms(2) s' fa fc by simp
  then have "hit' = Inr None"
    using b c by (auto simp: discover_locked_def op_bind_def op_ok_def split: sum.splits option.splits)
  with b c sent obtain url where
    d: "op_catch (fetch_origin env client url) (store_origin env hostname) sc = (r, sb)"
    by (auto simp: discover_locked_def op_bind_def op_result_def split: sum.splits)
  then obtain outcome sd where e: "fetch_origin env client url sc = (outcome, sd)"
    and f: "store_origin env hostname outcome sd = (r, sb)"
    by (auto simp: op_catch_def split: prod.splits)
  show ?thesis
    by (rule that [OF _ f]) (use fetch_origin_frame [OF e] fa fc s' in simp_all)
qed

lemma discover_silent:
  assumes "rs_cache t hostname = Some entry" "de_retry_at entry = Some retry" "env_instant env (w_tick t + 1) < retry"
  shows "\<exists>t'. discover env client hostname base t = (ok_or (de_origin entry) RegDiscoveryBackoff, t') \<and>
     w_sent t' = w_sent t \<and> rs_cache t' = rs_cache t"
  using assms
  by (cases "de_origin entry")
    (auto simp: discover_def cached_discovery_def op_defs instant_now_def ok_or_def)

section \<open>Examples\<close>

text \<open>A registry whose clock stands at one minute and whose document names an origin.\<close>

definition toy_env :: "(string \<times> string \<times> string, unit) registry_env" where
  "toy_env = \<lparr>env_instant = (\<lambda>_. 60 * second), env_epoch = (\<lambda>_. 60), env_io = (\<lambda>_. None),
     env_stamp = (\<lambda>n. \<lparr>st_modified = Some n, st_dev = 0, st_ino = n\<rparr>), env_pid = 1,
     env_url = toy_api, env_send = toy_send,
     env_json_versions = (\<lambda>_. Inr []), env_json_package = (\<lambda>_. Inl []),
     env_json_discovery = (\<lambda>_. Inr None)\<rparr>"

definition toy_client :: "unit outbound_client" where
  "toy_client = \<lparr>oc_mode = TrustedProxy, oc_client = \<lparr>cc_connect_timeout = 10, cc_follow_redirects = False,
      cc_root_certificates = [], cc_no_proxy = False, cc_public_only_resolver = None\<rparr>,
    oc_allow_http = False, oc_allow_non_public_ips = False\<rparr>"

definition toy_registry_state :: "(string \<times> string \<times> string) registry_state" where
  "toy_registry_state = \<lparr>w_tick = 0, w_fs = Map.empty, w_sent = [], w_storage_sequence = 0, w_metadata_sequence = 0,
     rs_cache = Map.empty, rs_locks = empty_lock_table\<rparr>"

lemma url_laws_toy: "url_laws toy_api"
  by (auto simp: url_laws_def toy_api_def)

lemma toy_join: "url_join toy_api u p = Inr (''https'', p, ''/'')"
  by (simp add: toy_api_def)

section \<open>Properties\<close>

text \<open>C32: a response body is decoded exactly when it fits. \<open>decode_json\<close> succeeds if and only if the
  declared length does not exceed the maximum, every chunk arrives, all of them together have at most
  \<open>maximum\<close> bytes and the decoder accepts their concatenation.\<close>

theorem decode_json_exact:
  assumes "maximum < 2 ^ 64 - 1"
  shows "decode_json from_slice response maximum = Inr v \<longleftrightarrow>
     (case resp_content_length response of None \<Rightarrow> True | Some l \<Rightarrow> l \<le> maximum) \<and>
     (\<exists>bodies. resp_chunks response = map Inr bodies \<and> length (concat bodies) \<le> maximum \<and>
        from_slice (concat bodies) = Inr v)"
  using collect_body_iff [OF assms, of "[]"]
  by (auto simp: decode_json_def try_bind_eq_Inr map_err_eq_Inr split: option.splits)

theorem decode_json_exact_witness:
  "decode_json Inr \<lparr>resp_status = 200, resp_url = (), resp_location = None, resp_content_length = Some 3,
     resp_chunks = [Inr [1, 2], Inr [3]]\<rparr> 8 = Inr [1, 2, 3]"
proof -
  have "(8 :: nat) < 2 ^ 64 - 1" by simp
  from decode_json_exact [OF this, of Inr "\<lparr>resp_status = 200, resp_url = (), resp_location = None,
      resp_content_length = Some 3, resp_chunks = [Inr [1, 2], Inr [3]]\<rparr>" "[1, 2, 3]"]
  show ?thesis by (auto intro!: exI [of _ "[[1, 2], [3]]"])
qed

text \<open>C23: discovery only yields usable origins. If every origin in the cache has a host, an HTTPS
  scheme (unless the client is the one for tests) and a path that ends in a slash, then the same holds
  after any call of \<open>discover\<close>, whatever it meets, and the origin it returns is such an origin.\<close>

theorem discover_yields_usable_origins:
  assumes "url_laws (env_url env)" and "cache_ok (env_url env) client s"
    and "discover env client hostname base s = (r, s')"
  shows "cache_ok (env_url env) client s' \<and> (\<forall>origin. r = Inr origin \<longrightarrow> origin_ok (env_url env) client origin)"
  using triple_run [OF discover_triple [OF assms(1)] assms(2,3)] by (auto split: sum.splits)

theorem discover_yields_usable_origins_witness:
  "cache_ok (env_url toy_env) toy_client
     (snd (discover toy_env toy_client ''h'' (''https'', ''h'', ''/'') toy_registry_state))"
proof -
  have "url_laws (env_url toy_env)" by (simp add: toy_env_def url_laws_toy)
  moreover have "cache_ok (env_url toy_env) toy_client toy_registry_state"
    by (simp add: cache_ok_def toy_registry_state_def)
  ultimately show ?thesis
    using discover_yields_usable_origins [of toy_env toy_client toy_registry_state "''h''" "(''https'', ''h'', ''/'')"
        "fst (discover toy_env toy_client ''h'' (''https'', ''h'', ''/'') toy_registry_state)"
        "snd (discover toy_env toy_client ''h'' (''https'', ''h'', ''/'') toy_registry_state)"]
    by simp
qed

text \<open>C33: a failed discovery backs off. When a call of \<open>discover\<close> has sent a request, it has either
  stored the new origin and returned it, or kept the old origin (if any), returned that or else the
  error, and armed a retry time thirty seconds after a reading of the clock; and until that time every
  call for the host is answered from the cache, with the old origin or with \<open>DiscoveryBackoff\<close>, without
  a request.\<close>

theorem discovery_failure_backs_off:
  fixes s s' :: "('u, 'z) registry_state_scheme"
  assumes "discover env client hostname base s = (r, s')" and "w_sent s' \<noteq> w_sent s"
  shows "(\<exists>origin now. r = Inr origin \<and>
      rs_cache s' hostname = Some \<lparr>de_origin = Some origin, de_fetched_at = now, de_retry_at = None\<rparr>) \<or>
    (\<exists>error entry k. r = ok_or (de_origin entry) error \<and> rs_cache s' hostname = Some entry \<and>
      de_origin entry = Option.bind (rs_cache s hostname) de_origin \<and> k < w_tick s' \<and>
      de_retry_at entry = Some (env_instant env k + 30 * second) \<and>
      (\<forall>t :: ('u, 'z) registry_state_scheme. rs_cache t hostname = Some entry \<and> env_instant env (w_tick t + 1) < env_instant env k + 30 * second \<longrightarrow>
        (\<exists>t'. discover env client hostname base t = (ok_or (de_origin entry) RegDiscoveryBackoff, t') \<and>
           w_sent t' = w_sent t \<and> rs_cache t' = rs_cache t)))"
proof -
  from assms obtain outcome and s1 s2 :: "('u, 'z) registry_state_scheme" where *: "rs_cache s1 hostname = rs_cache s hostname"
    "store_origin env hostname outcome s1 = (r, s2)" "rs_cache s' = rs_cache s2" "w_tick s' = w_tick s2"
    by (rule discover_request)
  show ?thesis
  proof (cases outcome)
    case (Inr origin)
    then show ?thesis using store_origin_outcome [OF *(2)] * by auto
  next
    case (Inl error)
    with store_origin_outcome [OF *(2)] * obtain entry k where entry:
      "r = ok_or (de_origin entry) error" "rs_cache s' hostname = Some entry" "k < w_tick s'"
      "de_retry_at entry = Some (env_instant env k + 30 * second)"
      "de_origin entry = Option.bind (rs_cache s hostname) de_origin" by auto
    have silent: "\<exists>t'. discover env client hostname base t = (ok_or (de_origin entry) RegDiscoveryBackoff, t') \<and>
        w_sent t' = w_sent t \<and> rs_cache t' = rs_cache t"
      if "rs_cache t hostname = Some entry \<and> env_instant env (w_tick t + 1) < env_instant env k + 30 * second"
      for t :: "('u, 'z) registry_state_scheme"
      using that by (intro discover_silent [OF _ entry(4)]) simp_all
    show ?thesis
      by (rule disjI2, rule exI [of _ error], rule exI [of _ entry], rule exI [of _ k])
        (intro conjI allI impI entry silent; elim conjE; assumption)
  qed
qed

theorem discovery_failure_backs_off_witness:
  "\<exists>r s' entry. discover toy_env toy_client ''h'' (''https'', ''h'', ''/'') toy_registry_state = (r, s') \<and>
     w_sent s' \<noteq> [] \<and> rs_cache s' ''h'' = Some entry \<and> de_retry_at entry \<noteq> None"
proof -
  obtain r and s' :: "(string \<times> string \<times> string) registry_state" where
    run: "discover toy_env toy_client ''h'' (''https'', ''h'', ''/'') toy_registry_state = (r, s')" by fastforce
  have get: "\<exists>response. outbound_get toy_api toy_send toy_client (''https'', ''.well-known/terraform.json'', ''/'') 30 [] =
      (Inr response, [(''https'', ''.well-known/terraform.json'', ''/'')]) \<and> resp_status response = 200 \<and>
      resp_content_length response = None \<and> resp_chunks response = []"
    unfolding outbound_get_def MAX_REDIRECTS_def
    by (subst get_loop.simps) (simp add: validate_url_def toy_api_def toy_send_def toy_client_def is_redirect_def)
  have "w_sent s' \<noteq> [] \<and> r = Inl (RegInvalidResponse ''Terraform discovery document is missing providers.v1'')"
    using run get
    by (auto simp: discover_def discover_locked_def with_discovery_lock_def cached_discovery_def fetch_origin_def store_origin_def
        op_defs instant_now_def http_get_def toy_env_def toy_registry_state_def lock_for_def empty_lock_table_def Let_def
        error_for_status_def decode_json_def toy_join)
  moreover have "w_sent toy_registry_state = []" by (simp add: toy_registry_state_def)
  ultimately show ?thesis using discovery_failure_backs_off [OF run] run by auto
qed

end
