(* ===== verification/Metadata_Validation.thy ===== *)
theory Metadata_Validation
  imports Registry Archive_Name
begin

text \<open>
  The data of the metadata service and its validators (\<^verbatim>\<open>src/src/metadata.rs\<close>): provider addresses,
  version lists from a registry or from disk, packages, the order of versions and the paths of the
  persisted files. The \<^verbatim>\<open>semver\<close> crate is the parameter \<open>semver_api\<close>.
\<close>

section \<open>Definitions\<close>

datatype metadata_error =
    MdNotFound
  | MdInvalidAddress string
  | MdRegistryNotAllowed string
  | MdSyncInProgress
  | MdSyncFailed nat
  | MdRegistry registry_error
  | MdIo io_error
  | MdJson string
  | MdRefreshBackoff

record version_metadata =
  vm_hostname :: string
  vm_namespace :: string
  vm_provider_type :: string
  vm_version :: string
  vm_platforms :: "platform_metadata list"

record provider_key =
  pk_hostname :: string
  pk_namespace :: string
  pk_provider_type :: string

record version_key =
  vk_provider :: provider_key
  vk_version :: string

record 'a cache_entry =
  ce_fetched_at :: nat
  ce_complete :: bool
  ce_value :: 'a

datatype cmp_ordering = CmpLess | CmpEqual | CmpGreater

record 'v semver_api =
  sv_parse :: "'v semver_parser"
  sv_cmp :: "'v \<Rightarrow> 'v \<Rightarrow> cmp_ordering"

subsection \<open>Addresses\<close>

definition valid_component :: "string \<Rightarrow> bool" where
  "valid_component value \<longleftrightarrow>
     value \<noteq> [] \<and> length value \<le> 100 \<and>
     list_all (\<lambda>b. is_ascii_alphanumeric b \<or> b \<in> {CHR ''-'', CHR ''_'', CHR ''.''}) value \<and>
     value \<noteq> ''.'' \<and> value \<noteq> ''..''"

definition valid_version :: "string \<Rightarrow> bool" where
  "valid_version value \<longleftrightarrow>
     value \<noteq> [] \<and> length value \<le> 100 \<and>
     list_all (\<lambda>b. is_ascii_alphanumeric b \<or> b \<in> {CHR ''.'', CHR ''-'', CHR ''+''}) value \<and>
     value \<noteq> ''.'' \<and> value \<noteq> ''..''"

definition validate_hostname :: "string \<Rightarrow> (metadata_error, unit) result" where
  "validate_hostname value =
     (if value = [] \<or> length value > 253 \<or> list_ex (\<lambda>part. \<not> valid_component part) (split_on CHR ''.'' value)
      then Inl (MdInvalidAddress ''hostname'') else Inr ())"

definition validate_component :: "string \<Rightarrow> string \<Rightarrow> (metadata_error, unit) result" where
  "validate_component value name =
     (if \<not> valid_component value then Inl (MdInvalidAddress name) else Inr ())"

definition validate_version :: "string \<Rightarrow> string \<Rightarrow> (metadata_error, unit) result" where
  "validate_version value name =
     (if \<not> valid_version (strip_v value) then Inl (MdInvalidAddress name) else Inr ())"

definition validate_platform_component :: "string \<Rightarrow> string \<Rightarrow> (metadata_error, unit) result" where
  "validate_platform_component value name =
     (if value = [] \<or> length value > 32 \<or>
         \<not> list_all (\<lambda>b. is_ascii_lowercase b \<or> is_ascii_digit b \<or> b \<in> {CHR ''_'', CHR ''-''}) value
      then Inl (MdInvalidAddress name) else Inr ())"

subsection \<open>Packages and version lists\<close>

definition checksum_ok :: "string \<Rightarrow> bool" where
  "checksum_ok checksum \<longleftrightarrow> length checksum = 64 \<and> list_all is_ascii_hexdigit checksum"

definition validate_package ::
  "'u url_api \<Rightarrow> 'v semver_parser \<Rightarrow> version_key \<Rightarrow> registry_platform \<Rightarrow> platform_metadata \<Rightarrow> (metadata_error, unit) result" where
  "validate_package api semver key requested package =
     (if pm_os package \<noteq> rp_os requested \<or> pm_arch package \<noteq> rp_arch requested
      then Inl (MdInvalidAddress ''package platform does not match request'')
      else case parse_archive semver (pk_provider_type (vk_provider key)) (pm_filename package) of
        Inl _ \<Rightarrow> Inl (MdInvalidAddress ''package filename'')
      | Inr archive \<Rightarrow>
          (if an_version archive \<noteq> vk_version key \<or> an_os archive \<noteq> rp_os requested \<or>
              an_arch archive \<noteq> rp_arch requested \<or> an_provider_type archive \<noteq> pk_provider_type (vk_provider key)
           then Inl (MdInvalidAddress ''package filename does not match request'')
           else if \<not> (case pm_shasum package of None \<Rightarrow> False | Some checksum \<Rightarrow> checksum_ok checksum)
           then Inl (MdInvalidAddress ''package checksum'')
           else case url_parse api (pm_download_url package) of
             Inl _ \<Rightarrow> Inl (MdInvalidAddress ''package download URL'')
           | Inr url \<Rightarrow>
               (if url_scheme api url \<noteq> ''https'' \<or> url_host_str api url = None
                then Inl (MdInvalidAddress ''package download URL policy'')
                else Inr ())))"

definition validate_platform :: "registry_platform \<Rightarrow> (metadata_error, unit) result" where
  "validate_platform platform =
     try_bind (validate_platform_component (rp_os platform) ''operating system'') (\<lambda>_.
       validate_platform_component (rp_arch platform) ''architecture'')"

definition validate_registry_version :: "registry_version \<Rightarrow> (metadata_error, unit) result" where
  "validate_registry_version version =
     try_bind (validate_version (rv_version version) ''version'') (\<lambda>_.
       if length (rv_platforms version) > 128 then Inl (MdInvalidAddress ''too many provider platforms'')
       else try_all validate_platform (rv_platforms version))"

definition validate_registry_versions :: "registry_version list \<Rightarrow> (metadata_error, unit) result" where
  "validate_registry_versions versions =
     (if length versions > 4096 then Inl (MdInvalidAddress ''too many provider versions'')
      else try_all validate_registry_version versions)"

definition platform_of :: "platform_metadata \<Rightarrow> registry_platform" where
  "platform_of platform = \<lparr>rp_os = pm_os platform, rp_arch = pm_arch platform\<rparr>"

definition validate_version_metadata ::
  "'u url_api \<Rightarrow> 'v semver_parser \<Rightarrow> version_key \<Rightarrow> version_metadata \<Rightarrow> (metadata_error, unit) result" where
  "validate_version_metadata api semver key metadata =
     (if vm_hostname metadata \<noteq> pk_hostname (vk_provider key) \<or>
         vm_namespace metadata \<noteq> pk_namespace (vk_provider key) \<or>
         vm_provider_type metadata \<noteq> pk_provider_type (vk_provider key)
      then Inl (MdInvalidAddress ''persisted provider metadata identity'')
      else try_bind (validate_version (vm_version metadata) ''version'') (\<lambda>_.
        if strip_v (vm_version metadata) \<noteq> vk_version key
        then Inl (MdInvalidAddress ''persisted provider metadata version'')
        else if length (vm_platforms metadata) > 128 then Inl (MdInvalidAddress ''too many provider platforms'')
        else try_all (\<lambda>platform. validate_package api semver key (platform_of platform) platform)
               (vm_platforms metadata)))"

subsection \<open>The order of versions\<close>

fun str_cmp :: "string \<Rightarrow> string \<Rightarrow> cmp_ordering" where
  "str_cmp [] [] = CmpEqual"
| "str_cmp [] (b # bs) = CmpLess"
| "str_cmp (a # as) [] = CmpGreater"
| "str_cmp (a # as) (b # bs) =
     (if (of_char a :: nat) < of_char b then CmpLess
      else if (of_char b :: nat) < of_char a then CmpGreater else str_cmp as bs)"

definition compare_versions :: "'v semver_api \<Rightarrow> string \<Rightarrow> string \<Rightarrow> cmp_ordering" where
  "compare_versions sv a b = (case (sv_parse sv a, sv_parse sv b) of
     (Some va, Some vb) \<Rightarrow> sv_cmp sv va vb
   | (Some _, None) \<Rightarrow> CmpLess
   | (None, Some _) \<Rightarrow> CmpGreater
   | (None, None) \<Rightarrow> str_cmp a b)"

text \<open>\<open>slice::sort_by\<close> is a stable sort: an element moves in front of those it is less than.\<close>

fun insert_by :: "('a \<Rightarrow> 'a \<Rightarrow> cmp_ordering) \<Rightarrow> 'a \<Rightarrow> 'a list \<Rightarrow> 'a list" where
  "insert_by cmp x [] = [x]"
| "insert_by cmp x (y # ys) = (if cmp y x = CmpLess then y # insert_by cmp x ys else x # y # ys)"

definition sort_by :: "('a \<Rightarrow> 'a \<Rightarrow> cmp_ordering) \<Rightarrow> 'a list \<Rightarrow> 'a list" where
  "sort_by cmp xs = foldr (insert_by cmp) xs []"

subsection \<open>Errors\<close>

fun map_registry :: "registry_error \<Rightarrow> metadata_error" where
  "map_registry RegNotFound = MdNotFound"
| "map_registry e = MdRegistry e"

fun should_backoff :: "metadata_error \<Rightarrow> bool" where
  "should_backoff MdNotFound = False"
| "should_backoff (MdInvalidAddress _) = False"
| "should_backoff (MdRegistryNotAllowed _) = False"
| "should_backoff _ = True"

subsection \<open>Paths\<close>

definition provider_dir :: "string \<Rightarrow> provider_key \<Rightarrow> string" where
  "provider_dir data_dir key =
     path_join (path_join (path_join data_dir (pk_hostname key)) (pk_namespace key)) (pk_provider_type key)"

definition index_path :: "string \<Rightarrow> provider_key \<Rightarrow> string" where
  "index_path data_dir key = path_join (provider_dir data_dir key) ''index.json''"

definition version_path :: "string \<Rightarrow> version_key \<Rightarrow> string" where
  "version_path data_dir key = path_join (provider_dir data_dir (vk_provider key)) (vk_version key @ ''.json'')"

section \<open>Comparisons\<close>

text \<open>The contract of a comparison function, and what \<open>sort_by\<close> makes of it.\<close>

locale total_comparison =
  fixes cmp :: "'a \<Rightarrow> 'a \<Rightarrow> cmp_ordering"
  assumes equal_iff: "cmp a b = CmpEqual \<longleftrightarrow> a = b"
    and flip: "cmp a b = CmpLess \<longleftrightarrow> cmp b a = CmpGreater"
    and less_trans: "cmp a b = CmpLess \<Longrightarrow> cmp b c = CmpLess \<Longrightarrow> cmp a c = CmpLess"
begin

lemma not_less: "cmp a b \<noteq> CmpLess \<Longrightarrow> a = b \<or> cmp b a = CmpLess"
  using equal_iff flip by (cases "cmp a b") auto

lemma irrefl: "cmp a a \<noteq> CmpLess"
  using equal_iff [of a a] by simp

lemma set_insert_by: "set (insert_by cmp x xs) = insert x (set xs)"
  by (induction xs) auto

lemma set_sort_by: "set (sort_by cmp xs) = set xs"
  by (induction xs) (auto simp: sort_by_def set_insert_by)

lemma insert_by_sorted:
  "sorted_wrt (\<lambda>a b. cmp a b = CmpLess) xs \<Longrightarrow> x \<notin> set xs \<Longrightarrow>
     sorted_wrt (\<lambda>a b. cmp a b = CmpLess) (insert_by cmp x xs)"
proof (induction xs)
  case (Cons y ys)
  show ?case
  proof (cases "cmp y x = CmpLess")
    case True
    then show ?thesis using Cons by (auto simp: set_insert_by)
  next
    case False
    then have "cmp x y = CmpLess" using not_less Cons.prems(2) by fastforce
    then show ?thesis using Cons.prems(1) False by (auto intro: less_trans)
  qed
qed simp

lemma sort_by_sorted: "distinct xs \<Longrightarrow> sorted_wrt (\<lambda>a b. cmp a b = CmpLess) (sort_by cmp xs)"
proof (induction xs)
  case (Cons x xs)
  then show ?case using insert_by_sorted [of "sort_by cmp xs" x] set_sort_by [of xs] by (simp add: sort_by_def)
qed (simp add: sort_by_def)

lemma sorted_unique:
  "sorted_wrt (\<lambda>a b. cmp a b = CmpLess) xs \<Longrightarrow> sorted_wrt (\<lambda>a b. cmp a b = CmpLess) ys \<Longrightarrow>
     set xs = set ys \<Longrightarrow> xs = ys"
proof (induction xs arbitrary: ys)
  case (Cons x xs)
  then obtain y ys' where ys: "ys = y # ys'" by (cases ys) auto
  have no: "\<not> (cmp a b = CmpLess \<and> cmp b a = CmpLess)" for a b using less_trans irrefl by blast
  have "x = y"
  proof (rule ccontr)
    assume "x \<noteq> y"
    then have "x \<in> set ys'" "y \<in> set xs" using Cons.prems(3) ys by auto
    then have "cmp y x = CmpLess" "cmp x y = CmpLess" using Cons.prems(1,2) ys by auto
    then show False using no by blast
  qed
  moreover have "x \<notin> set xs" "y \<notin> set ys'" using Cons.prems(1,2) ys irrefl by auto
  ultimately have "set xs = set ys'" using Cons.prems(3) ys by auto
  then show ?case using Cons.IH [of ys'] Cons.prems(1,2) ys \<open>x = y\<close> by simp
qed simp

lemma sort_by_unique:
  "distinct xs \<Longrightarrow> distinct ys \<Longrightarrow> set xs = set ys \<Longrightarrow> sort_by cmp xs = sort_by cmp ys"
  by (rule sorted_unique) (simp_all add: sort_by_sorted set_sort_by)

end

lemma str_cmp_equal: "str_cmp a b = CmpEqual \<longleftrightarrow> a = b"
  by (induction a b rule: str_cmp.induct) (auto simp: not_less)

lemma str_cmp_flip: "str_cmp a b = CmpLess \<longleftrightarrow> str_cmp b a = CmpGreater"
  by (induction a b rule: str_cmp.induct) auto

lemma str_cmp_less_Cons:
  "str_cmp (a # as) (b # bs) = CmpLess \<longleftrightarrow>
     (of_char a :: nat) < of_char b \<or> \<not> (of_char b :: nat) < of_char a \<and> str_cmp as bs = CmpLess"
  by auto

lemma str_cmp_trans: "str_cmp a b = CmpLess \<Longrightarrow> str_cmp b c = CmpLess \<Longrightarrow> str_cmp a c = CmpLess"
proof (induction a b arbitrary: c rule: str_cmp.induct)
  case (2 b bs)
  then show ?case by (cases c) auto
next
  case (4 a as b bs)
  show ?case
  proof (cases c)
    case (Cons x xs)
    note less = "4.prems" [unfolded Cons str_cmp_less_Cons]
    have "str_cmp as xs = CmpLess" if "\<not> (of_char a :: nat) < of_char b" "\<not> (of_char b :: nat) < of_char a"
      "str_cmp as bs = CmpLess" "str_cmp bs xs = CmpLess"
      using "4.IH" that by blast
    with less show ?thesis unfolding Cons str_cmp_less_Cons by linarith
  qed (use "4.prems" in simp)
qed auto

interpretation str_order: total_comparison str_cmp
  by unfold_locales (fact str_cmp_equal, fact str_cmp_flip, fact str_cmp_trans)

text \<open>What the code relies on of \<^verbatim>\<open>semver\<close>: \<open>Version\<close> is totally ordered, and a string is determined by the
  version it parses to.\<close>

definition semver_laws :: "'v semver_api \<Rightarrow> bool" where
  "semver_laws sv \<longleftrightarrow> total_comparison (sv_cmp sv) \<and>
     (\<forall>a b v. sv_parse sv a = Some v \<longrightarrow> sv_parse sv b = Some v \<longrightarrow> a = b)"

lemma compare_versions_total:
  assumes "semver_laws sv"
  shows "total_comparison (compare_versions sv)"
proof -
  note semver = assms [unfolded semver_laws_def]
  note cmp = semver [THEN conjunct1]
  note eq = total_comparison.equal_iff [OF cmp] and fl = total_comparison.flip [OF cmp]
    and tr = total_comparison.less_trans [OF cmp]
  show ?thesis
  proof
    fix a b c
    show "compare_versions sv a b = CmpEqual \<longleftrightarrow> a = b"
      using semver eq by (auto simp: compare_versions_def str_cmp_equal split: option.splits)
    show "compare_versions sv a b = CmpLess \<longleftrightarrow> compare_versions sv b a = CmpGreater"
      using fl by (auto simp: compare_versions_def str_cmp_flip split: option.splits)
    show "compare_versions sv a c = CmpLess" if "compare_versions sv a b = CmpLess" "compare_versions sv b c = CmpLess"
      using that tr by (auto simp: compare_versions_def intro: str_cmp_trans split: option.splits)
  qed
qed

section \<open>Lemmas on the validators\<close>

lemma validate_package_iff:
  "validate_package api semver key requested package = Inr () \<longleftrightarrow>
     pm_os package = rp_os requested \<and> pm_arch package = rp_arch requested \<and>
     parse_archive semver (pk_provider_type (vk_provider key)) (pm_filename package) =
       Inr \<lparr>an_provider_type = pk_provider_type (vk_provider key), an_version = vk_version key,
            an_os = rp_os requested, an_arch = rp_arch requested\<rparr> \<and>
     (\<exists>checksum. pm_shasum package = Some checksum \<and> checksum_ok checksum) \<and>
     (\<exists>url. url_parse api (pm_download_url package) = Inr url \<and> url_scheme api url = ''https'' \<and>
        url_host_str api url \<noteq> None)"
  by (auto simp: validate_package_def split: sum.splits option.splits if_splits)

lemma validate_version_ok: "validate_version v name = Inr () \<longleftrightarrow> valid_version (strip_v v)"
  by (simp add: validate_version_def)

lemma validate_component_ok: "validate_component c name = Inr () \<longleftrightarrow> valid_component c"
  by (simp add: validate_component_def)

lemma validate_registry_versions_iff:
  "validate_registry_versions versions = Inr () \<longleftrightarrow>
     length versions \<le> 4096 \<and>
     (\<forall>v \<in> set versions. valid_version (strip_v (rv_version v)) \<and> length (rv_platforms v) \<le> 128 \<and>
        (\<forall>p \<in> set (rv_platforms v). validate_platform p = Inr ()))"
  by (auto simp: validate_registry_versions_def validate_registry_version_def try_all_ok try_bind_eq_Inr
      validate_version_ok)

lemma validate_version_metadata_iff:
  "validate_version_metadata api semver key m = Inr () \<longleftrightarrow>
     vm_hostname m = pk_hostname (vk_provider key) \<and> vm_namespace m = pk_namespace (vk_provider key) \<and>
     vm_provider_type m = pk_provider_type (vk_provider key) \<and> valid_version (strip_v (vm_version m)) \<and>
     strip_v (vm_version m) = vk_version key \<and> length (vm_platforms m) \<le> 128 \<and>
     (\<forall>p \<in> set (vm_platforms m). validate_package api semver key (platform_of p) p = Inr ())"
  by (auto simp: validate_version_metadata_def try_bind_eq_Inr validate_version_ok try_all_ok)

subsection \<open>Paths\<close>

text \<open>A component that names an entry of its directory and nothing else.\<close>

definition safe_component :: "string \<Rightarrow> bool" where
  "safe_component c \<longleftrightarrow> c \<noteq> [] \<and> CHR ''/'' \<notin> set c \<and> c \<noteq> ''.'' \<and> c \<noteq> ''..''"

definition proper_dir :: "string \<Rightarrow> bool" where
  "proper_dir d \<longleftrightarrow> d \<noteq> [] \<and> last d \<noteq> CHR ''/''"

lemma path_join_safe [simp]: "safe_component c \<Longrightarrow> proper_dir d \<Longrightarrow> path_join d c = d @ CHR ''/'' # c"
  by (cases c) (auto simp: path_join_def safe_component_def proper_dir_def)

lemma proper_dir_simps [simp]:
  "proper_dir (a @ b) = (if b = [] then proper_dir a else proper_dir b)"
  "proper_dir (x # b) = (if b = [] then x \<noteq> CHR ''/'' else proper_dir b)"
  by (auto simp: proper_dir_def)

lemma safe_component_proper [simp]: "safe_component c \<Longrightarrow> proper_dir c"
  using last_in_set by (force simp: safe_component_def proper_dir_def)

lemma slash_class:
  "\<not> is_ascii_alphanumeric CHR ''/''"
  by (simp add: char_defs)

lemma valid_component_safe: "valid_component c \<Longrightarrow> safe_component c"
  using slash_class by (auto simp: valid_component_def safe_component_def list_all_iff)

lemma valid_version_safe: "valid_version v \<Longrightarrow> safe_component (v @ ''.json'')"
  using slash_class by (auto simp: valid_version_def safe_component_def list_all_iff)

lemma split_on_singleton: "split_on c s = [s'] \<Longrightarrow> s = s'"
proof (induction c s arbitrary: s' rule: split_on.induct)
  case (2 c x s)
  then show ?case by (auto split: if_splits list.splits)
qed auto

lemma validate_hostname_safe:
  assumes "validate_hostname h = Inr ()"
  shows "safe_component h"
proof -
  have parts: "\<And>p. p \<in> set (split_on CHR ''.'' h) \<Longrightarrow> valid_component p" and "h \<noteq> []"
    using assms by (auto simp: validate_hostname_def list_ex_iff split: if_splits)
  have "CHR ''/'' \<notin> set h"
  proof
    assume "CHR ''/'' \<in> set h"
    then obtain p where "p \<in> set (split_on CHR ''.'' h)" "CHR ''/'' \<in> set p"
      using split_on_chars [of h "CHR ''.''"] by auto
    then show False using parts valid_component_safe by (auto simp: safe_component_def)
  qed
  moreover have "h \<noteq> ''.''" "h \<noteq> ''..''"
    using parts [of "[]"] by (auto simp: valid_component_def)
  ultimately show ?thesis using \<open>h \<noteq> []\<close> by (simp add: safe_component_def)
qed

definition key_ok :: "provider_key \<Rightarrow> bool" where
  "key_ok key \<longleftrightarrow> validate_hostname (pk_hostname key) = Inr () \<and> valid_component (pk_namespace key) \<and>
     valid_component (pk_provider_type key)"

lemma key_ok_safe:
  "key_ok key \<Longrightarrow> safe_component (pk_hostname key) \<and> safe_component (pk_namespace key) \<and> safe_component (pk_provider_type key)"
  by (auto simp: key_ok_def intro: validate_hostname_safe valid_component_safe)

lemma safe_component_nonempty [simp]: "safe_component c \<Longrightarrow> c \<noteq> []"
  by (simp add: safe_component_def)

lemma provider_dir_eq:
  assumes "proper_dir d" "key_ok key"
  shows "provider_dir d key = d @ CHR ''/'' # pk_hostname key @ CHR ''/'' # pk_namespace key @ CHR ''/'' # pk_provider_type key"
    and "proper_dir (provider_dir d key)"
  using key_ok_safe [OF assms(2)] assms(1) by (simp_all add: provider_dir_def)

lemma separator_unique:
  "c \<notin> set a \<Longrightarrow> c \<notin> set a' \<Longrightarrow> a @ c # b = a' @ c # b' \<Longrightarrow> a = a' \<and> b = b'"
proof (induction a arbitrary: a')
  case Nil
  then show ?case by (cases a') auto
next
  case (Cons x a)
  then show ?case by (cases a') auto
qed

text \<open>The path of a file in the directory of a provider determines the provider and the file.\<close>

lemma provider_file_unique:
  assumes d: "proper_dir d" and keys: "key_ok key" "key_ok key'"
    and eq: "provider_dir d key @ CHR ''/'' # f = provider_dir d key' @ CHR ''/'' # f'"
  shows "key = key' \<and> f = f'"
proof -
  have no: "CHR ''/'' \<notin> set (pk_hostname k)" "CHR ''/'' \<notin> set (pk_namespace k)" "CHR ''/'' \<notin> set (pk_provider_type k)"
    if "key_ok k" for k using key_ok_safe [OF that] by (simp_all add: safe_component_def)
  note no = no [OF keys(1)] no [OF keys(2)]
  from eq have "pk_hostname key @ CHR ''/'' # pk_namespace key @ CHR ''/'' # pk_provider_type key @ CHR ''/'' # f =
      pk_hostname key' @ CHR ''/'' # pk_namespace key' @ CHR ''/'' # pk_provider_type key' @ CHR ''/'' # f'"
    using provider_dir_eq(1) [OF d] keys by simp
  from separator_unique [OF no(1) no(4) this] have 1: "pk_hostname key = pk_hostname key'"
    and e2: "pk_namespace key @ CHR ''/'' # pk_provider_type key @ CHR ''/'' # f =
      pk_namespace key' @ CHR ''/'' # pk_provider_type key' @ CHR ''/'' # f'" by simp_all
  from separator_unique [OF no(2) no(5) e2] have 2: "pk_namespace key = pk_namespace key'"
    and e3: "pk_provider_type key @ CHR ''/'' # f = pk_provider_type key' @ CHR ''/'' # f'" by simp_all
  from separator_unique [OF no(3) no(6) e3] 1 2 show ?thesis by simp
qed

lemma metadata_path_eq:
  assumes "proper_dir d"
  shows "key_ok key \<Longrightarrow> index_path d key = provider_dir d key @ CHR ''/'' # ''index.json''"
    and "key_ok (vk_provider vkey) \<Longrightarrow> valid_version (vk_version vkey) \<Longrightarrow>
      version_path d vkey = provider_dir d (vk_provider vkey) @ CHR ''/'' # vk_version vkey @ ''.json''"
  using provider_dir_eq(2) [OF assms] valid_version_safe
  by (simp_all add: index_path_def version_path_def safe_component_def [of "''index.json''"])

section \<open>Properties\<close>

text \<open>C22: the persisted files of valid keys stay in the data directory and apart. The path of an index
  or of a version file has the data directory, the three components of the provider and one file name,
  none of them empty, \<open>.\<close>, \<open>..\<close> or with a slash inside; and two valid keys share a path only if they are
  equal, except that the file of a version named \<open>index\<close> is the index of its provider.\<close>

theorem metadata_paths_safe:
  assumes "proper_dir d" and "key_ok (vk_provider key)" and "valid_version (vk_version key)"
    and "key_ok (vk_provider key')" and "valid_version (vk_version key')"
  shows "(\<exists>file. safe_component file \<and> version_path d key = d @ CHR ''/'' # pk_hostname (vk_provider key) @
       CHR ''/'' # pk_namespace (vk_provider key) @ CHR ''/'' # pk_provider_type (vk_provider key) @ CHR ''/'' # file) \<and>
    safe_component (pk_hostname (vk_provider key)) \<and> safe_component (pk_namespace (vk_provider key)) \<and>
    safe_component (pk_provider_type (vk_provider key)) \<and>
    (version_path d key = version_path d key' \<longrightarrow> key = key') \<and>
    (index_path d (vk_provider key) = index_path d (vk_provider key') \<longrightarrow> vk_provider key = vk_provider key') \<and>
    (version_path d key = index_path d (vk_provider key') \<longleftrightarrow>
       vk_provider key = vk_provider key' \<and> vk_version key = ''index'')"
proof -
  note eqs = metadata_path_eq [OF assms(1)]
  have v: "version_path d key = provider_dir d (vk_provider key) @ CHR ''/'' # vk_version key @ ''.json''"
    "version_path d key' = provider_dir d (vk_provider key') @ CHR ''/'' # vk_version key' @ ''.json''"
    and i: "index_path d (vk_provider key) = provider_dir d (vk_provider key) @ CHR ''/'' # ''index.json''"
    "index_path d (vk_provider key') = provider_dir d (vk_provider key') @ CHR ''/'' # ''index.json''"
    using eqs assms by simp_all
  note unique = provider_file_unique [OF assms(1,2,4)]
  have "version_path d key = version_path d key' \<longrightarrow> key = key'"
    using unique unfolding v by (metis append_same_eq version_key.equality old.unit.exhaust)
  moreover have "index_path d (vk_provider key) = index_path d (vk_provider key') \<longrightarrow> vk_provider key = vk_provider key'"
    using unique unfolding i by blast
  moreover have "version_path d key = index_path d (vk_provider key') \<longleftrightarrow>
      vk_provider key = vk_provider key' \<and> vk_version key = ''index''"
  proof -
    have "vk_version key @ ''.json'' = ''index.json'' \<longleftrightarrow> vk_version key = ''index''"
      using append_same_eq [of "vk_version key" "''.json''" "''index''"] by simp
    then show ?thesis using unique [of "vk_version key @ ''.json''" "''index.json''"] unfolding v i by fastforce
  qed
  moreover have "safe_component (vk_version key @ ''.json'')" using assms(3) by (rule valid_version_safe)
  ultimately show ?thesis using key_ok_safe [OF assms(2)] v(1) provider_dir_eq(1) [OF assms(1,2)] by auto
qed

theorem metadata_paths_safe_witness:
  "\<exists>key. key_ok (vk_provider key) \<and> valid_version (vk_version key) \<and>
     version_path ''/data/metadata'' key = index_path ''/data/metadata'' (vk_provider key)"
proof -
  define key where "key = \<lparr>vk_provider = \<lparr>pk_hostname = ''a.io'', pk_namespace = ''b'', pk_provider_type = ''c''\<rparr>,
    vk_version = ''index''\<rparr>"
  have dir: "proper_dir ''/data/metadata''" by (simp add: proper_dir_def)
  have provider: "key_ok (vk_provider key)"
    by (simp add: key_def key_ok_def validate_hostname_def valid_component_def char_defs)
  have version: "valid_version (vk_version key)" by (simp add: key_def valid_version_def char_defs)
  have "version_path ''/data/metadata'' key = index_path ''/data/metadata'' (vk_provider key) \<longleftrightarrow>
      vk_provider key = vk_provider key \<and> vk_version key = ''index''"
    using metadata_paths_safe [OF dir provider version provider version] by (elim conjE)
  moreover have "vk_version key = ''index''" by (simp add: key_def)
  ultimately show ?thesis using provider version by blast
qed

end
