(* ===== verification/Metadata_Store.thy ===== *)
theory Metadata_Store
  imports Metadata_Validation
begin

text \<open>
  The JSON files of the metadata service (\<^verbatim>\<open>metadata.rs\<close>: \<open>read_json\<close>, \<open>write_json_atomic\<close>,
  \<open>sync_parent\<close>). The encoder and the decoder of \<^verbatim>\<open>serde_json\<close> are parameters. A write that the
  system refuses leaves the temporary file as it was before it.
\<close>

section \<open>Definitions\<close>

definition sync_parent :: "('u, 'c, 'y) env_scheme \<Rightarrow> string \<Rightarrow> (('u, 'z) world_scheme, io_error, unit) oper" where
  "sync_parent env parent = op_bind (open_file env parent) (\<lambda>_. file_step env)"

definition read_json ::
  "('u, 'c, 'y) env_scheme \<Rightarrow> (octet list \<Rightarrow> (string, 'a) result) \<Rightarrow> string \<Rightarrow>
     (('u, 'z) world_scheme, metadata_error, 'a option) oper" where
  "read_json env from_slice path =
     op_catch (read_file env path) (\<lambda>r. case r of
       Inr bytes \<Rightarrow> (case from_slice bytes of Inr a \<Rightarrow> op_ok (Some a) | Inl _ \<Rightarrow> op_ok None)
     | Inl IoNotFound \<Rightarrow> op_ok None
     | Inl e \<Rightarrow> op_err (MdIo e))"

definition metadata_temp_name :: "nat \<Rightarrow> nat \<Rightarrow> string" where
  "metadata_temp_name pid sequence = ''.metadata-'' @ dec_digits pid @ ''-'' @ dec_digits sequence @ ''.tmp''"

definition next_metadata_sequence :: "(('u, 'z) world_scheme, 'e, nat) oper" where
  "next_metadata_sequence =
     (\<lambda>s. (Inr (w_metadata_sequence s), s\<lparr>w_metadata_sequence := wrapping_inc64 (w_metadata_sequence s)\<rparr>))"

text \<open>A step of the write; when it fails, the temporary file is removed if that is possible.\<close>

definition or_remove ::
  "('u, 'c, 'y) env_scheme \<Rightarrow> string \<Rightarrow> (('u, 'z) world_scheme, io_error, unit) oper \<Rightarrow>
     (('u, 'z) world_scheme, metadata_error, unit) oper" where
  "or_remove env temp step =
     op_catch step (\<lambda>r. case r of
       Inr _ \<Rightarrow> op_ok ()
     | Inl e \<Rightarrow> op_catch (remove_file env temp) (\<lambda>_. op_err (MdIo e)))"

definition write_json_atomic ::
  "('u, 'c, 'y) env_scheme \<Rightarrow> string \<Rightarrow> (string, octet list) result \<Rightarrow>
     (('u, 'z) world_scheme, metadata_error, unit) oper" where
  "write_json_atomic env path encoded =
     (let parent = path_parent path in
      op_bind (op_map_err MdIo (create_dir_all env parent)) (\<lambda>_.
      op_bind next_metadata_sequence (\<lambda>sequence.
        let temp = path_join parent (metadata_temp_name (env_pid env) sequence) in
        op_bind (op_result (map_err MdJson encoded)) (\<lambda>bytes.
        op_bind (op_map_err MdIo (create_new_file env temp)) (\<lambda>_.
        op_bind (or_remove env temp (append_file env temp bytes)) (\<lambda>_.
        op_bind (or_remove env temp (file_step env)) (\<lambda>_.
        op_bind (or_remove env temp (rename_file env temp path)) (\<lambda>_.
        op_map_err MdIo (sync_parent env parent)))))))))"

section \<open>Lemmas\<close>

text \<open>What a write may leave behind at a path other than the temporary one: what was there, a directory
  that was missing, or, at the target, the new contents as a whole.\<close>

definition written :: "file_system \<Rightarrow> string \<Rightarrow> octet list \<Rightarrow> string \<Rightarrow> file_system \<Rightarrow> bool" where
  "written fs0 path bytes temp fs \<longleftrightarrow>
     (\<forall>p. p \<noteq> temp \<longrightarrow> fs p = fs0 p \<or> fs0 p = None \<and> fs p = Some Directory \<or> p = path \<and> (\<exists>st. fs p = Some (File bytes st)))"

abbreviation temp_file :: "octet list \<Rightarrow> string \<Rightarrow> file_system \<Rightarrow> bool" where
  "temp_file bytes temp fs \<equiv> \<exists>st. fs temp = Some (File bytes st)"

lemma io_op_triple:
  "triple (\<lambda>s. P (w_fs s) \<and> (\<forall>tick a fs. act tick (w_fs s) = Inr (a, fs) \<longrightarrow> Q a fs))
     (io_op env act) (\<lambda>a s. Q a (w_fs s)) (\<lambda>_ s. P (w_fs s))"
  by (auto simp: triple_iff io_op_def split: option.splits sum.splits prod.splits)

lemma create_dir_all_written:
  "triple (\<lambda>s. w_fs s = fs0) (create_dir_all env parent)
     (\<lambda>_ s. written fs0 path bytes temp (w_fs s) \<and> (fs0 temp \<noteq> None \<longrightarrow> w_fs s temp = fs0 temp)) (\<lambda>_ s. w_fs s = fs0)"
  unfolding create_dir_all_def
  by (rule triple_pre [OF io_op_triple]) (auto simp: written_def split: if_splits)

lemma sync_parent_fs: "triple (\<lambda>s. I (w_fs s)) (sync_parent env parent) (\<lambda>_ s. I (w_fs s)) (\<lambda>_ s. I (w_fs s))"
  by (auto simp: triple_iff sync_parent_def open_file_def file_step_def op_bind_def io_op_def
      split: option.splits sum.splits prod.splits)

lemma or_remove_triple:
  assumes "triple P step Q (\<lambda>_. P)" and "\<And>s. P s \<Longrightarrow> R s"
    and "triple P (remove_file env temp) (\<lambda>_. R) (\<lambda>_. R)"
  shows "triple P (or_remove env temp step) Q (\<lambda>_. R)"
  unfolding or_remove_def
proof (rule triple_catch [where Q' = "\<lambda>r. case r of Inr a \<Rightarrow> Q a | Inl _ \<Rightarrow> P"])
  show "triple P step (\<lambda>a. case Inr a of Inr a \<Rightarrow> Q a | Inl _ \<Rightarrow> P) (\<lambda>e. case Inl e of Inr a \<Rightarrow> Q a | Inl _ \<Rightarrow> P)"
    using assms(1) by simp
  fix r
  show "triple (case r of Inr a \<Rightarrow> Q a | Inl _ \<Rightarrow> P)
      (case r of Inr _ \<Rightarrow> op_ok () | Inl e \<Rightarrow> op_catch (remove_file env temp) (\<lambda>_. op_err (MdIo e))) Q (\<lambda>_. R)"
  proof (cases r)
    case (Inl e)
    have "triple P (op_catch (remove_file env temp) (\<lambda>_. op_err (MdIo e))) Q (\<lambda>_. R)"
      by (rule triple_catch [OF assms(3) triple_err])
    then show ?thesis using Inl by simp
  next
    case (Inr u)
    then show ?thesis by (simp add: triple_def op_ok_def)
  qed
qed

lemma remove_temp_triple:
  assumes "\<And>fs. I fs \<Longrightarrow> I' fs" "\<And>fs. I fs \<Longrightarrow> I' (fs(temp := None))"
  shows "triple (\<lambda>s. I (w_fs s)) (remove_file env temp) (\<lambda>_ s. I' (w_fs s)) (\<lambda>_ s. I' (w_fs s))"
  unfolding remove_file_def
  by (rule triple_pre [OF io_op_triple]) (use assms in \<open>auto split: option.splits node.splits\<close>)

lemma written_temp [simp]: "written fs0 path bytes temp (fs(temp := x)) = written fs0 path bytes temp fs"
  "written fs0 path bytes temp (\<lambda>p. if p = temp then x else fs p) = written fs0 path bytes temp fs"
  by (auto simp: written_def)

lemma written_rename:
  "written fs0 path bytes temp fs \<Longrightarrow> written fs0 path bytes temp ((fs(temp := None))(path \<mapsto> File bytes st))"
  unfolding written_def by simp blast

text \<open>The part of the write after the temporary name is chosen.\<close>

definition write_temp ::
  "('u, 'c, 'y) env_scheme \<Rightarrow> string \<Rightarrow> string \<Rightarrow> string \<Rightarrow> octet list \<Rightarrow> (('u, 'z) world_scheme, metadata_error, unit) oper" where
  "write_temp env parent path temp bytes =
     op_bind (op_map_err MdIo (create_new_file env temp)) (\<lambda>_.
     op_bind (or_remove env temp (append_file env temp bytes)) (\<lambda>_.
     op_bind (or_remove env temp (file_step env)) (\<lambda>_.
     op_bind (or_remove env temp (rename_file env temp path)) (\<lambda>_.
     op_map_err MdIo (sync_parent env parent)))))"

lemma write_temp_triple:
  assumes "path \<noteq> temp"
  shows "triple (\<lambda>s. written fs0 path bytes temp (w_fs s)) (write_temp env parent path temp bytes)
     (\<lambda>_ s. written fs0 path bytes temp (w_fs s) \<and> temp_file bytes path (w_fs s) \<and> w_fs s temp = None)
     (\<lambda>_ s. written fs0 path bytes temp (w_fs s))"
proof -
  let ?W = "written fs0 path bytes temp"
  have create: "triple (\<lambda>s. ?W (w_fs s)) (op_map_err MdIo (create_new_file env temp))
      (\<lambda>_ s. ?W (w_fs s) \<and> temp_file [] temp (w_fs s)) (\<lambda>_ s. ?W (w_fs s))"
    unfolding create_new_file_def
    by (rule triple_map_err, rule triple_pre [OF io_op_triple]) (auto split: if_splits)
  have append: "triple (\<lambda>s. ?W (w_fs s) \<and> temp_file [] temp (w_fs s)) (or_remove env temp (append_file env temp bytes))
      (\<lambda>_ s. ?W (w_fs s) \<and> temp_file bytes temp (w_fs s)) (\<lambda>_ s. ?W (w_fs s))"
    unfolding append_file_def
    by (rule or_remove_triple [OF triple_pre [OF io_op_triple [where P = "\<lambda>fs. ?W fs \<and> temp_file [] temp fs"]]
          _ remove_temp_triple]) (auto simp: written_def split: option.splits node.splits)
  have sync: "triple (\<lambda>s. ?W (w_fs s) \<and> temp_file bytes temp (w_fs s)) (or_remove env temp (file_step env))
      (\<lambda>_ s. ?W (w_fs s) \<and> temp_file bytes temp (w_fs s)) (\<lambda>_ s. ?W (w_fs s))"
    unfolding file_step_def
    by (rule or_remove_triple [OF triple_pre [OF io_op_triple [where P = "\<lambda>fs. ?W fs \<and> temp_file bytes temp fs"]]
          _ remove_temp_triple]) (auto simp: written_def)
  have rename: "triple (\<lambda>s. ?W (w_fs s) \<and> temp_file bytes temp (w_fs s)) (or_remove env temp (rename_file env temp path))
      (\<lambda>_ s. ?W (w_fs s) \<and> temp_file bytes path (w_fs s) \<and> w_fs s temp = None) (\<lambda>_ s. ?W (w_fs s))"
    unfolding rename_file_def
    by (rule or_remove_triple [OF triple_pre [OF io_op_triple [where P = "\<lambda>fs. ?W fs \<and> temp_file bytes temp fs"]]
          _ remove_temp_triple]) (use assms written_rename in \<open>auto split: if_splits\<close>)
  have parent: "triple (\<lambda>s. ?W (w_fs s) \<and> temp_file bytes path (w_fs s) \<and> w_fs s temp = None)
      (op_map_err MdIo (sync_parent env parent))
      (\<lambda>_ s. ?W (w_fs s) \<and> temp_file bytes path (w_fs s) \<and> w_fs s temp = None) (\<lambda>_ s. ?W (w_fs s))"
    by (rule triple_map_err, rule triple_weaken
        [OF sync_parent_fs [of "\<lambda>fs. ?W fs \<and> temp_file bytes path fs \<and> fs temp = None"]]) auto
  show ?thesis
    unfolding write_temp_def
    by (rule triple_bind [OF create], rule triple_bind [OF append], rule triple_bind [OF sync],
        rule triple_bind [OF rename], rule parent)
qed

lemma write_json_atomic_run:
  assumes run: "write_json_atomic env path (Inr bytes) s = (r, s')"
    and temp: "temp = path_join (path_parent path) (metadata_temp_name (env_pid env) (w_metadata_sequence s))"
    and "path \<noteq> temp"
  shows "written (w_fs s) path bytes temp (w_fs s') \<and>
     (r = Inr () \<longrightarrow> temp_file bytes path (w_fs s') \<and> w_fs s' temp = None)"
proof -
  obtain r1 s1 where dir: "create_dir_all env (path_parent path) s = (r1, s1)" by fastforce
  have seq: "w_metadata_sequence s1 = w_metadata_sequence s"
    using io_op_frame dir unfolding create_dir_all_def by blast
  have dir': "op_map_err MdIo (create_dir_all env (path_parent path)) s = (map_err MdIo r1, s1)"
    using dir by (simp add: op_map_err_def)
  show ?thesis
  proof (cases r1)
    case (Inl e)
    then have "w_fs s1 = w_fs s"
      using triple_run [OF create_dir_all_written _ dir, of "w_fs s"] by simp
    moreover have "r = Inl (MdIo e)" "s' = s1"
      using run dir' Inl by (simp_all add: write_json_atomic_def Let_def op_bind_def [of "op_map_err MdIo (create_dir_all env _)"])
    ultimately show ?thesis by (simp add: written_def)
  next
    case (Inr u)
    let ?s2 = "s1\<lparr>w_metadata_sequence := wrapping_inc64 (w_metadata_sequence s1)\<rparr>"
    have "written (w_fs s) path bytes temp (w_fs ?s2)"
      using triple_run [OF create_dir_all_written _ dir, of "w_fs s"] Inr by simp
    moreover have "write_temp env (path_parent path) path temp bytes ?s2 = (r, s')"
      using run dir' Inr seq
      by (simp add: write_json_atomic_def write_temp_def Let_def temp next_metadata_sequence_def
          op_bind_def [of "op_map_err MdIo (create_dir_all env _)"] op_bind_def [of "\<lambda>s. (Inr (w_metadata_sequence s), _ s)"])
    ultimately show ?thesis
      using triple_run [OF write_temp_triple [OF assms(3)]] by (fastforce split: sum.splits)
  qed
qed

lemma json_path_not_temp:
  assumes "path = base @ ''.json''"
  shows "path \<noteq> path_join parent (metadata_temp_name pid n)"
proof
  assume "path = path_join parent (metadata_temp_name pid n)"
  then have "rev path = rev (path_join parent (metadata_temp_name pid n))" by simp
  then show False using assms by (auto simp: path_join_def metadata_temp_name_def split: if_splits)
qed

section \<open>Properties\<close>

text \<open>C10: metadata files are written atomically. Whatever fails at whatever point, after
  \<open>write_json_atomic\<close> every path other than the temporary one is as before, or is a directory that was
  missing, or is the target with the complete new contents; and when the write succeeds, the target has
  the new contents and the temporary file is gone.\<close>

theorem write_json_atomic_all_or_nothing:
  assumes "write_json_atomic env path (Inr bytes) s = (r, s')" and "path = base @ ''.json''"
    and "temp = path_join (path_parent path) (metadata_temp_name (env_pid env) (w_metadata_sequence s))"
  shows "(\<forall>p. p \<noteq> temp \<longrightarrow> w_fs s' p = w_fs s p \<or> w_fs s p = None \<and> w_fs s' p = Some Directory \<or>
       p = path \<and> (\<exists>st. w_fs s' p = Some (File bytes st))) \<and>
    (r = Inr () \<longrightarrow> (\<exists>st. w_fs s' path = Some (File bytes st)) \<and> w_fs s' temp = None)"
  using write_json_atomic_run [OF assms(1,3)] json_path_not_temp [OF assms(2)] assms(3)
  by (simp add: written_def)

theorem write_json_atomic_all_or_nothing_witness:
  "w_fs (snd (write_json_atomic toy_env ''d/i.json'' (Inr [1]) toy_registry_state)) ''d/i.json'' \<in>
     {None, Some Directory} \<union> {Some (File [1] st) | st. True}"
proof -
  define temp where "temp = path_join (path_parent ''d/i.json'') (metadata_temp_name (env_pid toy_env) (w_metadata_sequence toy_registry_state))"
  obtain r s' where run: "write_json_atomic toy_env ''d/i.json'' (Inr [1]) toy_registry_state = (r, s')" by fastforce
  have json: "''d/i.json'' = ''d/i'' @ ''.json''" by simp
  have "''d/i.json'' \<noteq> temp" unfolding temp_def by (rule json_path_not_temp [OF json])
  with write_json_atomic_all_or_nothing [OF run json temp_def]
  have "w_fs s' ''d/i.json'' = w_fs toy_registry_state ''d/i.json'' \<or> w_fs s' ''d/i.json'' = Some Directory \<or>
      (\<exists>st. w_fs s' ''d/i.json'' = Some (File [1] st))" by blast
  then show ?thesis using run by (auto simp: toy_registry_state_def)
qed

end
