(* ===== verification/Refresh_Backoff.thy ===== *)
theory Refresh_Backoff
  imports Contracts
begin

text \<open>
  The retry backoff of the metadata service (\<^verbatim>\<open>metadata.rs\<close>: \<open>refresh_allowed\<close>,
  \<open>record_refresh_failure\<close>): a table from keys to the instant at which a refresh may be tried again.
  Instants and durations are nanoseconds. The table is an association list in the iteration order of
  the hash map, which the choice of the oldest entry depends on when several are equally old.
\<close>

section \<open>Definitions\<close>

definition MAX_FAILURES :: nat where "MAX_FAILURES = 4096"

definition refresh_allowed :: "nat \<Rightarrow> ('k, nat) hashmap \<Rightarrow> 'k \<Rightarrow> nat \<Rightarrow> bool" where
  "refresh_allowed now failures key backoff \<longleftrightarrow>
     (case hm_get failures key of None \<Rightarrow> True | Some retry_at \<Rightarrow> retry_at \<le> now \<or> backoff = 0)"

text \<open>\<open>iter().min_by_key(..)\<close>: the first of the entries with the least instant.\<close>

fun min_by_retry :: "('k, nat) hashmap \<Rightarrow> ('k \<times> nat) option" where
  "min_by_retry [] = None"
| "min_by_retry (e # es) =
     (case min_by_retry es of None \<Rightarrow> Some e | Some e' \<Rightarrow> if snd e' < snd e then Some e' else Some e)"

definition record_refresh_failure :: "nat \<Rightarrow> ('k, nat) hashmap \<Rightarrow> 'k \<Rightarrow> nat \<Rightarrow> ('k, nat) hashmap" where
  "record_refresh_failure now failures key backoff =
     (let retained = filter (\<lambda>(_, retry_at). retry_at > now) failures;
          trimmed = (if length retained \<ge> MAX_FAILURES
            then (case min_by_retry retained of Some (oldest, _) \<Rightarrow> hm_remove oldest retained | None \<Rightarrow> retained)
            else retained)
      in hm_insert key (now + backoff) trimmed)"

section \<open>Lemmas\<close>

lemma min_by_retry_None: "min_by_retry es = None \<longleftrightarrow> es = []"
  by (cases es) (auto split: option.splits)

lemma min_by_retry_in: "min_by_retry es = Some e \<Longrightarrow> e \<in> set es \<and> (\<forall>e' \<in> set es. snd e \<le> snd e')"
  by (induction es arbitrary: e) (fastforce simp: min_by_retry_None split: option.splits if_splits)+

lemma length_hm_remove: "hm_wf m \<Longrightarrow> k \<in> fst ` set m \<Longrightarrow> length (hm_remove k m) + 1 = length m"
proof (induction m)
  case (Cons p m)
  show ?case
  proof (cases "fst p = k")
    case True
    then have "k \<notin> fst ` set m" using Cons.prems(1) by (auto simp: hm_wf_def)
    then have "filter (\<lambda>(k', _). k \<noteq> k') m = m" by (intro filter_True) (auto simp: image_iff)
    then show ?thesis using True by (auto simp: AList.delete_eq split: prod.splits)
  next
    case False
    then show ?thesis using Cons by (auto simp: hm_wf_def)
  qed
qed simp

text \<open>The entries kept before the new one is put in: a part of the table, with room for one more.\<close>

definition trimmed_failures :: "nat \<Rightarrow> ('k, nat) hashmap \<Rightarrow> ('k, nat) hashmap" where
  "trimmed_failures now failures =
     (let retained = filter (\<lambda>(_, retry_at). retry_at > now) failures
      in if length retained \<ge> MAX_FAILURES
         then (case min_by_retry retained of Some (oldest, _) \<Rightarrow> hm_remove oldest retained | None \<Rightarrow> retained)
         else retained)"

lemma record_refresh_failure_eq:
  "record_refresh_failure now failures key backoff = hm_insert key (now + backoff) (trimmed_failures now failures)"
  by (simp add: record_refresh_failure_def trimmed_failures_def Let_def)

lemma trimmed_failures_wf: "hm_wf failures \<Longrightarrow> hm_wf (trimmed_failures now failures)"
  by (auto simp: trimmed_failures_def Let_def hm_wf_filter split: option.splits)

lemma trimmed_failures_get:
  assumes "hm_wf failures"
  shows "hm_get (trimmed_failures now failures) k \<in> {hm_get failures k, None}"
  using assms
  by (auto simp: trimmed_failures_def Let_def hm_remove_get hm_get_filter [where P = "\<lambda>k v. now < v"]
      split: option.splits if_splits)

lemma trimmed_failures_length:
  assumes "hm_wf failures" "length failures \<le> MAX_FAILURES"
  shows "length (trimmed_failures now failures) < MAX_FAILURES"
proof -
  let ?retained = "filter (\<lambda>(_, retry_at). retry_at > now) failures"
  have le: "length ?retained \<le> MAX_FAILURES" using assms(2) length_filter_le le_trans by blast
  show ?thesis
  proof (cases "length ?retained \<ge> MAX_FAILURES")
    case True
    then obtain oldest retry where m: "min_by_retry ?retained = Some (oldest, retry)"
      by (cases "min_by_retry ?retained") (auto simp: min_by_retry_None MAX_FAILURES_def)
    then have "oldest \<in> fst ` set ?retained" using min_by_retry_in by force
    then have "length (hm_remove oldest ?retained) + 1 = length ?retained"
      using assms(1) by (intro length_hm_remove hm_wf_filter)
    moreover have "trimmed_failures now failures = hm_remove oldest ?retained"
      using True m by (simp add: trimmed_failures_def Let_def)
    ultimately show ?thesis using le by simp
  qed (simp add: trimmed_failures_def Let_def)
qed

lemma record_refresh_failure_length:
  "hm_wf failures \<Longrightarrow> length failures \<le> MAX_FAILURES \<Longrightarrow> length (record_refresh_failure now failures key backoff) \<le> MAX_FAILURES"
  using trimmed_failures_length [of failures now] by (simp add: record_refresh_failure_eq length_hm_insert)

text \<open>A record is described by the instant of the failure and the backoff.\<close>

definition record_failure_at :: "('k, nat) hashmap \<Rightarrow> 'k \<Rightarrow> nat \<times> nat \<Rightarrow> ('k, nat) hashmap" where
  "record_failure_at failures key at = record_refresh_failure (fst at) failures key (snd at)"

interpretation failures: bounded_table record_failure_at "\<lambda>at. fst at + snd at" map_of length hm_wf MAX_FAILURES
proof
  fix t :: "('k, nat) hashmap" and k k' :: 'k and at :: "nat \<times> nat"
  assume wf: "hm_wf t"
  show "hm_wf (record_failure_at t k at)"
    using trimmed_failures_wf [OF wf] by (simp add: record_failure_at_def record_refresh_failure_eq)
  show "hm_get (record_failure_at t k at) k = Some (fst at + snd at)"
    by (simp add: record_failure_at_def record_refresh_failure_eq hm_insert_get)
  show "k' \<noteq> k \<Longrightarrow> hm_get (record_failure_at t k at) k' \<in> {hm_get t k', None}"
    using trimmed_failures_get [OF wf, of "fst at" k']
    by (simp add: record_failure_at_def record_refresh_failure_eq hm_insert_get)
  show "length t \<le> MAX_FAILURES \<Longrightarrow> length (record_failure_at t k at) \<le> MAX_FAILURES"
    using wf by (simp add: record_failure_at_def record_refresh_failure_length)
qed

lemma refresh_allowed_after_failure:
  "0 < backoff \<Longrightarrow> refresh_allowed now' (record_refresh_failure now failures key backoff) key backoff \<longleftrightarrow> now + backoff \<le> now'"
  by (simp add: refresh_allowed_def record_refresh_failure_eq hm_insert_get)

section \<open>Properties\<close>

text \<open>C34: the backoff table is bounded and truthful. After any sequence of recorded failures, each with
  its own clock and backoff, the table has at most 4096 entries; a key refused a refresh has failed, and
  the instant it waits for is that of its last failure plus the backoff; and the key of the last failure
  is refused until its backoff has passed, and no longer.\<close>

theorem failure_table_bounded_and_truthful:
  fixes events :: "('k \<times> nat \<times> nat) list"
  assumes "table = foldl (\<lambda>t (k, at). record_failure_at t k at) [] (events @ [(key, failed_at, backoff)])"
    and "0 < backoff"
  shows "length table \<le> 4096 \<and>
    (refresh_allowed now table key backoff \<longleftrightarrow> failed_at + backoff \<le> now) \<and>
    (\<forall>k. \<not> refresh_allowed now table k backoff \<longrightarrow>
       (\<exists>at b. map_of (rev (events @ [(key, failed_at, backoff)])) k = Some (at, b) \<and> hm_get table k = Some (at + b) \<and> now < at + b))"
proof (intro conjI allI impI)
  let ?events = "events @ [(key, failed_at, backoff)]"
  show "length table \<le> 4096"
    using failures.record_all_bounded [of "[]" ?events] assms(1) by (simp add: MAX_FAILURES_def)
  show "refresh_allowed now table key backoff \<longleftrightarrow> failed_at + backoff \<le> now"
    using failures.record_all_last [of "[]" events key "(failed_at, backoff)"] assms by (simp add: refresh_allowed_def)
  fix k assume "\<not> refresh_allowed now table k backoff"
  then obtain retry where retry: "hm_get table k = Some retry" "now < retry"
    by (auto simp: refresh_allowed_def split: option.splits)
  with failures.record_all_lookup [of "[]" ?events k retry] assms(1)
  show "\<exists>at b. map_of (rev ?events) k = Some (at, b) \<and> hm_get table k = Some (at + b) \<and> now < at + b"
    by (auto split: option.splits)
qed

theorem failure_table_bounded_and_truthful_witness:
  "length (record_failure_at [] (7 :: nat) (100, 30)) \<le> 4096 \<and>
   \<not> refresh_allowed 129 (record_failure_at [] (7 :: nat) (100, 30)) 7 30 \<and>
   refresh_allowed 130 (record_failure_at [] (7 :: nat) (100, 30)) 7 30"
proof -
  have table: "record_failure_at [] (7 :: nat) (100, 30) =
      foldl (\<lambda>t (k, at). record_failure_at t k at) [] ([] @ [(7, 100, 30)])" by simp
  show ?thesis
    using failure_table_bounded_and_truthful [OF table, of 129] failure_table_bounded_and_truthful [OF table, of 130]
    by simp
qed

end
