(* ===== verification/Metadata_Service.thy ===== *)
theory Metadata_Service
  imports Metadata_Store Refresh_Backoff
begin

text \<open>
  The metadata service (\<^verbatim>\<open>src/src/metadata.rs\<close>, \<open>ProviderMetadataService\<close>): the two caches of version
  lists and version metadata, their refresh from disk and from the registries, the backoff after a
  failure, the queries and the synchronisation.

  The state extends that of the registry client by the caches, the lock tables, the failure tables
  and the flag of the synchronisation. The immutable part of the service is the record
  \<open>metadata_service\<close>. An operation is modelled as running alone between its locks and its end, which
  the locks ensure for each key (theory \<open>Key_Locks\<close>); the requests for the packages of a version, eight
  at a time in the code, are made one after the other, and their results are used in the order of the
  list as in the code.
\<close>

section \<open>Definitions\<close>

type_synonym index_entry = "registry_version list cache_entry"
type_synonym version_entry = "version_metadata cache_entry"

record 'u metadata_state = "'u registry_state" +
  ms_indices :: "(provider_key, index_entry) hashmap"
  ms_versions :: "version_key \<rightharpoonup> version_entry"
  ms_index_locks :: "provider_key lock_table"
  ms_version_locks :: "version_key lock_table"
  ms_index_failures :: "(provider_key, nat) hashmap"
  ms_version_failures :: "(version_key, nat) hashmap"
  ms_index_miss_refreshes :: "(provider_key, nat) hashmap"
  ms_syncing :: bool

record ('u, 'c) metadata_service =
  sv_data_dir :: string
  sv_allowed_registries :: "string list"
  sv_freshness :: nat
  sv_registry :: "('u, 'c) registry_client"
  sv_refresh_backoff :: nat

text \<open>Parameters: the JSON coders of the persisted entries, the \<^verbatim>\<open>semver\<close> crate and the iteration order
  of a \<open>HashSet\<close> built from a list.\<close>

record ('u, 'c, 'v) metadata_env = "('u, 'c) registry_env" +
  env_index_of_json :: "octet list \<Rightarrow> (string, index_entry) result"
  env_index_to_json :: "index_entry \<Rightarrow> (string, octet list) result"
  env_version_of_json :: "octet list \<Rightarrow> (string, version_entry) result"
  env_version_to_json :: "version_entry \<Rightarrow> (string, octet list) result"
  env_semver :: "'v semver_api"
  env_hash_order :: "string list \<Rightarrow> string list"

subsection \<open>Locks\<close>

definition with_index_lock ::
  "provider_key \<Rightarrow> (('u, 'z) metadata_state_scheme, 'e, 'a) oper \<Rightarrow> (('u, 'z) metadata_state_scheme, 'e, 'a) oper" where
  "with_index_lock key body =
     (\<lambda>s. case lock_for (ms_index_locks s) key of (m, table) \<Rightarrow>
        (case body (s\<lparr>ms_index_locks := table\<rparr>) of
           (r, s') \<Rightarrow> (r, s'\<lparr>ms_index_locks := drop_lock (ms_index_locks s') key m\<rparr>)))"

definition with_version_lock ::
  "version_key \<Rightarrow> (('u, 'z) metadata_state_scheme, 'e, 'a) oper \<Rightarrow> (('u, 'z) metadata_state_scheme, 'e, 'a) oper" where
  "with_version_lock key body =
     (\<lambda>s. case lock_for (ms_version_locks s) key of (m, table) \<Rightarrow>
        (case body (s\<lparr>ms_version_locks := table\<rparr>) of
           (r, s') \<Rightarrow> (r, s'\<lparr>ms_version_locks := drop_lock (ms_version_locks s') key m\<rparr>)))"

subsection \<open>Freshness and backoff\<close>

definition entry_fresh ::
  "('u, 'c, 'v, 'y) metadata_env_scheme \<Rightarrow> ('u, 'c) metadata_service \<Rightarrow> 'a cache_entry \<Rightarrow>
     (('u, 'z) metadata_state_scheme, 'e, bool) oper" where
  "entry_fresh env svc entry =
     (let ttl = (if ce_complete entry then sv_freshness svc else sv_refresh_backoff svc) in
      op_bind (now_epoch env) (\<lambda>now. op_ok (now - ce_fetched_at entry < ttl div second)))"

text \<open>The entry a lookup finds, if it is fresh.\<close>

definition fresh_entry ::
  "('u, 'c, 'v, 'y) metadata_env_scheme \<Rightarrow> ('u, 'c) metadata_service \<Rightarrow>
     (('u, 'z) metadata_state_scheme \<Rightarrow> 'a cache_entry option) \<Rightarrow>
     (('u, 'z) metadata_state_scheme, 'e, 'a cache_entry option) oper" where
  "fresh_entry env svc lookup =
     op_bind (op_get lookup) (\<lambda>cached. case cached of
       None \<Rightarrow> op_ok None
     | Some entry \<Rightarrow> op_bind (entry_fresh env svc entry) (\<lambda>fresh. op_ok (if fresh then Some entry else None)))"

definition refresh_allowed_now ::
  "('u, 'c, 'v, 'y) metadata_env_scheme \<Rightarrow> ('u, 'c) metadata_service \<Rightarrow>
     (('u, 'z) metadata_state_scheme \<Rightarrow> ('k, nat) hashmap) \<Rightarrow> 'k \<Rightarrow> (('u, 'z) metadata_state_scheme, 'e, bool) oper" where
  "refresh_allowed_now env svc table key =
     op_bind (op_get table) (\<lambda>failures. case hm_get failures key of
       None \<Rightarrow> op_ok True
     | Some _ \<Rightarrow> op_bind (instant_now env) (\<lambda>now. op_ok (refresh_allowed now failures key (sv_refresh_backoff svc))))"

definition index_refresh_allowed ::
  "('u, 'c, 'v, 'y) metadata_env_scheme \<Rightarrow> ('u, 'c) metadata_service \<Rightarrow> provider_key \<Rightarrow>
     (('u, 'z) metadata_state_scheme, 'e, bool) oper" where
  "index_refresh_allowed env svc key = refresh_allowed_now env svc ms_index_failures key"

definition version_refresh_allowed ::
  "('u, 'c, 'v, 'y) metadata_env_scheme \<Rightarrow> ('u, 'c) metadata_service \<Rightarrow> version_key \<Rightarrow>
     (('u, 'z) metadata_state_scheme, 'e, bool) oper" where
  "version_refresh_allowed env svc key = refresh_allowed_now env svc ms_version_failures key"

definition missing_version_refresh_allowed ::
  "('u, 'c, 'v, 'y) metadata_env_scheme \<Rightarrow> ('u, 'c) metadata_service \<Rightarrow> provider_key \<Rightarrow>
     (('u, 'z) metadata_state_scheme, 'e, bool) oper" where
  "missing_version_refresh_allowed env svc key = refresh_allowed_now env svc ms_index_miss_refreshes key"

definition record_index_failure ::
  "('u, 'c, 'v, 'y) metadata_env_scheme \<Rightarrow> ('u, 'c) metadata_service \<Rightarrow> provider_key \<Rightarrow>
     (('u, 'z) metadata_state_scheme, 'e, unit) oper" where
  "record_index_failure env svc key = op_bind (instant_now env) (\<lambda>now.
     op_modify (\<lambda>s. s\<lparr>ms_index_failures := record_refresh_failure now (ms_index_failures s) key (sv_refresh_backoff svc)\<rparr>))"

definition record_version_failure ::
  "('u, 'c, 'v, 'y) metadata_env_scheme \<Rightarrow> ('u, 'c) metadata_service \<Rightarrow> version_key \<Rightarrow>
     (('u, 'z) metadata_state_scheme, 'e, unit) oper" where
  "record_version_failure env svc key = op_bind (instant_now env) (\<lambda>now.
     op_modify (\<lambda>s. s\<lparr>ms_version_failures := record_refresh_failure now (ms_version_failures s) key (sv_refresh_backoff svc)\<rparr>))"

definition record_missing_version_refresh ::
  "('u, 'c, 'v, 'y) metadata_env_scheme \<Rightarrow> ('u, 'c) metadata_service \<Rightarrow> provider_key \<Rightarrow>
     (('u, 'z) metadata_state_scheme, 'e, unit) oper" where
  "record_missing_version_refresh env svc key = op_bind (instant_now env) (\<lambda>now.
     op_modify (\<lambda>s. s\<lparr>ms_index_miss_refreshes := record_refresh_failure now (ms_index_miss_refreshes s) key (sv_refresh_backoff svc)\<rparr>))"

definition clear_index_failure :: "provider_key \<Rightarrow> (('u, 'z) metadata_state_scheme, 'e, unit) oper" where
  "clear_index_failure key = op_modify (\<lambda>s. s\<lparr>ms_index_failures := hm_remove key (ms_index_failures s)\<rparr>)"

definition clear_version_failure :: "version_key \<Rightarrow> (('u, 'z) metadata_state_scheme, 'e, unit) oper" where
  "clear_version_failure key = op_modify (\<lambda>s. s\<lparr>ms_version_failures := hm_remove key (ms_version_failures s)\<rparr>)"

subsection \<open>Loading an entry\<close>

text \<open>\<open>load_index\<close> and \<open>load_version\<close> have the same body under their lock. It serves the cache while it is
  fresh, else what is on disk if that is fresh, else refreshes unless a failure backs off, and falls
  back on a stale entry.\<close>

definition load_entry_locked ::
  "('u, 'c, 'v, 'y) metadata_env_scheme \<Rightarrow> ('u, 'c) metadata_service \<Rightarrow>
     (('u, 'z) metadata_state_scheme \<Rightarrow> 'a cache_entry option) \<Rightarrow>
     (('u, 'z) metadata_state_scheme, metadata_error, unit) oper \<Rightarrow>
     (('u, 'z) metadata_state_scheme, metadata_error, bool) oper \<Rightarrow>
     (('u, 'z) metadata_state_scheme, metadata_error, 'a cache_entry) oper \<Rightarrow>
     (('u, 'z) metadata_state_scheme, metadata_error, unit) oper \<Rightarrow>
     (('u, 'z) metadata_state_scheme, metadata_error, unit) oper \<Rightarrow>
     (('u, 'z) metadata_state_scheme, metadata_error, 'a cache_entry) oper" where
  "load_entry_locked env svc lookup read_persisted allowed refresh clear_failure record_failure =
     op_bind (fresh_entry env svc lookup) (\<lambda>hit. case hit of Some entry \<Rightarrow> op_ok entry | None \<Rightarrow>
     op_bind (op_get (\<lambda>s. lookup s \<noteq> None)) (\<lambda>present.
     op_bind (if present then op_ok () else read_persisted) (\<lambda>_.
     op_bind (fresh_entry env svc lookup) (\<lambda>hit. case hit of Some entry \<Rightarrow> op_ok entry | None \<Rightarrow>
     op_bind (op_get lookup) (\<lambda>cached.
     op_bind allowed (\<lambda>allowed.
       if \<not> allowed then op_result (ok_or cached MdRefreshBackoff)
       else op_catch refresh (\<lambda>outcome. case outcome of
         Inr entry \<Rightarrow> op_bind clear_failure (\<lambda>_. op_ok entry)
       | Inl error \<Rightarrow>
           op_bind (if should_backoff error then record_failure else op_ok ()) (\<lambda>_.
           op_bind (op_get lookup) (\<lambda>current.
           op_result (ok_or (case cached of Some entry \<Rightarrow> Some entry | None \<Rightarrow> current) error))))))))))"

subsection \<open>Indices\<close>

definition index_of :: "provider_key \<Rightarrow> ('u, 'z) metadata_state_scheme \<Rightarrow> index_entry option" where
  "index_of key s = hm_get (ms_indices s) key"

definition read_persisted_index ::
  "('u, 'c, 'v, 'y) metadata_env_scheme \<Rightarrow> ('u, 'c) metadata_service \<Rightarrow> provider_key \<Rightarrow>
     (('u, 'z) metadata_state_scheme, metadata_error, unit) oper" where
  "read_persisted_index env svc key =
     op_bind (read_json env (env_index_of_json env) (index_path (sv_data_dir svc) key)) (\<lambda>persisted. case persisted of
       None \<Rightarrow> op_ok ()
     | Some entry \<Rightarrow>
         if is_ok (validate_registry_versions (ce_value entry))
         then op_modify (\<lambda>s. s\<lparr>ms_indices := hm_insert key entry (ms_indices s)\<rparr>) else op_ok ())"

definition refresh_index_unlocked ::
  "('u, 'c, 'v, 'y) metadata_env_scheme \<Rightarrow> ('u, 'c) metadata_service \<Rightarrow> provider_key \<Rightarrow>
     (('u, 'z) metadata_state_scheme, metadata_error, index_entry) oper" where
  "refresh_index_unlocked env svc key =
     op_bind (op_map_err map_registry (registry_versions env (sv_registry svc) (pk_hostname key) (pk_namespace key)
       (pk_provider_type key))) (\<lambda>versions.
     op_bind (op_result (validate_registry_versions versions)) (\<lambda>_.
     op_bind (now_epoch env) (\<lambda>now.
       let entry = \<lparr>ce_fetched_at = now, ce_complete = True, ce_value = versions\<rparr> in
       op_bind (write_json_atomic env (index_path (sv_data_dir svc) key) (env_index_to_json env entry)) (\<lambda>_.
       op_bind (op_modify (\<lambda>s. s\<lparr>ms_indices := hm_insert key entry (ms_indices s)\<rparr>)) (\<lambda>_.
       op_ok entry)))))"

definition load_index_locked ::
  "('u, 'c, 'v, 'y) metadata_env_scheme \<Rightarrow> ('u, 'c) metadata_service \<Rightarrow> provider_key \<Rightarrow>
     (('u, 'z) metadata_state_scheme, metadata_error, index_entry) oper" where
  "load_index_locked env svc key =
     load_entry_locked env svc (index_of key) (read_persisted_index env svc key) (index_refresh_allowed env svc key)
       (refresh_index_unlocked env svc key) (clear_index_failure key) (record_index_failure env svc key)"

definition load_index ::
  "('u, 'c, 'v, 'y) metadata_env_scheme \<Rightarrow> ('u, 'c) metadata_service \<Rightarrow> provider_key \<Rightarrow>
     (('u, 'z) metadata_state_scheme, metadata_error, index_entry) oper" where
  "load_index env svc key =
     op_bind (fresh_entry env svc (index_of key)) (\<lambda>hit. case hit of
       Some entry \<Rightarrow> op_ok entry
     | None \<Rightarrow> with_index_lock key (load_index_locked env svc key))"

subsection \<open>Versions\<close>

definition version_of :: "version_key \<Rightarrow> ('u, 'z) metadata_state_scheme \<Rightarrow> version_entry option" where
  "version_of key s = ms_versions s key"

definition find_version :: "string \<Rightarrow> index_entry \<Rightarrow> registry_version option" where
  "find_version version index = find (\<lambda>item. strip_v (rv_version item) = version) (ce_value index)"

text \<open>The condition of the refresh for a missing version; its operands are evaluated in order.\<close>

definition missing_refresh_wanted ::
  "('u, 'c, 'v, 'y) metadata_env_scheme \<Rightarrow> ('u, 'c) metadata_service \<Rightarrow> version_key \<Rightarrow> index_entry \<Rightarrow>
     (('u, 'z) metadata_state_scheme, 'e, bool) oper" where
  "missing_refresh_wanted env svc key index =
     (if find_version (vk_version key) index \<noteq> None then op_ok False
      else op_bind (missing_version_refresh_allowed env svc (vk_provider key)) (\<lambda>allowed.
        if \<not> allowed then op_ok False else index_refresh_allowed env svc (vk_provider key)))"

definition index_for_version ::
  "('u, 'c, 'v, 'y) metadata_env_scheme \<Rightarrow> ('u, 'c) metadata_service \<Rightarrow> version_key \<Rightarrow>
     (('u, 'z) metadata_state_scheme, metadata_error, index_entry) oper" where
  "index_for_version env svc key =
     op_bind (load_index env svc (vk_provider key)) (\<lambda>index.
     op_bind (missing_refresh_wanted env svc key index) (\<lambda>wanted.
       if \<not> wanted then op_ok index
       else with_index_lock (vk_provider key) (
         op_bind (op_get (\<lambda>s. case index_of (vk_provider key) s of Some current \<Rightarrow> current | None \<Rightarrow> index)) (\<lambda>index.
         op_bind (missing_refresh_wanted env svc key index) (\<lambda>wanted.
           if \<not> wanted then op_ok index
           else
             op_bind (record_missing_version_refresh env svc (vk_provider key)) (\<lambda>_.
             op_catch (refresh_index_unlocked env svc (vk_provider key)) (\<lambda>outcome. case outcome of
               Inr index \<Rightarrow> op_bind (clear_index_failure (vk_provider key)) (\<lambda>_. op_ok index)
             | Inl error \<Rightarrow>
                 op_bind (if should_backoff error then record_index_failure env svc (vk_provider key) else op_ok ()) (\<lambda>_.
                 op_err error))))))))"

text \<open>The requests for the packages, the collection of their results and the merge with the cached
  platforms.\<close>

fun fetch_packages ::
  "('u, 'c, 'v, 'y) metadata_env_scheme \<Rightarrow> ('u, 'c) metadata_service \<Rightarrow> version_key \<Rightarrow> registry_platform list \<Rightarrow>
     (('u, 'z) metadata_state_scheme, metadata_error, (metadata_error, platform_metadata) result list) oper" where
  "fetch_packages env svc key [] = op_ok []"
| "fetch_packages env svc key (platform # platforms) =
     op_catch (op_map_err map_registry (registry_package env (sv_registry svc) (pk_hostname (vk_provider key))
       (pk_namespace (vk_provider key)) (pk_provider_type (vk_provider key)) (vk_version key) platform)) (\<lambda>result.
     op_bind (fetch_packages env svc key platforms) (\<lambda>results.
     op_ok (try_bind result (\<lambda>package.
       map_sum id (\<lambda>_. package) (validate_package (env_url env) (sv_parse (env_semver env)) key platform package)) # results)))"

fun collect_packages ::
  "(metadata_error, platform_metadata) result list \<Rightarrow> (string \<times> string \<rightharpoonup> platform_metadata) \<Rightarrow> metadata_error option \<Rightarrow>
     (string \<times> string \<rightharpoonup> platform_metadata) \<times> metadata_error option" where
  "collect_packages [] refreshed first_error = (refreshed, first_error)"
| "collect_packages (Inr package # results) refreshed first_error =
     collect_packages results (refreshed((pm_os package, pm_arch package) \<mapsto> package)) first_error"
| "collect_packages (Inl error # results) refreshed first_error =
     collect_packages results refreshed (case first_error of None \<Rightarrow> Some error | Some e \<Rightarrow> Some e)"

fun merge_platforms ::
  "version_entry option \<Rightarrow> registry_platform list \<Rightarrow> (string \<times> string \<rightharpoonup> platform_metadata) \<Rightarrow> registry_platform list \<Rightarrow>
     platform_metadata list" where
  "merge_platforms cached valid refreshed [] = []"
| "merge_platforms cached valid refreshed (platform # platforms) =
     (case refreshed (rp_os platform, rp_arch platform) of
        Some package \<Rightarrow> package # merge_platforms cached valid (refreshed((rp_os platform, rp_arch platform) := None)) platforms
      | None \<Rightarrow>
     (case Option.bind cached (\<lambda>entry. find (\<lambda>item. pm_os item = rp_os platform \<and> pm_arch item = rp_arch platform \<and>
          (pm_os item, pm_arch item) \<in> (\<lambda>p. (rp_os p, rp_arch p)) ` set valid) (vm_platforms (ce_value entry))) of
        Some item \<Rightarrow> item # merge_platforms cached valid refreshed platforms
      | None \<Rightarrow> merge_platforms cached valid refreshed platforms))"

definition refresh_version ::
  "('u, 'c, 'v, 'y) metadata_env_scheme \<Rightarrow> ('u, 'c) metadata_service \<Rightarrow> version_key \<Rightarrow>
     (('u, 'z) metadata_state_scheme, metadata_error, version_entry) oper" where
  "refresh_version env svc key =
     op_bind (index_for_version env svc key) (\<lambda>index.
     op_bind (op_result (ok_or (find_version (vk_version key) index) MdNotFound)) (\<lambda>summary.
     op_bind (op_get (version_of key)) (\<lambda>cached.
     op_bind (fetch_packages env svc key (rv_platforms summary)) (\<lambda>results.
       case collect_packages results Map.empty None of (refreshed, first_error) \<Rightarrow>
       (let platforms = merge_platforms cached (rv_platforms summary) refreshed (rv_platforms summary) in
        case (if platforms = [] then first_error else None) of
          Some error \<Rightarrow> op_err error
        | None \<Rightarrow>
            op_bind (now_epoch env) (\<lambda>now.
              let entry = \<lparr>ce_fetched_at = now, ce_complete = (first_error = None),
                    ce_value = \<lparr>vm_hostname = pk_hostname (vk_provider key), vm_namespace = pk_namespace (vk_provider key),
                      vm_provider_type = pk_provider_type (vk_provider key), vm_version = vk_version key,
                      vm_platforms = platforms\<rparr>\<rparr> in
              op_bind (write_json_atomic env (version_path (sv_data_dir svc) key) (env_version_to_json env entry)) (\<lambda>_.
              op_bind (op_modify (\<lambda>s. s\<lparr>ms_versions := (ms_versions s)(key \<mapsto> entry)\<rparr>)) (\<lambda>_.
              op_ok entry))))))))"

definition read_persisted_version ::
  "('u, 'c, 'v, 'y) metadata_env_scheme \<Rightarrow> ('u, 'c) metadata_service \<Rightarrow> version_key \<Rightarrow>
     (('u, 'z) metadata_state_scheme, metadata_error, unit) oper" where
  "read_persisted_version env svc key =
     op_bind (read_json env (env_version_of_json env) (version_path (sv_data_dir svc) key)) (\<lambda>persisted. case persisted of
       None \<Rightarrow> op_ok ()
     | Some entry \<Rightarrow>
         if is_ok (validate_version_metadata (env_url env) (sv_parse (env_semver env)) key (ce_value entry))
         then op_modify (\<lambda>s. s\<lparr>ms_versions := (ms_versions s)(key \<mapsto> entry)\<rparr>) else op_ok ())"

definition load_version_locked ::
  "('u, 'c, 'v, 'y) metadata_env_scheme \<Rightarrow> ('u, 'c) metadata_service \<Rightarrow> version_key \<Rightarrow>
     (('u, 'z) metadata_state_scheme, metadata_error, version_entry) oper" where
  "load_version_locked env svc key =
     load_entry_locked env svc (version_of key) (read_persisted_version env svc key) (version_refresh_allowed env svc key)
       (refresh_version env svc key) (clear_version_failure key) (record_version_failure env svc key)"

definition load_version ::
  "('u, 'c, 'v, 'y) metadata_env_scheme \<Rightarrow> ('u, 'c) metadata_service \<Rightarrow> version_key \<Rightarrow>
     (('u, 'z) metadata_state_scheme, metadata_error, version_entry) oper" where
  "load_version env svc key =
     op_bind (fresh_entry env svc (version_of key)) (\<lambda>hit. case hit of
       Some entry \<Rightarrow> op_ok entry
     | None \<Rightarrow> with_version_lock key (load_version_locked env svc key))"

section \<open>Lemmas\<close>

subsection \<open>Operations that leave the metadata alone\<close>

definition same_more :: "('u, 'z) registry_state_scheme \<Rightarrow> ('u, 'z) registry_state_scheme \<Rightarrow> bool" where
  "same_more s s' \<longleftrightarrow> registry_state.more s' = registry_state.more s"

interpretation metadata: state_preorder same_more
  by unfold_locales (simp_all add: same_more_def)

abbreviation same_metadata :: "(('u, 'z) registry_state_scheme, 'e, 'a) oper \<Rightarrow> bool" where
  "same_metadata f \<equiv> op_respects same_more f"

named_theorems same_metadata_rules \<open>operations that leave the metadata alone\<close>

lemmas same_metadata_combinators [same_metadata_rules] = metadata.respects_rules

lemma same_metadata_basic [same_metadata_rules]:
  "same_metadata (instant_now env)" "same_metadata (now_epoch env)" "same_metadata (http_get env client url timeout)"
  "same_metadata next_metadata_sequence" "same_metadata (io_op env act)"
  by (auto simp: op_respects_def same_more_def instant_now_def now_epoch_def http_get_def
      next_metadata_sequence_def io_op_def split: prod.splits option.splits sum.splits)

lemma same_metadata_modify [same_metadata_rules]:
  "(\<And>s. registry_state.more (f s) = registry_state.more s) \<Longrightarrow> same_metadata (op_modify f)"
  by (rule metadata.respects_modify) (simp add: same_more_def)

lemma same_metadata_io_case [same_metadata_rules]:
  "same_metadata f \<Longrightarrow> (\<And>e. same_metadata (j e)) \<Longrightarrow> same_metadata (case io of IoNotFound \<Rightarrow> f | IoOther e \<Rightarrow> j e)"
  by (auto split: io_error.splits)

lemma same_metadata_discovery [same_metadata_rules]:
  "same_metadata (cached_discovery env hostname)" "same_metadata (fetch_origin env client url)"
  "same_metadata (store_origin env hostname outcome)"
  unfolding cached_discovery_def fetch_origin_def store_origin_def
  by (intro same_metadata_rules; simp)+

lemma same_metadata_discovery_lock [same_metadata_rules]:
  "same_metadata body \<Longrightarrow> same_metadata (with_discovery_lock hostname body)"
  unfolding op_respects_def same_more_def with_discovery_lock_def by (fastforce split: prod.splits)

lemma same_metadata_registry [same_metadata_rules]:
  "same_metadata (registry_versions env rc hostname namespace provider_type)"
  "same_metadata (registry_package env rc hostname namespace provider_type version platform)"
  unfolding registry_versions_def registry_package_def registry_get_def registry_origin_def discover_def discover_locked_def
  by (intro same_metadata_rules)+

lemma same_metadata_store [same_metadata_rules]:
  "same_metadata (read_json env from_slice path)" "same_metadata (write_json_atomic env path encoded)"
  unfolding read_json_def write_json_atomic_def Let_def sync_parent_def or_remove_def read_file_def open_file_def file_step_def
    create_dir_all_def create_new_file_def append_file_def rename_file_def remove_file_def
  by (intro same_metadata_rules)+

lemma same_metadata_fields:
  assumes "registry_state.more s' = registry_state.more s"
  shows "ms_indices s' = ms_indices s" "ms_versions s' = ms_versions s" "ms_index_failures s' = ms_index_failures s"
    "ms_version_failures s' = ms_version_failures s" "ms_index_miss_refreshes s' = ms_index_miss_refreshes s"
    "ms_syncing s' = ms_syncing s" "ms_index_locks s' = ms_index_locks s" "ms_version_locks s' = ms_version_locks s"
  using assms by (cases s, cases s', simp)+

subsection \<open>The invariant of the caches\<close>

text \<open>Every index in the cache passes its validator; every version entry names its key, and each of its
  platforms is a package of that key that can be fetched safely.\<close>

definition version_ok :: "('u, 'c, 'v, 'y) metadata_env_scheme \<Rightarrow> version_key \<Rightarrow> version_entry \<Rightarrow> bool" where
  "version_ok env key entry \<longleftrightarrow>
     vm_hostname (ce_value entry) = pk_hostname (vk_provider key) \<and>
     vm_namespace (ce_value entry) = pk_namespace (vk_provider key) \<and>
     vm_provider_type (ce_value entry) = pk_provider_type (vk_provider key) \<and>
     (\<forall>p \<in> set (vm_platforms (ce_value entry)).
        validate_package (env_url env) (sv_parse (env_semver env)) key (platform_of p) p = Inr ())"

definition caches_ok :: "('u, 'c, 'v, 'y) metadata_env_scheme \<Rightarrow> ('u, 'z) metadata_state_scheme \<Rightarrow> bool" where
  "caches_ok env s \<longleftrightarrow>
     (\<forall>key entry. hm_get (ms_indices s) key = Some entry \<longrightarrow> validate_registry_versions (ce_value entry) = Inr ()) \<and>
     (\<forall>key entry. ms_versions s key = Some entry \<longrightarrow> version_ok env key entry)"

lemma keeps_same_metadata [keeps_rules]:
  assumes "same_metadata f"
  shows "keeps (caches_ok env) f"
  unfolding triple_iff
proof (intro allI impI)
  fix s r s' assume ok: "caches_ok env s" and "f s = (r, s')"
  then have "registry_state.more s' = registry_state.more s" using assms by (auto simp: op_respects_def same_more_def)
  then have "caches_ok env s'" using ok same_metadata_fields(1,2) [of s' s] by (simp add: caches_ok_def)
  then show "case r of Inr a \<Rightarrow> caches_ok env s' | Inl e \<Rightarrow> caches_ok env s'" by (simp split: sum.splits)
qed

lemma caches_ok_update [simp]:
  "caches_ok env (s\<lparr>ms_index_locks := t1\<rparr>) = caches_ok env s" "caches_ok env (s\<lparr>ms_version_locks := t2\<rparr>) = caches_ok env s"
  "caches_ok env (s\<lparr>ms_index_failures := t3\<rparr>) = caches_ok env s" "caches_ok env (s\<lparr>ms_version_failures := t4\<rparr>) = caches_ok env s"
  "caches_ok env (s\<lparr>ms_index_miss_refreshes := t5\<rparr>) = caches_ok env s" "caches_ok env (s\<lparr>ms_syncing := t6\<rparr>) = caches_ok env s"
  by (simp_all add: caches_ok_def)

lemma caches_ok_insert:
  "caches_ok env s \<Longrightarrow> validate_registry_versions (ce_value entry) = Inr () \<Longrightarrow>
     caches_ok env (s\<lparr>ms_indices := hm_insert key entry (ms_indices s)\<rparr>)"
  "caches_ok env s \<Longrightarrow> version_ok env vkey ventry \<Longrightarrow> caches_ok env (s\<lparr>ms_versions := (ms_versions s)(vkey \<mapsto> ventry)\<rparr>)"
  by (auto simp: caches_ok_def hm_insert_get)

lemma caches_ok_failures [keeps_rules]:
  "keeps (caches_ok env) (record_index_failure env' svc key)" "keeps (caches_ok env) (clear_index_failure key)"
  "keeps (caches_ok env) (record_version_failure env' svc vkey)" "keeps (caches_ok env) (clear_version_failure vkey)"
  "keeps (caches_ok env) (record_missing_version_refresh env' svc key)"
  unfolding record_index_failure_def clear_index_failure_def record_version_failure_def clear_version_failure_def
    record_missing_version_refresh_def
  by (intro keeps_bind keeps_same_metadata same_metadata_basic keeps_modify; simp)+

text \<open>An operation that returns an entry, keeps the caches in order and vouches for the entry.\<close>

abbreviation vouches ::
  "('u, 'c, 'v, 'y) metadata_env_scheme \<Rightarrow> ('a \<Rightarrow> bool) \<Rightarrow> (('u, 'z) metadata_state_scheme, 'e, 'a) oper \<Rightarrow> bool" where
  "vouches env ok f \<equiv> triple (caches_ok env) f (\<lambda>a s. caches_ok env s \<and> ok a) (\<lambda>_. caches_ok env)"

lemma vouches_bind: "vouches env ok' f \<Longrightarrow> (\<And>a. ok' a \<Longrightarrow> vouches env ok (g a)) \<Longrightarrow> vouches env ok (op_bind f g)"
  by (rule triple_bind [where Q' = "\<lambda>a s. caches_ok env s \<and> ok' a"])
    (auto simp: triple_def split: prod.splits sum.splits)

lemma vouches_bind_keeps: "keeps (caches_ok env) f \<Longrightarrow> (\<And>a. vouches env ok (g a)) \<Longrightarrow> vouches env ok (op_bind f g)"
  by (rule triple_bind)

lemma vouches_ok: "ok a \<Longrightarrow> vouches env ok (op_ok a)"
  by (simp add: triple_def op_ok_def)

lemma vouches_err: "vouches env ok (op_err e)"
  by (simp add: triple_def op_err_def)

lemma vouches_result: "(\<And>a. r = Inr a \<Longrightarrow> ok a) \<Longrightarrow> vouches env ok (op_result r)"
  by (auto simp: triple_def op_result_def split: sum.splits)

lemma vouches_catch:
  assumes "vouches env ok' f" "\<And>a. ok' a \<Longrightarrow> vouches env ok (g (Inr a))" "\<And>e. vouches env ok (g (Inl e))"
  shows "vouches env ok (op_catch f g)"
proof (rule triple_catch [where Q' = "\<lambda>r s. caches_ok env s \<and> (\<forall>a. r = Inr a \<longrightarrow> ok' a)"])
  show "triple (caches_ok env) f (\<lambda>a s. caches_ok env s \<and> (\<forall>a'. Inr a = Inr a' \<longrightarrow> ok' a'))
      (\<lambda>e s. caches_ok env s \<and> (\<forall>a'. Inl e = Inr a' \<longrightarrow> ok' a'))"
    using assms(1) by simp
  show "triple (\<lambda>s. caches_ok env s \<and> (\<forall>a. r = Inr a \<longrightarrow> ok' a)) (g r) (\<lambda>a s. caches_ok env s \<and> ok a) (\<lambda>_. caches_ok env)" for r
    using assms(2,3) by (cases r) (auto simp: triple_def)
qed

lemma vouches_get: "(\<And>s. caches_ok env s \<Longrightarrow> ok (f s)) \<Longrightarrow> vouches env ok (op_get f)"
  by (simp add: triple_def op_get_def)

lemma with_index_lock_triple:
  assumes "triple P body Q R"
    and "\<And>s t. P s \<Longrightarrow> P (s\<lparr>ms_index_locks := t\<rparr>)" "\<And>a s t. Q a s \<Longrightarrow> Q a (s\<lparr>ms_index_locks := t\<rparr>)" "\<And>e s t. R e s \<Longrightarrow> R e (s\<lparr>ms_index_locks := t\<rparr>)"
  shows "triple P (with_index_lock key body) Q R"
  unfolding triple_iff
proof (intro allI impI)
  fix s r s' assume "P s" and run: "with_index_lock key body s = (r, s')"
  then obtain m table s0 where "body (s\<lparr>ms_index_locks := table\<rparr>) = (r, s0)" "s' = s0\<lparr>ms_index_locks := drop_lock (ms_index_locks s0) key m\<rparr>"
    by (auto simp: with_index_lock_def split: prod.splits)
  moreover from this(1) have "case r of Inr a \<Rightarrow> Q a s0 | Inl e \<Rightarrow> R e s0"
    using assms(1) assms(2) [OF \<open>P s\<close>] unfolding triple_iff by blast
  ultimately show "case r of Inr a \<Rightarrow> Q a s' | Inl e \<Rightarrow> R e s'"
    using assms(3,4) by (auto split: sum.splits)
qed

lemma with_version_lock_triple:
  assumes "triple P body Q R"
    and "\<And>s t. P s \<Longrightarrow> P (s\<lparr>ms_version_locks := t\<rparr>)" "\<And>a s t. Q a s \<Longrightarrow> Q a (s\<lparr>ms_version_locks := t\<rparr>)" "\<And>e s t. R e s \<Longrightarrow> R e (s\<lparr>ms_version_locks := t\<rparr>)"
  shows "triple P (with_version_lock key body) Q R"
  unfolding triple_iff
proof (intro allI impI)
  fix s r s' assume "P s" and run: "with_version_lock key body s = (r, s')"
  then obtain m table s0 where "body (s\<lparr>ms_version_locks := table\<rparr>) = (r, s0)" "s' = s0\<lparr>ms_version_locks := drop_lock (ms_version_locks s0) key m\<rparr>"
    by (auto simp: with_version_lock_def split: prod.splits)
  moreover from this(1) have "case r of Inr a \<Rightarrow> Q a s0 | Inl e \<Rightarrow> R e s0"
    using assms(1) assms(2) [OF \<open>P s\<close>] unfolding triple_iff by blast
  ultimately show "case r of Inr a \<Rightarrow> Q a s' | Inl e \<Rightarrow> R e s'"
    using assms(3,4) by (auto split: sum.splits)
qed

lemma vouches_locks:
  "vouches env ok body \<Longrightarrow> vouches env ok (with_index_lock key body)"
  "vouches env ok body \<Longrightarrow> vouches env ok (with_version_lock vkey body)"
  by (erule with_index_lock_triple with_version_lock_triple; simp)+

lemma vouches_hit:
  "vouches env (\<lambda>hit. \<forall>entry. hit = Some entry \<longrightarrow> ok entry) g \<Longrightarrow> vouches env ok f \<Longrightarrow>
     vouches env ok (op_bind g (\<lambda>hit. case hit of None \<Rightarrow> f | Some entry \<Rightarrow> op_ok entry))"
  by (erule vouches_bind) (auto intro: vouches_ok split: option.split)

lemma same_metadata_checks [same_metadata_rules]:
  "same_metadata (fresh_entry env svc lookup)" "same_metadata (refresh_allowed_now env svc table key)"
  "same_metadata (missing_refresh_wanted env svc vkey index)"
  unfolding fresh_entry_def entry_fresh_def refresh_allowed_now_def missing_refresh_wanted_def Let_def
    missing_version_refresh_allowed_def index_refresh_allowed_def
  by (intro same_metadata_rules)+

lemma fresh_entry_vouches:
  assumes "\<And>s entry. caches_ok env s \<Longrightarrow> lookup s = Some entry \<Longrightarrow> ok entry"
  shows "vouches env (\<lambda>hit. \<forall>entry. hit = Some entry \<longrightarrow> ok entry) (fresh_entry env' svc lookup)"
  unfolding fresh_entry_def
  by (rule vouches_bind [OF vouches_get [where ok = "\<lambda>c. \<forall>entry. c = Some entry \<longrightarrow> ok entry"]])
    (use assms in \<open>auto simp: triple_def entry_fresh_def Let_def now_epoch_def op_defs caches_ok_def split: option.splits\<close>)

text \<open>The body shared by the two loads vouches for its entry if its parts do.\<close>

lemma load_entry_locked_vouches:
  assumes lookup: "\<And>s entry. caches_ok env s \<Longrightarrow> lookup s = Some entry \<Longrightarrow> ok entry"
    and keeps: "keeps (caches_ok env) read_persisted" "keeps (caches_ok env) allowed"
      "keeps (caches_ok env) clear_failure" "keeps (caches_ok env) record_failure"
    and refresh: "vouches env ok refresh"
  shows "vouches env ok (load_entry_locked env' svc lookup read_persisted allowed refresh clear_failure record_failure)"
proof -
  note fresh = fresh_entry_vouches [where ok = ok, OF lookup]
  have found: "vouches env (\<lambda>c. \<forall>entry. c = Some entry \<longrightarrow> ok entry) (op_get lookup)"
    by (rule vouches_get) (use lookup in blast)
  have failed: "vouches env ok (op_bind (if should_backoff error then record_failure else op_ok ()) (\<lambda>_.
      op_bind (op_get lookup) (\<lambda>current.
      op_result (ok_or (case cached of Some entry \<Rightarrow> Some entry | None \<Rightarrow> current) error))))"
    if "\<forall>entry. cached = Some entry \<longrightarrow> ok entry" for cached error
    by (intro vouches_bind_keeps keeps_cases keeps keeps_ok vouches_bind [OF found] vouches_result)
      (use that in \<open>auto simp: ok_or_eq_Inr split: option.splits\<close>)
  have refreshed: "vouches env ok (if \<not> b then op_result (ok_or cached MdRefreshBackoff)
      else op_catch refresh (\<lambda>outcome. case outcome of
         Inr entry \<Rightarrow> op_bind clear_failure (\<lambda>_. op_ok entry)
       | Inl error \<Rightarrow>
           op_bind (if should_backoff error then record_failure else op_ok ()) (\<lambda>_.
           op_bind (op_get lookup) (\<lambda>current.
           op_result (ok_or (case cached of Some entry \<Rightarrow> Some entry | None \<Rightarrow> current) error)))))"
    if "\<forall>entry. cached = Some entry \<longrightarrow> ok entry" for cached b
  proof (cases b)
    case True
    have "vouches env ok (op_catch refresh (\<lambda>outcome. case outcome of
         Inr entry \<Rightarrow> op_bind clear_failure (\<lambda>_. op_ok entry)
       | Inl error \<Rightarrow>
           op_bind (if should_backoff error then record_failure else op_ok ()) (\<lambda>_.
           op_bind (op_get lookup) (\<lambda>current.
           op_result (ok_or (case cached of Some entry \<Rightarrow> Some entry | None \<Rightarrow> current) error)))))"
      by (rule vouches_catch [OF refresh]) (use failed [OF that] in \<open>auto intro: vouches_bind_keeps [OF keeps(3)] vouches_ok\<close>)
    then show ?thesis using True by simp
  next
    case False
    then show ?thesis using that by (auto intro!: vouches_result simp: ok_or_eq_Inr)
  qed
  have tail: "vouches env ok (op_bind (fresh_entry env' svc lookup) (\<lambda>hit. case hit of Some entry \<Rightarrow> op_ok entry | None \<Rightarrow>
     op_bind (op_get lookup) (\<lambda>cached. op_bind allowed (\<lambda>b.
       if \<not> b then op_result (ok_or cached MdRefreshBackoff)
       else op_catch refresh (\<lambda>outcome. case outcome of
         Inr entry \<Rightarrow> op_bind clear_failure (\<lambda>_. op_ok entry)
       | Inl error \<Rightarrow>
           op_bind (if should_backoff error then record_failure else op_ok ()) (\<lambda>_.
           op_bind (op_get lookup) (\<lambda>current.
           op_result (ok_or (case cached of Some entry \<Rightarrow> Some entry | None \<Rightarrow> current) error))))))))"
    by (intro vouches_hit fresh vouches_bind [OF found] vouches_bind_keeps [OF keeps(2)] refreshed)
  show ?thesis
    unfolding load_entry_locked_def
    by (intro vouches_hit fresh vouches_bind_keeps keeps_get keeps_cases keeps_ok keeps(1) tail)
qed

lemma caches_ok_lookup:
  "caches_ok env s \<Longrightarrow> index_of key s = Some entry \<Longrightarrow> validate_registry_versions (ce_value entry) = Inr ()"
  "caches_ok env s \<Longrightarrow> version_of vkey s = Some ventry \<Longrightarrow> version_ok env vkey ventry"
  by (auto simp: caches_ok_def index_of_def version_of_def)

lemma keeps_read_persisted_index: "keeps (caches_ok env) (read_persisted_index env' svc key)"
  unfolding read_persisted_index_def
  by (rule keeps_bind [OF keeps_same_metadata [OF same_metadata_store(1)]])
    (auto intro!: keeps_ok keeps_modify caches_ok_insert simp: is_ok_iff split: option.split)

lemma refresh_index_vouches:
  "vouches env (\<lambda>entry. validate_registry_versions (ce_value entry) = Inr ()) (refresh_index_unlocked env' svc key)"
proof -
  have store: "vouches env (\<lambda>entry. validate_registry_versions (ce_value entry) = Inr ())
      (op_bind (now_epoch env') (\<lambda>now.
       let entry = \<lparr>ce_fetched_at = now, ce_complete = True, ce_value = versions\<rparr> in
       op_bind (write_json_atomic env' path (env_index_to_json env' entry)) (\<lambda>_.
       op_bind (op_modify (\<lambda>s. s\<lparr>ms_indices := hm_insert key entry (ms_indices s)\<rparr>)) (\<lambda>_.
       op_ok entry))))" if "validate_registry_versions versions = Inr ()" for versions path
    unfolding Let_def
    by (intro vouches_bind_keeps keeps_same_metadata same_metadata_rules keeps_modify vouches_ok caches_ok_insert)
      (use that in simp_all)
  show ?thesis
    unfolding refresh_index_unlocked_def
    by (intro vouches_bind_keeps keeps_same_metadata same_metadata_rules
        vouches_bind [OF vouches_result [where ok = "\<lambda>_. validate_registry_versions _ = Inr ()"]] store) auto
qed

lemma load_index_vouches:
  "vouches env (\<lambda>entry. validate_registry_versions (ce_value entry) = Inr ()) (load_index env' svc key)"
  unfolding load_index_def load_index_locked_def index_refresh_allowed_def
  by (intro vouches_hit fresh_entry_vouches vouches_locks load_entry_locked_vouches refresh_index_vouches
      keeps_read_persisted_index keeps_same_metadata same_metadata_checks caches_ok_failures)
    (blast intro: caches_ok_lookup)+

lemma index_for_version_vouches:
  "vouches env (\<lambda>entry. validate_registry_versions (ce_value entry) = Inr ()) (index_for_version env' svc key)"
proof -
  let ?ok = "\<lambda>entry. validate_registry_versions (ce_value entry) = Inr ()"
  have refreshed: "vouches env ?ok (op_catch (refresh_index_unlocked env' svc (vk_provider key)) (\<lambda>outcome. case outcome of
      Inr index \<Rightarrow> op_bind (clear_index_failure (vk_provider key)) (\<lambda>_. op_ok index)
    | Inl error \<Rightarrow> op_bind (if should_backoff error then record_index_failure env' svc (vk_provider key) else op_ok ()) (\<lambda>_.
        op_err error)))"
    by (rule vouches_catch [OF refresh_index_vouches])
      (auto intro!: vouches_bind_keeps caches_ok_failures vouches_ok vouches_err keeps_ok)
  have current: "vouches env ?ok (op_get (\<lambda>s. case index_of (vk_provider key) s of Some current \<Rightarrow> current | None \<Rightarrow> index))"
    if "?ok index" for index
    by (rule vouches_get) (use that in \<open>auto dest: caches_ok_lookup split: option.split\<close>)
  have step: "vouches env ?ok (op_bind (missing_refresh_wanted env' svc key index) (\<lambda>wanted.
      if \<not> wanted then op_ok index
      else op_bind (record_missing_version_refresh env' svc (vk_provider key)) (\<lambda>_.
        op_catch (refresh_index_unlocked env' svc (vk_provider key)) (\<lambda>outcome. case outcome of
          Inr index \<Rightarrow> op_bind (clear_index_failure (vk_provider key)) (\<lambda>_. op_ok index)
        | Inl error \<Rightarrow> op_bind (if should_backoff error then record_index_failure env' svc (vk_provider key) else op_ok ()) (\<lambda>_.
            op_err error)))))" if "?ok index" for index
    by (rule vouches_bind_keeps [OF keeps_same_metadata [OF same_metadata_checks(3)]])
      (use that refreshed in \<open>auto intro!: vouches_ok vouches_bind_keeps [OF caches_ok_failures(5)]\<close>)
  show ?thesis
    unfolding index_for_version_def
    by (rule vouches_bind [OF load_index_vouches], rule vouches_bind_keeps [OF keeps_same_metadata [OF same_metadata_checks(3)]])
      (auto intro!: vouches_ok vouches_locks vouches_bind [OF current] step)
qed

subsection \<open>Packages\<close>

abbreviation package_ok :: "('u, 'c, 'v, 'y) metadata_env_scheme \<Rightarrow> version_key \<Rightarrow> platform_metadata \<Rightarrow> bool" where
  "package_ok env key p \<equiv> validate_package (env_url env) (sv_parse (env_semver env)) key (platform_of p) p = Inr ()"

lemma validate_package_own_platform:
  "validate_package api semver key requested p = Inr () \<Longrightarrow> validate_package api semver key (platform_of p) p = Inr ()"
  by (auto simp: validate_package_iff platform_of_def)

lemma fetch_packages_vouches:
  "vouches env (\<lambda>results. \<forall>p. Inr p \<in> set results \<longrightarrow> package_ok env' key p)
     (fetch_packages env' svc key platforms :: (('u, 'z) metadata_state_scheme, metadata_error, _) oper)"
proof (induction platforms)
  case Nil
  then show ?case by (auto intro: vouches_ok)
next
  case (Cons platform platforms)
  have result: "package_ok env' key p"
    if "Inr p = try_bind result (\<lambda>package. map_sum id (\<lambda>_. package)
          (validate_package (env_url env') (sv_parse (env_semver env')) key platform package))" for p result
    using that by (auto simp: try_bind_def map_sum_def split: sum.splits dest: sym intro: validate_package_own_platform)
  have call: "vouches env (\<lambda>_. True) (op_map_err map_registry (registry_package env' (sv_registry svc) (pk_hostname (vk_provider key))
       (pk_namespace (vk_provider key)) (pk_provider_type (vk_provider key)) (vk_version key) platform))"
    using keeps_same_metadata [OF metadata.respects_map_err [OF same_metadata_registry(2)]] by simp
  have rest: "vouches env (\<lambda>results. \<forall>p. Inr p \<in> set results \<longrightarrow> package_ok env' key p)
      (op_bind (fetch_packages env' svc key platforms :: (('u, 'z) metadata_state_scheme, metadata_error, _) oper) (\<lambda>results. op_ok (try_bind result (\<lambda>package.
        map_sum id (\<lambda>_. package) (validate_package (env_url env') (sv_parse (env_semver env')) key platform package)) # results)))"
    for result
    by (rule vouches_bind [OF Cons.IH], rule vouches_ok) (auto dest: result)
  show ?case unfolding fetch_packages.simps by (rule vouches_catch [OF call]) (rule rest)+
qed

lemma collect_packages_inv:
  assumes "\<forall>p. Inr p \<in> set results \<longrightarrow> P p" "\<forall>p \<in> ran refreshed. P p"
  shows "\<forall>p \<in> ran (fst (collect_packages results refreshed first_error)). P p"
  using assms
proof (induction results refreshed first_error rule: collect_packages.induct)
  case (2 package results refreshed first_error)
  have "ran (refreshed((pm_os package, pm_arch package) \<mapsto> package)) \<subseteq> insert package (ran refreshed)"
    by (auto simp: ran_def)
  then have new: "\<forall>p \<in> ran (refreshed((pm_os package, pm_arch package) \<mapsto> package)). P p"
    using "2.prems" by (metis insertE list.set_intros(1) subsetD)
  have "\<forall>p. Inr p \<in> set results \<longrightarrow> P p" using "2.prems"(1) by simp
  then show ?case unfolding collect_packages.simps using new by (rule "2.IH")
qed auto

lemma find_SomeD: "find P xs = Some x \<Longrightarrow> x \<in> set xs \<and> P x"
  by (auto simp: find_Some_iff)

lemma merge_platforms_inv:
  assumes "\<forall>p \<in> ran refreshed. P p" "\<forall>entry. cached = Some entry \<longrightarrow> (\<forall>p \<in> set (vm_platforms (ce_value entry)). P p)"
  shows "\<forall>p \<in> set (merge_platforms cached valid refreshed platforms). P p"
  using assms
proof (induction cached valid refreshed platforms rule: merge_platforms.induct)
  case (2 cached valid refreshed platform platforms)
  show ?case
  proof (cases "refreshed (rp_os platform, rp_arch platform)")
    case (Some package)
    have "ran (refreshed((rp_os platform, rp_arch platform) := None)) \<subseteq> ran refreshed" by (auto simp: ran_def)
    then have "\<forall>p \<in> ran (refreshed((rp_os platform, rp_arch platform) := None)). P p"
      using "2.prems"(1) by blast
    then have "\<forall>p \<in> set (merge_platforms cached valid (refreshed((rp_os platform, rp_arch platform) := None)) platforms). P p"
      by (rule "2.IH"(3) [OF Some _ "2.prems"(2)])
    moreover have "P package" using "2.prems"(1) Some by (blast intro: ranI)
    ultimately show ?thesis using Some by simp
  next
    case None
    let ?found = "Option.bind cached (\<lambda>entry. find (\<lambda>item. pm_os item = rp_os platform \<and> pm_arch item = rp_arch platform \<and>
          (pm_os item, pm_arch item) \<in> (\<lambda>p. (rp_os p, rp_arch p)) ` set valid) (vm_platforms (ce_value entry)))"
    have "P item" if "?found = Some item" for item
      using that "2.prems"(2) by (auto simp: bind_eq_Some_conv dest!: find_SomeD)
    moreover have "\<forall>p \<in> set (merge_platforms cached valid refreshed platforms). P p"
      using "2.IH"(1,2) [OF None _ "2.prems"] by (cases ?found) blast+
    ultimately show ?thesis using None by (cases ?found) simp_all
  qed
qed simp

lemma refresh_version_vouches: "vouches env (version_ok env key) (refresh_version env svc key)"
proof -
  have cached: "vouches env (\<lambda>c. \<forall>entry. c = Some entry \<longrightarrow> version_ok env key entry) (op_get (version_of key))"
    by (rule vouches_get) (auto dest: caches_ok_lookup)
  have store: "vouches env (version_ok env key)
      (op_bind (now_epoch env) (\<lambda>now.
         let entry = \<lparr>ce_fetched_at = now, ce_complete = c,
               ce_value = \<lparr>vm_hostname = pk_hostname (vk_provider key), vm_namespace = pk_namespace (vk_provider key),
                 vm_provider_type = pk_provider_type (vk_provider key), vm_version = vk_version key,
                 vm_platforms = platforms\<rparr>\<rparr> in
         op_bind (write_json_atomic env path (env_version_to_json env entry)) (\<lambda>_.
         op_bind (op_modify (\<lambda>s. s\<lparr>ms_versions := (ms_versions s)(key \<mapsto> entry)\<rparr>)) (\<lambda>_.
         op_ok entry))))" if "\<forall>p \<in> set platforms. package_ok env key p" for platforms c path
    unfolding Let_def
    by (intro vouches_bind_keeps keeps_same_metadata same_metadata_rules keeps_modify vouches_ok caches_ok_insert)
      (use that in \<open>simp_all add: version_ok_def\<close>)
  show ?thesis
    unfolding refresh_version_def
  proof (rule vouches_bind [OF index_for_version_vouches], rule vouches_bind_keeps [OF keeps_result],
      rule vouches_bind [OF cached], rule vouches_bind [OF fetch_packages_vouches])
    fix index summary cached and results :: "(metadata_error, platform_metadata) result list"
    assume c: "\<forall>entry. cached = Some entry \<longrightarrow> version_ok env key entry"
      and r: "\<forall>p. Inr p \<in> set results \<longrightarrow> package_ok env key p"
    obtain refreshed first_error where collect: "collect_packages results Map.empty None = (refreshed, first_error)" by fastforce
    have "\<forall>p \<in> ran refreshed. package_ok env key p"
      using collect_packages_inv [of results "package_ok env key" Map.empty None] r collect by simp
    then have "\<forall>p \<in> set (merge_platforms cached (rv_platforms summary) refreshed (rv_platforms summary)). package_ok env key p"
      using c by (intro merge_platforms_inv) (auto simp: version_ok_def)
    from store [OF this] show "vouches env (version_ok env key) (case collect_packages results Map.empty None of (refreshed, first_error) \<Rightarrow>
       (let platforms = merge_platforms cached (rv_platforms summary) refreshed (rv_platforms summary) in
        case (if platforms = [] then first_error else None) of
          Some error \<Rightarrow> op_err error
        | None \<Rightarrow>
            op_bind (now_epoch env) (\<lambda>now.
              let entry = \<lparr>ce_fetched_at = now, ce_complete = (first_error = None),
                    ce_value = \<lparr>vm_hostname = pk_hostname (vk_provider key), vm_namespace = pk_namespace (vk_provider key),
                      vm_provider_type = pk_provider_type (vk_provider key), vm_version = vk_version key,
                      vm_platforms = platforms\<rparr>\<rparr> in
              op_bind (write_json_atomic env (version_path (sv_data_dir svc) key) (env_version_to_json env entry)) (\<lambda>_.
              op_bind (op_modify (\<lambda>s. s\<lparr>ms_versions := (ms_versions s)(key \<mapsto> entry)\<rparr>)) (\<lambda>_.
              op_ok entry)))))"
      unfolding collect prod.case Let_def by (auto intro: vouches_err split: option.split)
  qed
qed

lemma keeps_read_persisted_version: "keeps (caches_ok env) (read_persisted_version env svc key)"
  unfolding read_persisted_version_def
  by (rule keeps_bind [OF keeps_same_metadata [OF same_metadata_store(1)]])
    (auto intro!: keeps_ok keeps_modify caches_ok_insert simp: is_ok_iff validate_version_metadata_iff version_ok_def split: option.split)

lemma load_version_vouches: "vouches env (version_ok env key) (load_version env svc key)"
  unfolding load_version_def load_version_locked_def version_refresh_allowed_def
  by (intro vouches_hit fresh_entry_vouches vouches_locks load_entry_locked_vouches refresh_version_vouches
      keeps_read_persisted_version keeps_same_metadata same_metadata_checks caches_ok_failures)
    (blast intro: caches_ok_lookup)+

end
