(* ===== verification/Metadata_Queries.thy ===== *)
theory Metadata_Queries
  imports Metadata_Service
begin

text \<open>
  The public operations of the metadata service (\<^verbatim>\<open>src/src/metadata.rs\<close>): construction with the
  indices found on disk, the queries for versions, one version and one archive, the synchronisation
  and the insertion of a version.

  The directories read at start are a parameter: what \<open>read_dir\<close> and \<open>read\<close> return for a path.
\<close>

section \<open>Definitions\<close>

subsection \<open>Queries\<close>

definition provider_key_of ::
  "('u, 'c) metadata_service \<Rightarrow> string \<Rightarrow> string \<Rightarrow> string \<Rightarrow> (metadata_error, provider_key) result" where
  "provider_key_of svc hostname namespace provider_type =
     try_bind (validate_hostname hostname) (\<lambda>_.
     try_bind (validate_component namespace ''namespace'') (\<lambda>_.
     try_bind (validate_component provider_type ''provider type'') (\<lambda>_.
       if hostname \<notin> set (sv_allowed_registries svc) then Inl (MdRegistryNotAllowed hostname)
       else Inr \<lparr>pk_hostname = hostname, pk_namespace = namespace, pk_provider_type = provider_type\<rparr>)))"

definition list_versions ::
  "('u, 'c, 'v, 'y) metadata_env_scheme \<Rightarrow> ('u, 'c) metadata_service \<Rightarrow> string \<Rightarrow> string \<Rightarrow> string \<Rightarrow>
     (('u, 'z) metadata_state_scheme, metadata_error, string list) oper" where
  "list_versions env svc hostname namespace provider_type =
     op_bind (op_result (provider_key_of svc hostname namespace provider_type)) (\<lambda>key.
     op_bind (load_index env svc key) (\<lambda>entry.
     op_ok (sort_by (compare_versions (env_semver env))
       (env_hash_order env (map (\<lambda>item. strip_v (rv_version item)) (ce_value entry))))))"

definition get_version_entry ::
  "('u, 'c, 'v, 'y) metadata_env_scheme \<Rightarrow> ('u, 'c) metadata_service \<Rightarrow> string \<Rightarrow> string \<Rightarrow> string \<Rightarrow> string \<Rightarrow>
     (('u, 'z) metadata_state_scheme, metadata_error, version_entry option) oper" where
  "get_version_entry env svc hostname namespace provider_type version =
     op_bind (op_result (validate_version version ''version'')) (\<lambda>_.
     op_bind (op_result (provider_key_of svc hostname namespace provider_type)) (\<lambda>provider.
     op_catch (load_version env svc \<lparr>vk_provider = provider, vk_version = strip_v version\<rparr>) (\<lambda>outcome. case outcome of
       Inr entry \<Rightarrow> op_ok (Some entry)
     | Inl MdNotFound \<Rightarrow> op_ok None
     | Inl error \<Rightarrow> op_err error)))"

definition get_version ::
  "('u, 'c, 'v, 'y) metadata_env_scheme \<Rightarrow> ('u, 'c) metadata_service \<Rightarrow> string \<Rightarrow> string \<Rightarrow> string \<Rightarrow> string \<Rightarrow>
     (('u, 'z) metadata_state_scheme, metadata_error, version_metadata option) oper" where
  "get_version env svc hostname namespace provider_type version =
     op_bind (get_version_entry env svc hostname namespace provider_type version) (\<lambda>entry.
     op_ok (map_option ce_value entry))"

definition get_platform_by_archive ::
  "('u, 'c, 'v, 'y) metadata_env_scheme \<Rightarrow> ('u, 'c) metadata_service \<Rightarrow> string \<Rightarrow> string \<Rightarrow> string \<Rightarrow> string \<Rightarrow>
     (('u, 'z) metadata_state_scheme, metadata_error, platform_metadata option) oper" where
  "get_platform_by_archive env svc hostname namespace provider_type filename =
     op_bind (op_result (map_err (\<lambda>_. MdInvalidAddress ''archive filename'')
       (parse_archive (sv_parse (env_semver env)) provider_type filename))) (\<lambda>archive.
     op_bind (get_version_entry env svc hostname namespace provider_type (an_version archive)) (\<lambda>entry.
     op_ok (Option.bind entry (\<lambda>entry. find (\<lambda>item. pm_filename item = filename) (vm_platforms (ce_value entry))))))"

subsection \<open>Synchronisation\<close>

definition sync_index ::
  "('u, 'c, 'v, 'y) metadata_env_scheme \<Rightarrow> ('u, 'c) metadata_service \<Rightarrow> provider_key \<Rightarrow> nat \<Rightarrow>
     (('u, 'z) metadata_state_scheme, metadata_error, nat) oper" where
  "sync_index env svc key failures =
     with_index_lock key (op_catch (refresh_index_unlocked env svc key) (\<lambda>outcome. case outcome of
       Inl error \<Rightarrow>
         op_bind (if should_backoff error then record_index_failure env svc key else op_ok ()) (\<lambda>_. op_ok (failures + 1))
     | Inr _ \<Rightarrow> op_bind (clear_index_failure key) (\<lambda>_. op_ok failures)))"

fun sync_indices ::
  "('u, 'c, 'v, 'y) metadata_env_scheme \<Rightarrow> ('u, 'c) metadata_service \<Rightarrow> provider_key list \<Rightarrow> nat \<Rightarrow>
     (('u, 'z) metadata_state_scheme, metadata_error, nat) oper" where
  "sync_indices env svc [] failures = op_ok failures"
| "sync_indices env svc (key # keys) failures = op_bind (sync_index env svc key failures) (sync_indices env svc keys)"

definition sync_known ::
  "('u, 'c, 'v, 'y) metadata_env_scheme \<Rightarrow> ('u, 'c) metadata_service \<Rightarrow> (('u, 'z) metadata_state_scheme, metadata_error, unit) oper" where
  "sync_known env svc =
     op_bind (op_get ms_syncing) (\<lambda>syncing.
       if syncing then op_err MdSyncInProgress
       else
         op_bind (op_modify (\<lambda>s. s\<lparr>ms_syncing := True\<rparr>)) (\<lambda>_.
         op_bind (op_get (\<lambda>s. map fst (ms_indices s))) (\<lambda>keys.
         op_catch (op_bind (sync_indices env svc keys 0) (\<lambda>failures.
             if failures = 0 then op_ok () else op_err (MdSyncFailed failures)))
           (\<lambda>outcome. op_bind (op_modify (\<lambda>s. s\<lparr>ms_syncing := False\<rparr>)) (\<lambda>_. op_result outcome)))))"

subsection \<open>Insertion\<close>

definition index_item :: "version_metadata \<Rightarrow> registry_version" where
  "index_item version = \<lparr>rv_version = vm_version version, rv_platforms = map platform_of (vm_platforms version)\<rparr>"

definition insert_version ::
  "('u, 'c, 'v, 'y) metadata_env_scheme \<Rightarrow> version_metadata \<Rightarrow> (('u, 'z) metadata_state_scheme, metadata_error, unit) oper" where
  "insert_version env version =
     (let provider = \<lparr>pk_hostname = vm_hostname version, pk_namespace = vm_namespace version, pk_provider_type = vm_provider_type version\<rparr>;
          key = \<lparr>vk_provider = provider, vk_version = vm_version version\<rparr> in
      op_bind (now_epoch env) (\<lambda>now.
      op_bind (op_modify (\<lambda>s. s\<lparr>ms_versions := (ms_versions s)(key \<mapsto>
        \<lparr>ce_fetched_at = now, ce_complete = True, ce_value = version\<rparr>)\<rparr>)) (\<lambda>_.
      op_bind (op_get (index_of provider)) (\<lambda>current.
      op_bind (case current of
          Some entry \<Rightarrow> op_ok entry
        | None \<Rightarrow> op_bind (now_epoch env) (\<lambda>now. op_ok \<lparr>ce_fetched_at = now, ce_complete = True, ce_value = []\<rparr>)) (\<lambda>entry.
      op_modify (\<lambda>s. s\<lparr>ms_indices := hm_insert provider
        (if list_ex (\<lambda>item. rv_version item = vm_version version) (ce_value entry) then entry
         else entry\<lparr>ce_value := ce_value entry @ [index_item version]\<rparr>) (ms_indices s)\<rparr>))))))"

subsection \<open>Construction\<close>

record dir_entry =
  d_name :: string
  d_is_dir :: "(io_error, bool) result"

type_synonym read_dir = "string \<Rightarrow> (io_error, (io_error, dir_entry) result list) result"

fun try_fold :: "('b \<Rightarrow> 'a \<Rightarrow> ('e, 'b) result) \<Rightarrow> 'b \<Rightarrow> 'a list \<Rightarrow> ('e, 'b) result" where
  "try_fold f acc [] = Inr acc"
| "try_fold f acc (x # xs) = (case f acc x of Inl e \<Rightarrow> Inl e | Inr acc' \<Rightarrow> try_fold f acc' xs)"

text \<open>One level of the walk: the entries of a directory that pass a test on their name and are directories.\<close>

definition visit_dirs ::
  "(string \<Rightarrow> bool) \<Rightarrow> (string \<Rightarrow> 'b \<Rightarrow> (metadata_error, 'b) result) \<Rightarrow> (io_error, dir_entry) result list \<Rightarrow> 'b \<Rightarrow>
     (metadata_error, 'b) result" where
  "visit_dirs wanted visit entries acc =
     try_fold (\<lambda>acc entry.
       try_bind (map_err MdIo entry) (\<lambda>entry.
         if \<not> wanted (d_name entry) then Inr acc
         else try_bind (map_err MdIo (d_is_dir entry)) (\<lambda>is_dir. if \<not> is_dir then Inr acc else visit (d_name entry) acc)))
       acc entries"

definition visit_provider ::
  "(string \<Rightarrow> (io_error, octet list) result) \<Rightarrow> (octet list \<Rightarrow> (string, index_entry) result) \<Rightarrow> string \<Rightarrow> provider_key \<Rightarrow>
     (provider_key, index_entry) hashmap \<Rightarrow> (metadata_error, (provider_key, index_entry) hashmap) result" where
  "visit_provider read from_slice provider_path key indices =
     (case read (path_join provider_path ''index.json'') of
        Inl IoNotFound \<Rightarrow> Inr indices
      | Inl e \<Rightarrow> Inl (MdIo e)
      | Inr bytes \<Rightarrow>
          (case from_slice bytes of
             Inl _ \<Rightarrow> Inr indices
           | Inr entry \<Rightarrow>
               (if is_err (validate_registry_versions (ce_value entry)) then Inr indices
                else Inr (hm_insert key entry indices))))"

definition discover_indices ::
  "read_dir \<Rightarrow> (string \<Rightarrow> (io_error, octet list) result) \<Rightarrow> (octet list \<Rightarrow> (string, index_entry) result) \<Rightarrow> string \<Rightarrow> string list \<Rightarrow>
     (metadata_error, (provider_key, index_entry) hashmap) result" where
  "discover_indices read_dir read from_slice root allowed =
     (case read_dir root of
        Inl IoNotFound \<Rightarrow> Inr []
      | Inl e \<Rightarrow> Inl (MdIo e)
      | Inr hostnames \<Rightarrow>
          visit_dirs (\<lambda>hostname. hostname \<in> set allowed) (\<lambda>hostname indices.
            try_bind (map_err MdIo (read_dir (path_join root hostname))) (\<lambda>namespaces.
            visit_dirs valid_component (\<lambda>namespace indices.
              try_bind (map_err MdIo (read_dir (path_join (path_join root hostname) namespace))) (\<lambda>providers.
              visit_dirs valid_component (\<lambda>provider_type indices.
                visit_provider read from_slice (path_join (path_join (path_join root hostname) namespace) provider_type)
                  \<lparr>pk_hostname = hostname, pk_namespace = namespace, pk_provider_type = provider_type\<rparr> indices)
                providers indices))
              namespaces indices))
            hostnames [])"

text \<open>\<open>with_registry_client\<close>: the service and the initial contents of its index cache.\<close>

definition with_registry_client ::
  "read_dir \<Rightarrow> (string \<Rightarrow> (io_error, octet list) result) \<Rightarrow> (octet list \<Rightarrow> (string, index_entry) result) \<Rightarrow> string \<Rightarrow> string list \<Rightarrow>
     nat \<Rightarrow> ('u, 'c) registry_client \<Rightarrow>
     (metadata_error, ('u, 'c) metadata_service \<times> (provider_key, index_entry) hashmap) result" where
  "with_registry_client read_dir read from_slice data_dir allowed freshness registry =
     try_bind (try_all validate_hostname allowed) (\<lambda>_.
     let metadata_dir = path_join data_dir ''metadata'' in
     try_bind (discover_indices read_dir read from_slice metadata_dir allowed) (\<lambda>indices.
     Inr (\<lparr>sv_data_dir = metadata_dir, sv_allowed_registries = allowed, sv_freshness = freshness, sv_registry = registry,
           sv_refresh_backoff = 30 * second\<rparr>, indices)))"

definition initial_metadata_state ::
  "'u registry_state \<Rightarrow> (provider_key, index_entry) hashmap \<Rightarrow> 'u metadata_state" where
  "initial_metadata_state s indices = registry_state.extend s
     \<lparr>ms_indices = indices, ms_versions = Map.empty, ms_index_locks = empty_lock_table, ms_version_locks = empty_lock_table,
      ms_index_failures = [], ms_version_failures = [], ms_index_miss_refreshes = [], ms_syncing = False\<rparr>"

text \<open>\<open>new\<close> makes the registry client first; \<open>default\<close> panics on an error, which is \<open>None\<close>.\<close>

definition metadata_service_new ::
  "read_dir \<Rightarrow> (string \<Rightarrow> (io_error, octet list) result) \<Rightarrow> (octet list \<Rightarrow> (string, index_entry) result) \<Rightarrow> string \<Rightarrow> string list \<Rightarrow>
     nat \<Rightarrow> (outbound_error, 'c outbound_client) result \<Rightarrow>
     (metadata_error, ('u, 'c) metadata_service \<times> (provider_key, index_entry) hashmap) result" where
  "metadata_service_new read_dir read from_slice data_dir allowed freshness direct_client =
     try_bind (map_err MdRegistry (registry_new direct_client)) (with_registry_client read_dir read from_slice data_dir allowed freshness)"

definition default_metadata_service ::
  "read_dir \<Rightarrow> (string \<Rightarrow> (io_error, octet list) result) \<Rightarrow> (octet list \<Rightarrow> (string, index_entry) result) \<Rightarrow>
     (outbound_error, 'c outbound_client) result \<Rightarrow> (('u, 'c) metadata_service \<times> (provider_key, index_entry) hashmap) option" where
  "default_metadata_service read_dir read from_slice direct_client =
     (case metadata_service_new read_dir read from_slice ''.'' [''registry.terraform.io''] (30 * 60 * second) direct_client of
        Inl _ \<Rightarrow> None | Inr service \<Rightarrow> Some service)"

definition refresh_lock_count :: "('u, 'z) metadata_state_scheme \<Rightarrow> nat" where
  "refresh_lock_count s = length (lt_map (ms_index_locks s)) + length (lt_map (ms_version_locks s))"

subsection \<open>Runs of the service\<close>

datatype metadata_query =
    ListVersions string string string
  | GetVersion string string string string
  | GetPlatform string string string string
  | SyncKnown

fun run_query ::
  "('u, 'c, 'v, 'y) metadata_env_scheme \<Rightarrow> ('u, 'c) metadata_service \<Rightarrow> metadata_query \<Rightarrow> 'u metadata_state \<Rightarrow> 'u metadata_state" where
  "run_query env svc (ListVersions h n t) s = snd (list_versions env svc h n t s)"
| "run_query env svc (GetVersion h n t v) s = snd (get_version env svc h n t v s)"
| "run_query env svc (GetPlatform h n t f) s = snd (get_platform_by_archive env svc h n t f s)"
| "run_query env svc SyncKnown s = snd (sync_known env svc s)"

definition service_init ::
  "('u, 'c, 'v, 'y) metadata_env_scheme \<Rightarrow> ('u, 'c) metadata_service \<Rightarrow> 'u metadata_state \<Rightarrow> bool" where
  "service_init env svc s \<longleftrightarrow>
     (\<exists>read_dir read data_dir freshness registry indices s0.
        with_registry_client read_dir read (env_index_of_json env) data_dir (sv_allowed_registries svc) freshness registry =
          Inr (svc, indices) \<and> s = initial_metadata_state s0 indices)"

inductive service_step ::
  "('u, 'c, 'v, 'y) metadata_env_scheme \<Rightarrow> ('u, 'c) metadata_service \<Rightarrow> 'u metadata_state \<Rightarrow> 'u metadata_state \<Rightarrow> bool"
  for env svc where
  query: "service_step env svc s (run_query env svc q s)"
| disk_change: "service_step env svc s (s\<lparr>w_fs := fs\<rparr>)"

section \<open>Lemmas\<close>

subsection \<open>The invariant of the caches\<close>

lemma provider_key_of_ok:
  "provider_key_of svc h n t = Inr key \<longleftrightarrow>
     validate_hostname h = Inr () \<and> valid_component n \<and> valid_component t \<and> h \<in> set (sv_allowed_registries svc) \<and>
     key = \<lparr>pk_hostname = h, pk_namespace = n, pk_provider_type = t\<rparr>"
  by (auto simp: provider_key_of_def try_bind_eq_Inr validate_component_ok split: if_splits)

lemma keeps_vouches: "vouches env ok f \<Longrightarrow> keeps (caches_ok env) f"
  by (erule triple_weaken) auto

lemma keeps_snd: "keeps I f \<Longrightarrow> I s \<Longrightarrow> I (snd (f s))"
  using keeps_run [of I f s "fst (f s)" "snd (f s)"] by simp

lemma get_version_entry_vouches:
  "vouches env (\<lambda>found. \<forall>entry. found = Some entry \<longrightarrow> (\<exists>provider. provider_key_of svc h n t = Inr provider \<and>
      version_ok env \<lparr>vk_provider = provider, vk_version = strip_v version\<rparr> entry)) (get_version_entry env svc h n t version)"
  unfolding get_version_entry_def
  by (intro vouches_bind_keeps [OF keeps_result]
      vouches_bind [OF vouches_result [where ok = "\<lambda>provider. provider_key_of svc h n t = Inr provider"]]
      vouches_catch [OF load_version_vouches])
    (auto intro!: vouches_ok vouches_err split: metadata_error.split)

lemma keeps_sync_index: "keeps (caches_ok env) (sync_index env' svc key failures)"
proof -
  have "vouches env (\<lambda>_. True) (sync_index env' svc key failures)"
    unfolding sync_index_def
    by (intro vouches_locks vouches_catch [OF refresh_index_vouches])
      (auto intro!: keeps_bind caches_ok_failures keeps_ok)
  then show ?thesis by (rule keeps_vouches)
qed

lemma keeps_sync_indices: "keeps (caches_ok env) (sync_indices env' svc keys failures :: (('u, 'z) metadata_state_scheme, _, _) oper)"
  by (induction keys arbitrary: failures) (auto intro!: keeps_ok keeps_bind keeps_sync_index)

lemma keeps_sync_known: "keeps (caches_ok env) (sync_known env' svc)"
  unfolding sync_known_def
  by (intro keeps_bind keeps_get keeps_cases keeps_err keeps_modify keeps_catch keeps_sync_indices keeps_ok keeps_result) simp_all

lemma keeps_queries:
  "keeps (caches_ok env) (list_versions env' svc h n t)"
  "keeps (caches_ok env) (get_version env svc h n t v)"
  "keeps (caches_ok env) (get_platform_by_archive env svc h n t f)"
  unfolding list_versions_def get_version_def get_platform_by_archive_def
  by (intro keeps_bind keeps_result keeps_ok keeps_vouches [OF load_index_vouches] keeps_vouches [OF get_version_entry_vouches])+

lemma try_fold_inv:
  "(\<And>acc x acc'. I acc \<Longrightarrow> f acc x = Inr acc' \<Longrightarrow> I acc') \<Longrightarrow> I acc \<Longrightarrow> try_fold f acc xs = Inr acc' \<Longrightarrow> I acc'"
  by (induction xs arbitrary: acc) (auto split: sum.splits)

lemma visit_dirs_inv:
  assumes "\<And>name acc acc'. wanted name \<Longrightarrow> I acc \<Longrightarrow> visit name acc = Inr acc' \<Longrightarrow> I acc'" and "I acc"
    and "visit_dirs wanted visit entries acc = Inr acc'"
  shows "I acc'"
  using assms(3) unfolding visit_dirs_def
  by (rule try_fold_inv [where I = I, rotated 2]) (use assms(1,2) in \<open>auto simp: try_bind_eq_Inr split: if_splits\<close>)

definition indices_ok :: "string list \<Rightarrow> (provider_key, index_entry) hashmap \<Rightarrow> bool" where
  "indices_ok allowed indices \<longleftrightarrow>
     (\<forall>key entry. hm_get indices key = Some entry \<longrightarrow> validate_registry_versions (ce_value entry) = Inr () \<and>
        pk_hostname key \<in> set allowed \<and> valid_component (pk_namespace key) \<and> valid_component (pk_provider_type key))"

lemma visit_provider_inv:
  assumes "visit_provider read from_slice path key indices = Inr indices'" "indices_ok allowed indices"
    and "pk_hostname key \<in> set allowed" "valid_component (pk_namespace key)" "valid_component (pk_provider_type key)"
  shows "indices_ok allowed indices'"
  using assms
  by (auto simp: visit_provider_def indices_ok_def hm_insert_get is_ok_iff split: sum.splits io_error.splits if_splits)

lemma discover_indices_ok:
  assumes "discover_indices read_dir read from_slice root allowed = Inr indices"
  shows "indices_ok allowed indices"
proof (cases "read_dir root")
  case (Inl e)
  then show ?thesis using assms by (cases e) (auto simp: discover_indices_def indices_ok_def)
next
  case (Inr hostnames)
  note run = assms [unfolded discover_indices_def Inr sum.case]
  show ?thesis
  proof (rule visit_dirs_inv [where I = "indices_ok allowed", OF _ _ run])
    fix h acc acc'
    assume h: "h \<in> set allowed" and acc: "indices_ok allowed acc"
      and "try_bind (map_err MdIo (read_dir (path_join root h))) (\<lambda>namespaces.
            visit_dirs valid_component (\<lambda>namespace indices.
              try_bind (map_err MdIo (read_dir (path_join (path_join root h) namespace))) (\<lambda>providers.
              visit_dirs valid_component (\<lambda>provider_type indices.
                visit_provider read from_slice (path_join (path_join (path_join root h) namespace) provider_type)
                  \<lparr>pk_hostname = h, pk_namespace = namespace, pk_provider_type = provider_type\<rparr> indices)
                providers indices))
              namespaces acc) = Inr acc'"
    then obtain namespaces where run: "visit_dirs valid_component (\<lambda>namespace indices.
              try_bind (map_err MdIo (read_dir (path_join (path_join root h) namespace))) (\<lambda>providers.
              visit_dirs valid_component (\<lambda>provider_type indices.
                visit_provider read from_slice (path_join (path_join (path_join root h) namespace) provider_type)
                  \<lparr>pk_hostname = h, pk_namespace = namespace, pk_provider_type = provider_type\<rparr> indices)
                providers indices))
              namespaces acc = Inr acc'"
      by (auto simp: try_bind_eq_Inr)
    show "indices_ok allowed acc'"
      by (rule visit_dirs_inv [where I = "indices_ok allowed", OF _ acc run])
        (auto simp: try_bind_eq_Inr h intro: visit_provider_inv
          elim!: visit_dirs_inv [where I = "indices_ok allowed", rotated 2])
  qed (simp add: indices_ok_def)
qed

lemma service_init_caches_ok: "service_init env svc s \<Longrightarrow> caches_ok env s"
  by (auto simp: service_init_def with_registry_client_def try_bind_eq_Inr Let_def caches_ok_def initial_metadata_state_def
      registry_state.defs dest!: discover_indices_ok simp: indices_ok_def)

lemma service_step_caches_ok:
  assumes "service_step env svc s s'" "caches_ok env s"
  shows "caches_ok env s'"
  using assms
proof (cases rule: service_step.cases)
  case (query q)
  then show ?thesis
    using assms(2) by (cases q) (auto intro!: keeps_snd keeps_queries keeps_sync_known)
next
  case (disk_change fs)
  then show ?thesis using assms(2) by (simp add: caches_ok_def)
qed

interpretation service: inductive_invariant "service_init env svc" "service_step env svc" "caches_ok env" for env svc
  by unfold_locales (auto intro: service_init_caches_ok service_step_caches_ok)

subsection \<open>A cached entry is served whatever happens\<close>

lemma fresh_entry_run:
  "\<exists>r s'. fresh_entry env svc lookup s = (Inr r, s') \<and> same_more s s' \<and> (\<forall>entry. r = Some entry \<longrightarrow> lookup s = Some entry) \<and>
     w_sent s' = w_sent s"
  by (auto simp: fresh_entry_def entry_fresh_def now_epoch_def op_defs same_more_def Let_def split: option.splits)

lemma refresh_allowed_now_run:
  "\<exists>b s'. refresh_allowed_now env svc table key s = (Inr b, s') \<and> same_more s s'"
  by (auto simp: refresh_allowed_now_def instant_now_def op_defs same_more_def split: option.splits)

text \<open>The body shared by the loads returns when the lookup finds something and its parts other than the
  refresh do.\<close>

lemma load_entry_locked_serves:
  fixes lookup :: "('u, 'z) metadata_state_scheme \<Rightarrow> 'a cache_entry option"
  assumes found: "lookup s \<noteq> None" and same: "\<And>s s'. same_more s s' \<Longrightarrow> lookup s' = lookup s"
    and allowed: "\<And>s. \<exists>b s'. allowed s = (Inr b, s') \<and> same_more s s'"
    and clear: "\<And>s. \<exists>s'. clear s = (Inr (), s')" and recorded: "\<And>s. \<exists>s'. record_failure s = (Inr (), s')"
  shows "\<exists>entry s'. load_entry_locked env svc lookup persisted allowed refresh clear record_failure s = (Inr entry, s')"
proof -
  obtain h1 s1 where s1: "fresh_entry env svc lookup s = (Inr h1 :: (metadata_error, _) result, s1)" "same_more s s1" using fresh_entry_run by blast
  obtain h2 s2 where s2: "fresh_entry env svc lookup s1 = (Inr h2 :: (metadata_error, _) result, s2)" "same_more s1 s2" using fresh_entry_run by blast
  obtain b s3 where s3: "allowed s2 = (Inr b, s3)" "same_more s2 s3" using allowed by blast
  obtain entry where entry: "lookup s1 = Some entry" "lookup s2 = Some entry"
    using found same [OF s1(2)] same [OF s2(2)] by auto
  obtain outcome s4 where s4: "refresh s3 = (outcome, s4)" by fastforce
  obtain s5 s6 where "clear s4 = (Inr (), s5)" "record_failure s4 = (Inr (), s6)" using clear recorded by metis
  then show ?thesis
    using s1 s2 s3 s4 entry
    by (cases h1; cases h2; cases b; cases outcome) (auto simp: load_entry_locked_def op_defs)
qed

lemma same_more_lookup: "same_more s s' \<Longrightarrow> index_of key s' = index_of key s" "same_more s s' \<Longrightarrow> version_of vkey s' = version_of vkey s"
  by (auto simp: same_more_def index_of_def version_of_def dest: same_metadata_fields(1,2))

lemma failure_op_run:
  "\<exists>s'. clear_index_failure key s = (Inr (), s')" "\<exists>s'. record_index_failure env svc key s = (Inr (), s')"
  "\<exists>s'. clear_version_failure vkey s = (Inr (), s')" "\<exists>s'. record_version_failure env svc vkey s = (Inr (), s')"
  by (auto simp: clear_index_failure_def record_index_failure_def clear_version_failure_def record_version_failure_def
      instant_now_def op_defs)

lemma load_index_serves:
  assumes "index_of key s \<noteq> None"
  shows "\<exists>entry s'. load_index env svc key s = (Inr entry, s')"
proof -
  obtain h1 s1 where s1: "fresh_entry env svc (index_of key) s = (Inr h1 :: (metadata_error, _) result, s1)" "same_more s s1" using fresh_entry_run by blast
  obtain m table where lock: "lock_for (ms_index_locks s1) key = (m, table)" by fastforce
  have "index_of key (s1\<lparr>ms_index_locks := table\<rparr>) \<noteq> None"
    using assms same_more_lookup(1) [OF s1(2)] by (simp add: index_of_def)
  then have "\<exists>entry s'. load_index_locked env svc key (s1\<lparr>ms_index_locks := table\<rparr>) = (Inr entry, s')"
    unfolding load_index_locked_def index_refresh_allowed_def
    by (rule load_entry_locked_serves) (auto intro: same_more_lookup refresh_allowed_now_run failure_op_run)
  then show ?thesis
    using s1 lock by (cases h1) (auto simp: load_index_def with_index_lock_def op_bind_def op_ok_def)
qed

lemma load_version_serves:
  assumes "version_of key s \<noteq> None"
  shows "\<exists>entry s'. load_version env svc key s = (Inr entry, s')"
proof -
  obtain h1 s1 where s1: "fresh_entry env svc (version_of key) s = (Inr h1 :: (metadata_error, _) result, s1)" "same_more s s1" using fresh_entry_run by blast
  obtain m table where lock: "lock_for (ms_version_locks s1) key = (m, table)" by fastforce
  have "version_of key (s1\<lparr>ms_version_locks := table\<rparr>) \<noteq> None"
    using assms same_more_lookup(2) [OF s1(2)] by (simp add: version_of_def)
  then have "\<exists>entry s'. load_version_locked env svc key (s1\<lparr>ms_version_locks := table\<rparr>) = (Inr entry, s')"
    unfolding load_version_locked_def version_refresh_allowed_def
    by (rule load_entry_locked_serves) (auto intro: same_more_lookup refresh_allowed_now_run failure_op_run)
  then show ?thesis
    using s1 lock by (cases h1) (auto simp: load_version_def with_version_lock_def op_bind_def op_ok_def)
qed

subsection \<open>Backoff\<close>

text \<open>A load whose refresh is not allowed keeps what its other parts keep.\<close>

lemma load_entry_locked_silent:
  assumes "keeps I (fresh_entry env svc lookup :: (_, metadata_error, _) oper)" "keeps I persisted" "triple I allowed (\<lambda>b s. I s \<and> \<not> b) (\<lambda>_. I)"
  shows "keeps I (load_entry_locked env svc lookup persisted allowed refresh clear record_failure)"
proof -
  have stop: "triple (\<lambda>s. I s \<and> \<not> b) (if \<not> b then op_result (ok_or cached MdRefreshBackoff) else f) (\<lambda>_. I) (\<lambda>_. I)"
    for b cached f
    by (cases b) (auto simp: triple_def op_result_def split: sum.splits)
  have tail: "keeps I (op_bind allowed (\<lambda>b. if \<not> b then op_result (ok_or cached MdRefreshBackoff) else f b))" for cached f
    by (rule triple_bind [OF assms(3) stop])
  show ?thesis
    unfolding load_entry_locked_def
    by (rule keeps_bind [OF assms(1)], rule keeps_cases(2), rule keeps_bind [OF keeps_get], rule keeps_bind,
        rule keeps_cases(1) [OF keeps_ok assms(2)], rule keeps_bind [OF assms(1)], rule keeps_cases(2),
        rule keeps_bind [OF keeps_get], rule tail) (rule keeps_ok)+
qed

text \<open>The failure of an index is recorded, the clock has not reached its retry time, and nothing has been
  sent since.\<close>

definition backed_off :: "provider_key \<Rightarrow> nat \<Rightarrow> nat \<Rightarrow> 'u list \<Rightarrow> ('u, 'z) metadata_state_scheme \<Rightarrow> bool" where
  "backed_off key retry tick sent s \<longleftrightarrow>
     hm_get (ms_index_failures s) key = Some retry \<and> tick \<le> w_tick s \<and> w_sent s = sent"

lemma backed_off_keeps:
  "keeps (backed_off key retry tick sent) (fresh_entry env svc lookup)"
  "keeps (backed_off key retry tick sent) (read_persisted_index env svc key')"
  by (auto simp: triple_iff backed_off_def fresh_entry_def entry_fresh_def now_epoch_def Let_def
      read_persisted_index_def read_json_def read_file_def io_op_def op_defs
      split: option.splits sum.splits if_splits io_error.splits node.splits)

lemma backed_off_not_allowed:
  assumes "\<And>n. tick \<le> n \<Longrightarrow> env_instant env n < retry" "0 < sv_refresh_backoff svc"
  shows "triple (backed_off key retry tick sent) (index_refresh_allowed env svc key)
     (\<lambda>b s. backed_off key retry tick sent s \<and> \<not> b) (\<lambda>_. backed_off key retry tick sent)"
  using assms
  by (auto simp: triple_def backed_off_def index_refresh_allowed_def refresh_allowed_now_def instant_now_def op_defs
      refresh_allowed_def not_le)

lemma load_index_backed_off:
  assumes "\<And>n. tick \<le> n \<Longrightarrow> env_instant env n < retry" "0 < sv_refresh_backoff svc"
  shows "keeps (backed_off key retry tick sent) (load_index env svc key)"
  unfolding load_index_def load_index_locked_def
  by (intro keeps_bind keeps_cases keeps_ok backed_off_keeps with_index_lock_triple load_entry_locked_silent
      backed_off_not_allowed assms) (auto simp: backed_off_def)

subsection \<open>Requests\<close>

text \<open>The log of the requests grows, and by requests the policy of the client allows.\<close>

definition polite :: "('u, 'c, 'y) env_scheme \<Rightarrow> 'c outbound_client \<Rightarrow> ('u, 'z) world_scheme \<Rightarrow> ('u, 'z) world_scheme \<Rightarrow> bool" where
  "polite env client s s' \<longleftrightarrow>
     (\<exists>new. w_sent s' = w_sent s @ new \<and> list_all (\<lambda>u. validate_url (env_url env) client u = Inr ()) new)"

interpretation requests: state_preorder "polite env client" for env client
  by unfold_locales (force simp: polite_def)+

lemma polite_within: "requests_within env client n f \<Longrightarrow> op_respects (polite env client) f"
  unfolding requests_within_def op_respects_def polite_def by blast

lemma polite_same_log: "(\<And>s. w_sent (snd (f s)) = w_sent s) \<Longrightarrow> op_respects (polite env client) f"
  unfolding op_respects_def polite_def by (metis append_Nil2 list.pred_inject(1) snd_conv)

lemma polite_modify: "(\<And>s. w_sent (f s) = w_sent s) \<Longrightarrow> op_respects (polite env client) (op_modify f)"
  by (rule polite_same_log) (simp add: op_modify_def)

lemma polite_io: "op_respects (polite env client) (io_op env' act)"
  by (rule polite_within [OF requests_none(7)])

lemma polite_clock:
  "op_respects (polite env client) (instant_now env')" "op_respects (polite env client) (now_epoch env')"
  by (rule polite_within [OF requests_none(5)], rule polite_within [OF requests_none(6)])

lemma polite_store:
  "op_respects (polite env client) (read_json env' from_slice path)"
  "op_respects (polite env client) (write_json_atomic env' path encoded)"
proof -
  have io_case: "op_respects (polite env client) f \<Longrightarrow> (\<And>e. op_respects (polite env client) (j e)) \<Longrightarrow>
      op_respects (polite env client) (case io of IoNotFound \<Rightarrow> f | IoOther e \<Rightarrow> j e)" for f j io
    by (cases io) auto
  show "op_respects (polite env client) (read_json env' from_slice path)"
    unfolding read_json_def read_file_def by (intro requests.respects_rules polite_io io_case)
  have sequence: "op_respects (polite env client) next_metadata_sequence"
    by (rule polite_same_log) (simp add: next_metadata_sequence_def)
  show "op_respects (polite env client) (write_json_atomic env' path encoded)"
    unfolding write_json_atomic_def Let_def sync_parent_def or_remove_def open_file_def file_step_def
      create_dir_all_def create_new_file_def append_file_def rename_file_def remove_file_def
    by (intro requests.respects_rules polite_io sequence)
qed

lemma polite_locks:
  assumes "op_respects (polite env client) body"
  shows "op_respects (polite env client) (with_index_lock key body)" "op_respects (polite env client) (with_version_lock vkey body)"
  using assms unfolding op_respects_def polite_def with_index_lock_def with_version_lock_def
  by (fastforce split: prod.splits)+

lemma polite_checks:
  "op_respects (polite env client) (fresh_entry env' svc lookup)" "op_respects (polite env client) (refresh_allowed_now env' svc table k)"
  "op_respects (polite env client) (record_index_failure env' svc key)" "op_respects (polite env client) (clear_index_failure key)"
  "op_respects (polite env client) (record_version_failure env' svc vkey)" "op_respects (polite env client) (clear_version_failure vkey)"
  "op_respects (polite env client) (record_missing_version_refresh env' svc key)"
  unfolding fresh_entry_def entry_fresh_def refresh_allowed_now_def record_index_failure_def clear_index_failure_def Let_def
    record_version_failure_def clear_version_failure_def record_missing_version_refresh_def
  by (intro requests.respects_rules polite_clock polite_modify; simp)+

lemma polite_load_entry_locked:
  assumes "op_respects (polite env client) persisted" "op_respects (polite env client) allowed" "op_respects (polite env client) refresh"
    "op_respects (polite env client) clear" "op_respects (polite env client) record_failure"
  shows "op_respects (polite env client) (load_entry_locked env' svc lookup persisted allowed refresh clear record_failure)"
  unfolding load_entry_locked_def by (intro requests.respects_rules polite_checks(1) assms)

lemma polite_index:
  fixes svc :: "('u, 'c) metadata_service"
  shows "op_respects (polite env (rc_outbound (sv_registry svc))) (refresh_index_unlocked env svc key)"
    "op_respects (polite env (rc_outbound (sv_registry svc))) (read_persisted_index env svc key)"
  unfolding refresh_index_unlocked_def read_persisted_index_def Let_def
  by (intro requests.respects_rules polite_store polite_clock polite_modify polite_within [OF requests_registry_versions]; simp)+

lemma polite_load_index: "op_respects (polite env (rc_outbound (sv_registry svc))) (load_index env svc key)"
  unfolding load_index_def load_index_locked_def index_refresh_allowed_def
  by (intro requests.respects_rules polite_checks polite_locks polite_load_entry_locked polite_index)

lemma polite_fetch_packages:
  "op_respects (polite env (rc_outbound (sv_registry svc)))
     (fetch_packages env svc key platforms :: (('u, 'z) metadata_state_scheme, metadata_error, _) oper)"
  by (induction platforms)
    (auto intro!: requests.respects_rules polite_within [OF requests_registry_package])

lemma polite_index_for_version: "op_respects (polite env (rc_outbound (sv_registry svc))) (index_for_version env svc key)"
  unfolding index_for_version_def missing_refresh_wanted_def missing_version_refresh_allowed_def index_refresh_allowed_def
  by (intro requests.respects_rules polite_load_index polite_checks polite_locks polite_index)

lemma polite_version:
  "op_respects (polite env (rc_outbound (sv_registry svc))) (refresh_version env svc key)"
  "op_respects (polite env (rc_outbound (sv_registry svc))) (read_persisted_version env svc key)"
  unfolding refresh_version_def read_persisted_version_def Let_def case_prod_beta
  by (intro requests.respects_rules polite_index_for_version polite_fetch_packages polite_store polite_clock polite_modify; simp)+

lemma polite_load_version: "op_respects (polite env (rc_outbound (sv_registry svc))) (load_version env svc key)"
  unfolding load_version_def load_version_locked_def version_refresh_allowed_def
  by (intro requests.respects_rules polite_checks polite_locks polite_load_entry_locked polite_version)

section \<open>Examples\<close>

text \<open>A service for the registry \<open>h\<close> that finds a persisted version of the provider \<open>h/n/t\<close> on disk.\<close>

definition toy_platform :: platform_metadata where
  "toy_platform = \<lparr>pm_os = ''l'', pm_arch = ''a'', pm_filename = ''terraform-provider-t_1_l_a.zip'',
     pm_shasum = Some (replicate 64 (CHR ''0'')), pm_download_url = ''u''\<rparr>"

definition toy_version :: version_entry where
  "toy_version = \<lparr>ce_fetched_at = 60, ce_complete = True, ce_value = \<lparr>vm_hostname = ''h'', vm_namespace = ''n'',
     vm_provider_type = ''t'', vm_version = ''1'', vm_platforms = [toy_platform]\<rparr>\<rparr>"

definition toy_metadata_env :: "(string \<times> string \<times> string, unit, string) metadata_env" where
  "toy_metadata_env = registry_env.extend toy_env
     \<lparr>env_index_of_json = (\<lambda>_. Inl []), env_index_to_json = (\<lambda>_. Inr []), env_version_of_json = (\<lambda>_. Inr toy_version),
      env_version_to_json = (\<lambda>_. Inr []), env_semver = \<lparr>sv_parse = Some, sv_cmp = str_cmp\<rparr>, env_hash_order = remdups\<rparr>"

definition toy_service :: "(string \<times> string \<times> string, unit) metadata_service" where
  "toy_service = \<lparr>sv_data_dir = ''d/metadata'', sv_allowed_registries = [''h''], sv_freshness = 1800 * second,
     sv_registry = with_outbound toy_client, sv_refresh_backoff = 30 * second\<rparr>"

definition toy_metadata_state :: "(string \<times> string \<times> string) metadata_state" where
  "toy_metadata_state = initial_metadata_state
     (toy_registry_state\<lparr>w_fs := \<lambda>_. Some (File [] \<lparr>st_modified = None, st_dev = 0, st_ino = 0\<rparr>)\<rparr>) []"

lemma toy_service_init: "service_init toy_metadata_env toy_service toy_metadata_state"
proof -
  have "with_registry_client (\<lambda>_. Inl IoNotFound) (\<lambda>_. Inl IoNotFound) (env_index_of_json toy_metadata_env) ''d'' [''h'']
      (1800 * second) (with_outbound toy_client) = Inr (toy_service, [])"
    by (simp add: with_registry_client_def validate_hostname_def valid_component_def char_defs discover_indices_def toy_service_def
        path_join_def Let_def)
  moreover have "sv_allowed_registries toy_service = [''h'']" by (simp add: toy_service_def)
  ultimately show ?thesis unfolding service_init_def toy_metadata_state_def by metis
qed

lemma toy_parse:
  "parse_archive Some ''t'' ''terraform-provider-t_1_l_a.zip'' =
     Inr \<lparr>an_provider_type = ''t'', an_version = ''1'', an_os = ''l'', an_arch = ''a''\<rparr>"
  by code_simp

lemma toy_package:
  "validate_package toy_api Some \<lparr>vk_provider = \<lparr>pk_hostname = ''h'', pk_namespace = ''n'', pk_provider_type = ''t''\<rparr>,
     vk_version = ''1''\<rparr> (platform_of toy_platform) toy_platform = Inr ()"
  by (simp add: validate_package_iff toy_platform_def platform_of_def toy_parse checksum_ok_def toy_api_def list_all_iff char_defs)

lemma toy_validated:
  "validate_version_metadata toy_api Some \<lparr>vk_provider = \<lparr>pk_hostname = ''h'', pk_namespace = ''n'', pk_provider_type = ''t''\<rparr>,
     vk_version = ''1''\<rparr> (ce_value toy_version) = Inr ()"
  using toy_package by (simp add: validate_version_metadata_iff toy_version_def valid_version_def char_defs strip_v_def)

lemma toy_fields:
  "ce_fetched_at toy_version = 60" "ce_complete toy_version" "vm_platforms (ce_value toy_version) = [toy_platform]"
  "pm_filename toy_platform = ''terraform-provider-t_1_l_a.zip''"
  by (simp_all add: toy_version_def toy_platform_def)

lemma toy_query:
  "\<exists>s'. get_platform_by_archive toy_metadata_env toy_service ''h'' ''n'' ''t'' ''terraform-provider-t_1_l_a.zip'' toy_metadata_state =
     (Inr (Some toy_platform), s')"
  using toy_validated toy_fields
  by (simp add: get_platform_by_archive_def get_version_entry_def load_version_def load_version_locked_def load_entry_locked_def
      fresh_entry_def entry_fresh_def read_persisted_version_def read_json_def read_file_def io_op_def now_epoch_def op_defs
      toy_metadata_env_def toy_env_def toy_service_def toy_metadata_state_def initial_metadata_state_def toy_registry_state_def
      registry_env.defs registry_state.defs toy_parse validate_version_def valid_version_def char_defs strip_v_def second_def
      provider_key_of_def validate_hostname_def validate_component_def valid_component_def with_version_lock_def lock_for_def
      empty_lock_table_def version_of_def fs_resolve.simps Let_def)

end
