(* ===== verification/Metadata_Properties.thy ===== *)
theory Metadata_Properties
  imports Metadata_Queries
begin

text \<open>
  What the metadata service promises: only validated metadata is served, versions come in order, a
  registry that is not allowed is never asked, cached metadata survives every failure, and a failed
  refresh backs off.
\<close>

section \<open>Validated metadata\<close>

lemma found_platform_validated:
  assumes ok: "caches_ok env s"
    and run: "get_platform_by_archive env svc hostname namespace provider_type filename s = (Inr (Some p), s')"
  shows "hostname \<in> set (sv_allowed_registries svc) \<and> pm_filename p = filename \<and>
    (\<exists>archive. parse_archive (sv_parse (env_semver env)) provider_type filename = Inr archive \<and>
       an_os archive = pm_os p \<and> an_arch archive = pm_arch p) \<and>
    (\<exists>checksum. pm_shasum p = Some checksum \<and> checksum_ok checksum) \<and>
    (\<exists>url. url_parse (env_url env) (pm_download_url p) = Inr url \<and> url_scheme (env_url env) url = ''https'' \<and>
       url_host_str (env_url env) url \<noteq> None)"
proof -
  obtain archive where archive: "parse_archive (sv_parse (env_semver env)) provider_type filename = Inr archive"
    using run
    by (cases "parse_archive (sv_parse (env_semver env)) provider_type filename")
      (auto simp: get_platform_by_archive_def op_err_def)
  obtain found where get: "get_version_entry env svc hostname namespace provider_type (an_version archive) s = (Inr found, s')"
    and "Option.bind found (\<lambda>entry. find (\<lambda>item. pm_filename item = filename) (vm_platforms (ce_value entry))) = Some p"
    using run archive by (auto simp: get_platform_by_archive_def op_bind_def op_ok_def op_result_def split: prod.splits sum.splits)
  then obtain entry where entry: "found = Some entry" and p: "p \<in> set (vm_platforms (ce_value entry))" "pm_filename p = filename"
    by (auto simp: bind_eq_Some_conv dest!: find_SomeD)
  obtain provider where key: "provider_key_of svc hostname namespace provider_type = Inr provider"
    and v: "version_ok env \<lparr>vk_provider = provider, vk_version = strip_v (an_version archive)\<rparr> entry"
    using triple_run [OF get_version_entry_vouches ok get] entry by auto
  from v p have "package_ok env \<lparr>vk_provider = provider, vk_version = strip_v (an_version archive)\<rparr> p"
    by (simp add: version_ok_def)
  then have parsed: "parse_archive (sv_parse (env_semver env)) provider_type filename = Inr \<lparr>an_provider_type = provider_type,
      an_version = strip_v (an_version archive), an_os = pm_os p, an_arch = pm_arch p\<rparr>"
    and checked: "\<exists>checksum. pm_shasum p = Some checksum \<and> checksum_ok checksum"
      "\<exists>url. url_parse (env_url env) (pm_download_url p) = Inr url \<and> url_scheme (env_url env) url = ''https'' \<and>
         url_host_str (env_url env) url \<noteq> None"
    and "hostname \<in> set (sv_allowed_registries svc)"
    using key p(2) by (auto simp: validate_package_iff provider_key_of_ok platform_of_def)
  with p(2) show ?thesis by auto
qed

text \<open>C4: the service only hands out packages it has validated. In every state the service can reach from
  its start by any sequence of queries and synchronisations, while others rewrite the files on disk as
  they like, a platform that \<open>get_platform_by_archive\<close> returns belongs to an allowed registry, has the
  requested file name, which parses as an archive for its platform, a checksum of 64 hexadecimal
  digits and an HTTPS download URL with a host.\<close>

theorem served_platform_is_validated:
  assumes "reach (service_init env svc) (service_step env svc) s"
    and "get_platform_by_archive env svc hostname namespace provider_type filename s = (Inr (Some p), s')"
  shows "hostname \<in> set (sv_allowed_registries svc) \<and> pm_filename p = filename \<and>
    (\<exists>archive. parse_archive (sv_parse (env_semver env)) provider_type filename = Inr archive \<and>
       an_os archive = pm_os p \<and> an_arch archive = pm_arch p) \<and>
    (\<exists>checksum. pm_shasum p = Some checksum \<and> checksum_ok checksum) \<and>
    (\<exists>url. url_parse (env_url env) (pm_download_url p) = Inr url \<and> url_scheme (env_url env) url = ''https'' \<and>
       url_host_str (env_url env) url \<noteq> None)"
  using found_platform_validated [OF service.reach_inv [OF assms(1)] assms(2)] .

theorem served_platform_is_validated_witness:
  "pm_filename toy_platform = ''terraform-provider-t_1_l_a.zip'' \<and> (\<exists>checksum. pm_shasum toy_platform = Some checksum \<and> checksum_ok checksum)"
proof -
  obtain s' where "get_platform_by_archive toy_metadata_env toy_service ''h'' ''n'' ''t'' ''terraform-provider-t_1_l_a.zip''
      toy_metadata_state = (Inr (Some toy_platform), s')" using toy_query by blast
  moreover have "reach (service_init toy_metadata_env toy_service) (service_step toy_metadata_env toy_service) toy_metadata_state"
    using toy_service_init by (rule reach.start)
  ultimately show ?thesis using served_platform_is_validated by blast
qed

section \<open>Version lists\<close>

text \<open>C35: versions are listed once and in order. A successful \<open>list_versions\<close> returns the normalised versions
  of the index it loaded, each once, in strictly ascending order, semantic versions before other
  strings; the order in which the hash set was iterated does not matter.\<close>

theorem list_versions_sorted:
  assumes "semver_laws (env_semver env)"
    and "\<And>xs. distinct (env_hash_order env xs) \<and> set (env_hash_order env xs) = set xs"
    and "list_versions env svc hostname namespace provider_type s = (Inr versions, s')"
  shows "\<exists>key entry. provider_key_of svc hostname namespace provider_type = Inr key \<and> load_index env svc key s = (Inr entry, s') \<and>
    set versions = (\<lambda>item. strip_v (rv_version item)) ` set (ce_value entry) \<and>
    sorted_wrt (\<lambda>a b. compare_versions (env_semver env) a b = CmpLess) versions \<and>
    (\<forall>other. distinct other \<and> set other = set versions \<longrightarrow> sort_by (compare_versions (env_semver env)) other = versions)"
proof -
  note total = compare_versions_total [OF assms(1)]
  obtain key where key: "provider_key_of svc hostname namespace provider_type = Inr key"
    using assms(3)
    by (cases "provider_key_of svc hostname namespace provider_type") (auto simp: list_versions_def op_err_def)
  then obtain entry where entry: "load_index env svc key s = (Inr entry, s')"
    and versions: "versions = sort_by (compare_versions (env_semver env))
       (env_hash_order env (map (\<lambda>item. strip_v (rv_version item)) (ce_value entry)))"
    using assms(3) by (auto simp: list_versions_def op_bind_def op_ok_def op_result_def split: prod.splits sum.splits)
  note order = assms(2) [of "map (\<lambda>item. strip_v (rv_version item)) (ce_value entry)"]
  have "set versions = (\<lambda>item. strip_v (rv_version item)) ` set (ce_value entry)"
    using order by (simp add: versions total_comparison.set_sort_by [OF total])
  moreover have "sorted_wrt (\<lambda>a b. compare_versions (env_semver env) a b = CmpLess) versions"
    unfolding versions using order by (intro total_comparison.sort_by_sorted [OF total]) blast
  moreover have "sort_by (compare_versions (env_semver env)) other = versions" if "distinct other \<and> set other = set versions" for other
    unfolding versions using that order
    by (intro total_comparison.sort_by_unique [OF total]) (auto simp: versions total_comparison.set_sort_by [OF total])
  ultimately show ?thesis using key entry by blast
qed

text \<open>The toy service lists the versions of an index in its cache.\<close>

theorem list_versions_sorted_witness:
  "\<exists>versions s'. list_versions toy_metadata_env toy_service ''h'' ''n'' ''t''
     (toy_metadata_state\<lparr>ms_indices := [(\<lparr>pk_hostname = ''h'', pk_namespace = ''n'', pk_provider_type = ''t''\<rparr>,
        \<lparr>ce_fetched_at = 0, ce_complete = False, ce_value = [\<lparr>rv_version = ''v2'', rv_platforms = []\<rparr>]\<rparr>)]\<rparr>) = (Inr versions, s') \<and>
     sorted_wrt (\<lambda>a b. compare_versions (env_semver toy_metadata_env) a b = CmpLess) versions"
proof -
  let ?key = "\<lparr>pk_hostname = ''h'', pk_namespace = ''n'', pk_provider_type = ''t''\<rparr>"
  let ?s = "toy_metadata_state\<lparr>ms_indices := [(?key,
      \<lparr>ce_fetched_at = 0, ce_complete = False, ce_value = [\<lparr>rv_version = ''v2'', rv_platforms = []\<rparr>]\<rparr>)]\<rparr>"
  have laws: "semver_laws (env_semver toy_metadata_env)"
    using str_order.total_comparison_axioms
    by (simp add: semver_laws_def toy_metadata_env_def registry_env.defs)
  have order: "distinct (env_hash_order toy_metadata_env xs) \<and> set (env_hash_order toy_metadata_env xs) = set xs" for xs
    by (simp add: toy_metadata_env_def registry_env.defs)
  have key: "provider_key_of toy_service ''h'' ''n'' ''t'' = Inr ?key"
    by (simp add: provider_key_of_ok toy_service_def validate_hostname_def valid_component_def char_defs)
  obtain entry s' where "load_index toy_metadata_env toy_service ?key ?s = (Inr entry, s')"
    using load_index_serves [of ?key ?s toy_metadata_env toy_service] by (auto simp: index_of_def)
  then obtain versions s' where run: "list_versions toy_metadata_env toy_service ''h'' ''n'' ''t'' ?s = (Inr versions, s')"
    using key by (auto simp: list_versions_def op_bind_def op_ok_def op_result_def)
  from list_versions_sorted [OF laws order run] run show ?thesis by blast
qed

section \<open>Allowed registries\<close>

text \<open>A registry that is not allowed is never asked. For a host that is not in the list of allowed
  registries every query fails, and it changes nothing: no request, no file access, no entry in a
  cache or a table.\<close>

theorem disallowed_registry_has_no_effect:
  assumes "hostname \<notin> set (sv_allowed_registries svc)"
  shows "(\<exists>e. list_versions env svc hostname namespace provider_type s = (Inl e, s)) \<and>
    (\<exists>e. get_version env svc hostname namespace provider_type version s = (Inl e, s)) \<and>
    (\<exists>e. get_platform_by_archive env svc hostname namespace provider_type filename s = (Inl e, s))"
proof -
  obtain e where e: "provider_key_of svc hostname namespace provider_type = Inl e"
    using assms provider_key_of_ok [of svc hostname namespace provider_type]
    by (cases "provider_key_of svc hostname namespace provider_type") auto
  have entry: "\<exists>e. get_version_entry env svc hostname namespace provider_type v s = (Inl e, s)" for v
    using e by (cases "validate_version v ''version''") (auto simp: get_version_entry_def op_err_def)
  show ?thesis
  proof (intro conjI)
    show "\<exists>e. list_versions env svc hostname namespace provider_type s = (Inl e, s)"
      using e by (simp add: list_versions_def op_err_def)
    show "\<exists>e. get_version env svc hostname namespace provider_type version s = (Inl e, s)"
      using entry [of version] by (auto simp: get_version_def op_bind_def)
    show "\<exists>e. get_platform_by_archive env svc hostname namespace provider_type filename s = (Inl e, s)"
    proof (cases "parse_archive (sv_parse (env_semver env)) provider_type filename")
      case (Inr archive)
      then show ?thesis using entry [of "an_version archive"] by (auto simp: get_platform_by_archive_def op_bind_def op_result_def)
    qed (simp add: get_platform_by_archive_def op_err_def)
  qed
qed

theorem disallowed_registry_has_no_effect_witness:
  "\<exists>e. list_versions toy_metadata_env toy_service ''evil'' ''n'' ''t'' toy_metadata_state = (Inl e, toy_metadata_state)"
proof -
  have "''evil'' \<notin> set (sv_allowed_registries toy_service)" by (simp add: toy_service_def)
  from disallowed_registry_has_no_effect [OF this] show ?thesis by blast
qed

section \<open>Stale metadata\<close>

text \<open>C36: metadata once cached is always served. If the index of a provider is in the cache, however stale,
  \<open>list_versions\<close> for it returns a list, and if the metadata of a version is in the cache, \<open>get_version\<close>
  returns metadata for it, whatever the registries answer, however the disk fails and whatever backs off.\<close>

theorem cached_metadata_is_always_served:
  assumes "provider_key_of svc hostname namespace provider_type = Inr key"
  shows "(hm_get (ms_indices s) key \<noteq> None \<longrightarrow>
      (\<exists>versions s'. list_versions env svc hostname namespace provider_type s = (Inr versions, s'))) \<and>
    (valid_version (strip_v version) \<and> ms_versions s \<lparr>vk_provider = key, vk_version = strip_v version\<rparr> \<noteq> None \<longrightarrow>
      (\<exists>metadata s'. get_version env svc hostname namespace provider_type version s = (Inr (Some metadata), s')))"
proof (intro conjI impI)
  assume "hm_get (ms_indices s) key \<noteq> None"
  then obtain entry s' where "load_index env svc key s = (Inr entry, s')"
    using load_index_serves [of key s env svc] by (auto simp: index_of_def)
  then show "\<exists>versions s'. list_versions env svc hostname namespace provider_type s = (Inr versions, s')"
    using assms by (auto simp: list_versions_def op_bind_def op_ok_def op_result_def)
next
  assume *: "valid_version (strip_v version) \<and> ms_versions s \<lparr>vk_provider = key, vk_version = strip_v version\<rparr> \<noteq> None"
  then obtain entry s' where "load_version env svc \<lparr>vk_provider = key, vk_version = strip_v version\<rparr> s = (Inr entry, s')"
    using load_version_serves [of "\<lparr>vk_provider = key, vk_version = strip_v version\<rparr>" s env svc] by (auto simp: version_of_def)
  then show "\<exists>metadata s'. get_version env svc hostname namespace provider_type version s = (Inr (Some metadata), s')"
    using assms * by (auto simp: get_version_def get_version_entry_def validate_version_def op_bind_def op_catch_def op_ok_def op_result_def)
qed

text \<open>An index fetched at the epoch, long stale, served by a service whose environment refuses every file operation.\<close>

theorem cached_metadata_is_always_served_witness:
  "\<exists>versions s'. list_versions (toy_metadata_env\<lparr>env_io := \<lambda>_. Some (IoOther [])\<rparr>) toy_service ''h'' ''n'' ''t''
     (toy_metadata_state\<lparr>ms_indices := [(\<lparr>pk_hostname = ''h'', pk_namespace = ''n'', pk_provider_type = ''t''\<rparr>,
        \<lparr>ce_fetched_at = 0, ce_complete = False, ce_value = []\<rparr>)]\<rparr>) = (Inr versions, s')"
proof -
  have "provider_key_of toy_service ''h'' ''n'' ''t'' = Inr \<lparr>pk_hostname = ''h'', pk_namespace = ''n'', pk_provider_type = ''t''\<rparr>"
    by (simp add: provider_key_of_ok toy_service_def validate_hostname_def valid_component_def char_defs)
  from cached_metadata_is_always_served [OF this, THEN conjunct1, rule_format,
      of "toy_metadata_state\<lparr>ms_indices := [(\<lparr>pk_hostname = ''h'', pk_namespace = ''n'', pk_provider_type = ''t''\<rparr>,
        \<lparr>ce_fetched_at = 0, ce_complete = False, ce_value = []\<rparr>)]\<rparr>"]
  show ?thesis by simp
qed

section \<open>Backoff\<close>

text \<open>A failed refresh of an index backs off. As long as the clock has not reached the retry time recorded
  for an index, any number of loads of it, one after the other, send no request and leave the record in
  place.\<close>

theorem index_backoff_sends_nothing:
  assumes "hm_get (ms_index_failures s) key = Some retry" and "0 < sv_refresh_backoff svc"
    and "\<And>n. w_tick s \<le> n \<Longrightarrow> env_instant env n < retry"
    and "s' = ((\<lambda>t. snd (load_index env svc key t)) ^^ n) s"
  shows "w_sent s' = w_sent s \<and> hm_get (ms_index_failures s') key = Some retry"
proof -
  have "backed_off key retry (w_tick s) (w_sent s) (((\<lambda>t. snd (load_index env svc key t)) ^^ n) s)" for n
  proof (induction n)
    case 0
    then show ?case using assms(1) by (simp add: backed_off_def)
  next
    case (Suc n)
    then show ?case using keeps_snd [OF load_index_backed_off [OF assms(3,2)]] by simp
  qed
  then show ?thesis using assms(4) by (simp add: backed_off_def)
qed

theorem index_backoff_sends_nothing_witness:
  "w_sent (((\<lambda>t. snd (load_index toy_metadata_env toy_service \<lparr>pk_hostname = ''h'', pk_namespace = ''n'', pk_provider_type = ''t''\<rparr> t)) ^^ 5)
     (toy_metadata_state\<lparr>ms_index_failures := [(\<lparr>pk_hostname = ''h'', pk_namespace = ''n'', pk_provider_type = ''t''\<rparr>, 61 * second)]\<rparr>)) = []"
proof -
  have "\<And>n. env_instant toy_metadata_env n < 61 * second"
    by (simp add: toy_metadata_env_def toy_env_def registry_env.defs second_def)
  moreover have "0 < sv_refresh_backoff toy_service" by (simp add: toy_service_def second_def)
  ultimately show ?thesis
    using index_backoff_sends_nothing [of "toy_metadata_state\<lparr>ms_index_failures :=
        [(\<lparr>pk_hostname = ''h'', pk_namespace = ''n'', pk_provider_type = ''t''\<rparr>, 61 * second)]\<rparr>"
        "\<lparr>pk_hostname = ''h'', pk_namespace = ''n'', pk_provider_type = ''t''\<rparr>" "61 * second" toy_service toy_metadata_env _ 5]
    by (simp add: toy_metadata_state_def initial_metadata_state_def toy_registry_state_def registry_state.defs)
qed

end
