(* ===== verification/Metadata_Errors.thy ===== *)
theory Metadata_Errors
  imports Metadata_Properties
begin

text \<open>
  The errors in which the metadata service (\<^verbatim>\<open>src/src/metadata.rs\<close>, \<^verbatim>\<open>src/src/registry.rs\<close>) can end:
  which refreshes back off, and which errors the queries never return.
\<close>

section \<open>Errors of the parts\<close>

lemma map_err_eq_Inl: "map_err h r = Inl e \<longleftrightarrow> (\<exists>x. r = Inl x \<and> e = h x)"
  by (cases r) auto

lemma write_json_errors:
  assumes "\<And>e. P (MdIo e)" "\<And>e. P (MdJson e)"
  shows "refuses_with P (write_json_atomic env path encoded)"
  unfolding write_json_atomic_def Let_def or_remove_def next_metadata_sequence_def
  by (intro refuses_with_rules refuses_with_map_err(1) refuses_with_catch [where P' = "\<lambda>_. True"] assms)
    (auto simp: refuses_with_def map_err_eq_Inl assms)

section \<open>Errors that back off\<close>

text \<open>The upstream answers no request with 404, and the version lists that decode are valid.\<close>

definition upstream_answers :: "('u, 'c, 'v, 'y) metadata_env_scheme \<Rightarrow> bool" where
  "upstream_answers env \<longleftrightarrow>
     (\<forall>config log url timeout response. env_send env config log url timeout = Inr response \<longrightarrow> resp_status response \<noteq> 404) \<and>
     (\<forall>body versions. env_json_versions env body = Inr versions \<longrightarrow> validate_registry_versions versions = Inr ())"

lemma should_backoff_map_registry: "should_backoff (map_registry e) \<longleftrightarrow> e \<noteq> RegNotFound"
  by (cases e) simp_all

lemma decode_json_error: "decode_json from_slice response maximum = Inl e \<Longrightarrow> e \<noteq> RegNotFound"
proof -
  have "collect_body maximum body chunks = Inl e \<Longrightarrow> e \<noteq> RegNotFound" for body chunks
    by (induction maximum body chunks rule: collect_body.induct) (auto split: if_splits)
  then show "decode_json from_slice response maximum = Inl e \<Longrightarrow> e \<noteq> RegNotFound"
    by (auto simp: decode_json_def try_bind_def map_err_def split: if_splits option.splits sum.splits)
qed

lemma discovery_errors: "refuses_with (\<lambda>e. e \<noteq> RegNotFound) (registry_origin env rc hostname)"
proof -
  have cached: "refuses_with (\<lambda>e. e \<noteq> RegNotFound) (cached_discovery env hostname)"
    unfolding cached_discovery_def by (intro refuses_with_rules) (auto simp: ok_or_def split: option.splits)
  have fetch: "refuses_with (\<lambda>e. e \<noteq> RegNotFound) (fetch_origin env client url)" for client url
    unfolding fetch_origin_def
    by (intro refuses_with_rules refuses_with_map_err(1))
      (auto simp: ok_or_def map_err_eq_Inl split: option.splits dest: decode_json_error)
  have store: "\<forall>e. r = Inl e \<longrightarrow> e \<noteq> RegNotFound \<Longrightarrow> refuses_with (\<lambda>e. e \<noteq> RegNotFound) (store_origin env hostname r)" for r
    unfolding store_origin_def by (cases r) (auto intro!: refuses_with_rules simp: ok_or_def split: option.splits)
  have locked: "refuses_with (\<lambda>e. e \<noteq> RegNotFound) (with_discovery_lock hostname body)"
    if "refuses_with (\<lambda>e. e \<noteq> RegNotFound) body" for body :: "(('u, 'z) registry_state_scheme, registry_error, 'u) oper"
    using that unfolding refuses_with_def with_discovery_lock_def by (fastforce split: prod.splits)
  have "refuses_with (\<lambda>e. e \<noteq> RegNotFound) (discover env client hostname base)" for client base
    unfolding discover_def discover_locked_def
    by (intro refuses_with_rules cached locked refuses_with_catch [OF fetch store]) (auto simp: map_err_eq_Inl)
  then show ?thesis unfolding registry_origin_def by (intro refuses_with_rules) auto
qed

lemma http_get_status:
  assumes "upstream_answers env" "http_get env client url timeout s = (Inr response, s')"
  shows "resp_status response \<noteq> 404"
proof -
  from assms(2) obtain sent where "get_loop (env_url env) (env_send env) client timeout MAX_REDIRECTS url (w_sent s) = (Inr response, sent)"
    by (auto simp: http_get_def outbound_get_def split: prod.splits)
  from get_loop_response [OF this] assms(1) show ?thesis unfolding upstream_answers_def by blast
qed

lemma versions_errors:
  assumes "upstream_answers env"
  shows "refuses_with (\<lambda>e. e \<noteq> RegNotFound) (registry_versions env rc hostname namespace provider_type)"
proof -
  have request: "refuses_with (\<lambda>e. e \<noteq> RegNotFound) (op_bind (op_map_err RegOutbound (http_get env client url 30)) (\<lambda>response.
       if resp_status response = 404 then op_err RegNotFound
       else op_result (map_err RegRequest (error_for_status response))))" for client url
    unfolding refuses_with_def op_bind_def op_map_err_def
    by (auto simp: op_defs map_err_eq_Inl map_err_eq_Inr split: prod.splits sum.splits if_splits dest: http_get_status [OF assms])
  have "refuses_with (\<lambda>e. e \<noteq> RegNotFound) (registry_get env rc hostname relative)" for relative
    unfolding registry_get_def
    by (rule refuses_with_bind [OF discovery_errors refuses_with_bind [OF refuses_with_basic(3) request]]) (auto simp: map_err_eq_Inl)
  then show ?thesis
    unfolding registry_versions_def by (intro refuses_with_rules) (auto dest: decode_json_error)
qed

lemma versions_valid:
  fixes env :: "('u, 'c, 'v, 'y) metadata_env_scheme"
  assumes "upstream_answers env" "registry_versions env rc hostname namespace provider_type s = (Inr versions, s')"
  shows "validate_registry_versions versions = Inr ()"
proof -
  from assms(2) obtain response :: "'u response" where "decode_json (env_json_versions env) response MAX_INDEX_JSON_BYTES = Inr versions"
    unfolding registry_versions_def by (auto simp: op_defs split: prod.splits sum.splits if_splits)
  then obtain body where "env_json_versions env body = Inr versions"
    by (auto simp: decode_json_def try_bind_def map_err_eq_Inr split: if_splits option.splits sum.splits)
  with assms(1) show ?thesis by (simp add: upstream_answers_def)
qed

lemma refresh_errors:
  fixes env :: "('u, 'c, 'v, 'y) metadata_env_scheme" and s :: "('u, 'z) metadata_state_scheme"
  assumes answers: "upstream_answers env" and run: "refresh_index_unlocked env svc key s = (Inl e, s')"
  shows "should_backoff e"
proof -
  have versions: "refuses_with should_backoff (op_map_err map_registry (registry_versions env rc h n t) ::
      (('u, 'z) metadata_state_scheme, metadata_error, registry_version list) oper)" for rc h n t
    by (rule refuses_with_map_err(2)) (simp only: should_backoff_map_registry versions_errors [OF answers])
  have store: "refuses_with should_backoff (op_bind (now_epoch env) (\<lambda>now.
       let entry = \<lparr>ce_fetched_at = now, ce_complete = True, ce_value = versions\<rparr> in
       op_bind (write_json_atomic env (index_path (sv_data_dir svc) key) (env_index_to_json env entry)) (\<lambda>_.
       op_bind (op_modify (\<lambda>s. s\<lparr>ms_indices := hm_insert key entry (ms_indices s)\<rparr>)) (\<lambda>_.
       op_ok entry))) :: (('u, 'z) metadata_state_scheme, metadata_error, index_entry) oper)" for versions
    unfolding Let_def by (intro refuses_with_rules write_json_errors) simp_all
  obtain r s1 where first: "op_map_err map_registry (registry_versions env (sv_registry svc) (pk_hostname key) (pk_namespace key)
      (pk_provider_type key)) s = (r, s1)" by fastforce
  show ?thesis
  proof (cases r)
    case (Inl e')
    then have "e = e'" using run first by (simp add: refresh_index_unlocked_def op_bind_def)
    then show ?thesis using versions [unfolded refuses_with_def] first Inl by blast
  next
    case (Inr vs)
    have "validate_registry_versions vs = Inr ()"
      using versions_valid [OF answers] first Inr by (auto simp: op_map_err_def map_err_eq_Inr split: prod.splits)
    then show ?thesis
      using store [of vs] run first Inr by (auto simp: refresh_index_unlocked_def op_bind_def [of "op_map_err _ _"] refuses_with_def)
  qed
qed

section \<open>Errors of the queries\<close>

text \<open>Only a synchronisation ends in the errors of a synchronisation.\<close>

definition query_error :: "metadata_error \<Rightarrow> bool" where
  "query_error e \<longleftrightarrow> e \<noteq> MdSyncInProgress \<and> (\<forall>n. e \<noteq> MdSyncFailed n)"

lemma query_error_simps [simp]:
  "query_error MdNotFound" "query_error (MdInvalidAddress what)" "query_error (MdRegistryNotAllowed what)"
  "query_error (MdRegistry re)" "query_error (MdIo io)" "query_error (MdJson what)" "query_error MdRefreshBackoff"
  by (simp_all add: query_error_def)

lemma query_error_map_registry [simp]: "query_error (map_registry e)"
  by (cases e) simp_all

lemma try_all_error: "try_all f xs = Inl e \<Longrightarrow> (\<And>x. f x = Inl e \<Longrightarrow> P e) \<Longrightarrow> P e"
  by (induction xs) (auto simp: try_bind_def split: sum.splits)

lemma validator_errors:
  "validate_registry_versions versions = Inl e \<Longrightarrow> query_error e"
  "validate_package api semver key requested package = Inl e \<Longrightarrow> query_error e"
  "provider_key_of svc hostname namespace provider_type = Inl e \<Longrightarrow> query_error e"
  "validate_version version name = Inl e \<Longrightarrow> query_error e"
proof -
  have platform: "validate_platform platform = Inl e \<Longrightarrow> query_error e" for platform
    by (auto simp: validate_platform_def validate_platform_component_def try_bind_def split: sum.splits if_splits)
  have version: "validate_registry_version version = Inl e \<Longrightarrow> query_error e" for version
    by (auto simp: validate_registry_version_def validate_version_def try_bind_def split: sum.splits if_splits
        elim: try_all_error intro: platform)
  show "validate_registry_versions versions = Inl e \<Longrightarrow> query_error e"
    by (auto simp: validate_registry_versions_def split: if_splits elim: try_all_error intro: version)
  show "validate_package api semver key requested package = Inl e \<Longrightarrow> query_error e"
    by (auto simp: validate_package_def split: if_splits sum.splits option.splits)
  show "provider_key_of svc hostname namespace provider_type = Inl e \<Longrightarrow> query_error e"
    by (auto simp: provider_key_of_def validate_hostname_def validate_component_def try_bind_def split: sum.splits if_splits)
  show "validate_version version name = Inl e \<Longrightarrow> query_error e"
    by (auto simp: validate_version_def split: if_splits)
qed

text \<open>An invalid version list of the upstream is an error of the address, which does not back off.\<close>

lemma invalid_list_not_backed_off:
  assumes "validate_registry_versions versions = Inl e"
  shows "\<not> should_backoff e"
proof -
  have "\<exists>what. e = MdInvalidAddress what" if "validate_platform platform = Inl e" for platform
    using that by (auto simp: validate_platform_def validate_platform_component_def try_bind_def split: sum.splits if_splits)
  then have "\<exists>what. e = MdInvalidAddress what" if "validate_registry_version version = Inl e" for version
    using that by (auto simp: validate_registry_version_def validate_version_def try_bind_def split: sum.splits if_splits elim: try_all_error)
  then have "\<exists>what. e = MdInvalidAddress what"
    using assms by (auto simp: validate_registry_versions_def split: if_splits elim: try_all_error)
  then show ?thesis by auto
qed

lemma refuses_with_locks:
  assumes "refuses_with P body"
  shows "refuses_with P (with_index_lock key body)" "refuses_with P (with_version_lock vkey body)"
  using assms unfolding refuses_with_def with_index_lock_def with_version_lock_def by (fastforce split: prod.splits)+

lemma refuses_with_checks:
  "refuses_with P (fresh_entry env svc lookup)" "refuses_with P (refresh_allowed_now env svc table k)"
  "refuses_with P (record_index_failure env svc key)" "refuses_with P (clear_index_failure key)"
  "refuses_with P (record_version_failure env svc vkey)" "refuses_with P (clear_version_failure vkey)"
  "refuses_with P (record_missing_version_refresh env svc key)"
  unfolding fresh_entry_def entry_fresh_def refresh_allowed_now_def record_index_failure_def clear_index_failure_def Let_def
    record_version_failure_def clear_version_failure_def record_missing_version_refresh_def
  by (intro refuses_with_rules)+

lemma read_json_errors: "refuses_with query_error (read_json env from_slice path)"
proof -
  have io_case: "refuses_with query_error (case io of IoNotFound \<Rightarrow> op_ok None | IoOther what \<Rightarrow> op_err (MdIo (IoOther what)))" for io
    by (cases io) (auto intro: refuses_with_rules)
  show ?thesis
    unfolding read_json_def
    by (intro refuses_with_catch [where P' = "\<lambda>_. True"] refuses_with_cases refuses_with_basic io_case) (auto simp: refuses_with_def)
qed

text \<open>A handler of an outcome, if it passes on the error it got.\<close>

lemma refuses_with_outcome:
  assumes "refuses_with P f" "\<And>a. refuses_with P (g a)" "\<And>e. P e \<Longrightarrow> refuses_with P (h e)"
  shows "refuses_with P (op_catch f (\<lambda>outcome. case outcome of Inr a \<Rightarrow> g a | Inl e \<Rightarrow> h e))"
proof (rule refuses_with_catch [OF assms(1)])
  show "refuses_with P (case r of Inr a \<Rightarrow> g a | Inl e \<Rightarrow> h e)" if "\<forall>e. r = Inl e \<longrightarrow> P e" for r
    using that assms(2,3) by (cases r) simp_all
qed

lemma ok_or_error: "ok_or x e = Inl e' \<Longrightarrow> e' = e"
  by (cases x) (simp_all add: ok_or_def)

lemma load_entry_errors:
  assumes "refuses_with query_error persisted" "refuses_with query_error allowed" "refuses_with query_error refresh"
    "refuses_with query_error clear" "refuses_with query_error record_failure"
  shows "refuses_with query_error (load_entry_locked env svc lookup persisted allowed refresh clear record_failure)"
  unfolding load_entry_locked_def
  by (intro refuses_with_outcome refuses_with_rules refuses_with_checks assms) (auto dest: ok_or_error)

lemma load_index_errors: "refuses_with query_error (load_index env svc key)" "refuses_with query_error (refresh_index_unlocked env svc key)"
proof -
  show refresh: "refuses_with query_error (refresh_index_unlocked env svc key)"
    unfolding refresh_index_unlocked_def Let_def
    by (intro refuses_with_rules refuses_with_map_err(1) write_json_errors) (auto dest: validator_errors)
  have persisted: "refuses_with query_error (read_persisted_index env svc key)"
    unfolding read_persisted_index_def by (intro refuses_with_rules read_json_errors)
  show "refuses_with query_error (load_index env svc key)"
    unfolding load_index_def load_index_locked_def index_refresh_allowed_def
    by (intro refuses_with_rules refuses_with_checks refuses_with_locks load_entry_errors persisted refresh)
qed

lemma fetch_packages_errors:
  fixes s :: "('u, 'z) metadata_state_scheme" and env :: "('u, 'c, 'v, 'y) metadata_env_scheme"
  assumes "fetch_packages env svc key platforms s = (r, s')"
  obtains results where "r = Inr results" "\<And>e. Inl e \<in> set results \<Longrightarrow> query_error e"
proof -
  have "\<exists>results. r = Inr results \<and> (\<forall>e. Inl e \<in> set results \<longrightarrow> query_error e)" using assms
  proof (induction platforms arbitrary: s r s')
    case (Cons platform platforms)
    let ?package = "op_map_err map_registry (registry_package env (sv_registry svc) (pk_hostname (vk_provider key))
       (pk_namespace (vk_provider key)) (pk_provider_type (vk_provider key)) (vk_version key) platform)"
    obtain result s1 where result: "?package s = (result, s1)" by fastforce
    obtain r2 s2 where rest: "fetch_packages env svc key platforms s1 = (r2, s2)" by fastforce
    obtain results where results: "r2 = Inr results" "\<forall>e. Inl e \<in> set results \<longrightarrow> query_error e" using Cons.IH [OF rest] by blast
    have "query_error e" if "result = Inl e" for e
      using result that by (auto simp: op_map_err_def map_err_eq_Inl split: prod.splits)
    moreover have "r = Inr (try_bind result (\<lambda>package. map_sum id (\<lambda>_. package)
        (validate_package (env_url env) (sv_parse (env_semver env)) key platform package)) # results)"
      using Cons.prems result rest results(1) by (simp add: op_catch_def op_bind_def op_ok_def)
    moreover have "query_error e" if "map_sum id (\<lambda>_. package) (validate_package (env_url env) (sv_parse (env_semver env)) key platform package) = Inl e"
      for package e
      using that validator_errors(2) by (cases "validate_package (env_url env) (sv_parse (env_semver env)) key platform package") auto
    ultimately show ?case using results(2) by (auto simp: try_bind_def dest: sym split: sum.splits)
  qed (simp add: op_ok_def)
  then show thesis using that by blast
qed

lemma collect_packages_error:
  "collect_packages results refreshed first = (refreshed', Some e) \<Longrightarrow> first = Some e \<or> Inl e \<in> set results"
  by (induction results refreshed first rule: collect_packages.induct) (auto split: option.splits)

lemma load_version_errors: "refuses_with query_error (load_version env svc key)"
proof -
  have index: "refuses_with query_error (index_for_version env svc key)"
    unfolding index_for_version_def missing_refresh_wanted_def missing_version_refresh_allowed_def index_refresh_allowed_def
    by (intro refuses_with_outcome refuses_with_rules refuses_with_checks refuses_with_locks load_index_errors)
  have packages: "refuses_with query_error (op_bind (fetch_packages env svc key platforms) g)"
    if "\<And>results. (\<And>e. Inl e \<in> set results \<Longrightarrow> query_error e) \<Longrightarrow> refuses_with query_error (g results)" for platforms g
    unfolding refuses_with_def
  proof (intro allI impI)
    fix s e s' assume run: "op_bind (fetch_packages env svc key platforms) g s = (Inl e, s')"
    obtain r s1 where fetched: "fetch_packages env svc key platforms s = (r, s1)" by fastforce
    then obtain results where results: "r = Inr results" "\<forall>e. Inl e \<in> set results \<longrightarrow> query_error e" using fetch_packages_errors by metis
    then show "query_error e" using that [of results] run fetched by (auto simp: refuses_with_def op_bind_def)
  qed
  have refresh: "refuses_with query_error (refresh_version env svc key)"
    unfolding refresh_version_def Let_def
    by (intro refuses_with_rules index packages) (auto split: prod.splits option.splits if_splits dest: ok_or_error collect_packages_error
        intro!: refuses_with_rules write_json_errors)
  have persisted: "refuses_with query_error (read_persisted_version env svc key)"
    unfolding read_persisted_version_def by (intro refuses_with_rules read_json_errors)
  show ?thesis
    unfolding load_version_def load_version_locked_def version_refresh_allowed_def
    by (intro refuses_with_rules refuses_with_checks refuses_with_locks load_entry_errors persisted refresh)
qed

text \<open>The three queries.\<close>

lemma query_errors:
  "refuses_with query_error (list_versions env svc h n t)"
  "refuses_with query_error (get_version env svc h n t v)"
  "refuses_with query_error (get_platform_by_archive env svc h n t f)"
proof -
  have entry: "refuses_with query_error (get_version_entry env svc h n t v)" for v
    unfolding get_version_entry_def
    by (intro refuses_with_outcome load_version_errors refuses_with_rules)
      (auto split: metadata_error.split intro!: refuses_with_rules dest: validator_errors)
  show "refuses_with query_error (list_versions env svc h n t)" "refuses_with query_error (get_version env svc h n t v)"
    "refuses_with query_error (get_platform_by_archive env svc h n t f)"
    unfolding list_versions_def get_version_def get_platform_by_archive_def
    by (intro refuses_with_rules load_index_errors entry; auto simp: map_err_eq_Inl dest: validator_errors)+
qed

end
