(* ===== verification/Index_Refresh.thy ===== *)
theory Index_Refresh
  imports Metadata_Errors
begin

text \<open>
  One refresh for many loads (\<^verbatim>\<open>src/src/metadata.rs\<close>: \<open>load_index\<close>): once a load of an index has refreshed it, or
  has failed to, the loads that follow are answered from the cache or refused until the entry expires or the backoff
  is over. The lock of the index lets the loads pass one after the other, which is how they are composed here.
\<close>

section \<open>Time passes\<close>

definition later :: "('u, 'z) world_scheme \<Rightarrow> ('u, 'z) world_scheme \<Rightarrow> bool" where
  "later s s' \<longleftrightarrow> w_tick s \<le> w_tick s'"

interpretation time: state_preorder later
  by unfold_locales (simp_all add: later_def)

lemma later_basic:
  "op_respects later (instant_now env)" "op_respects later (now_epoch env)" "op_respects later (http_get env client url timeout)"
  "op_respects later next_metadata_sequence" "op_respects later (io_op env act)"
  by (auto simp: op_respects_def later_def instant_now_def now_epoch_def http_get_def
      next_metadata_sequence_def io_op_def split: prod.splits option.splits sum.splits)

lemma later_modify: "(\<And>s. w_tick (f s) = w_tick s) \<Longrightarrow> op_respects later (op_modify f)"
  by (rule time.respects_modify) (simp add: later_def)

lemma later_io_case:
  "op_respects later f \<Longrightarrow> (\<And>e. op_respects later (j e)) \<Longrightarrow> op_respects later (case io of IoNotFound \<Rightarrow> f | IoOther e \<Rightarrow> j e)"
  by (cases io) auto

lemmas later_rules = time.respects_rules later_basic later_io_case

lemma later_discovery:
  "op_respects later (cached_discovery env hostname)" "op_respects later (fetch_origin env client url)"
  "op_respects later (store_origin env hostname outcome)"
  unfolding cached_discovery_def fetch_origin_def store_origin_def
  by (intro later_rules later_modify; simp)+

lemma later_discovery_lock: "op_respects later body \<Longrightarrow> op_respects later (with_discovery_lock hostname body)"
  unfolding op_respects_def later_def with_discovery_lock_def by (fastforce split: prod.splits)

lemma later_registry: "op_respects later (registry_versions env rc hostname namespace provider_type)"
  unfolding registry_versions_def registry_get_def registry_origin_def discover_def discover_locked_def
  by (intro later_rules later_discovery later_discovery_lock)

lemma later_store:
  "op_respects later (read_json env from_slice path)" "op_respects later (write_json_atomic env path encoded)"
  unfolding read_json_def write_json_atomic_def Let_def sync_parent_def or_remove_def read_file_def open_file_def file_step_def
    create_dir_all_def create_new_file_def append_file_def rename_file_def remove_file_def
  by (intro later_rules)+

section \<open>A refresh\<close>

text \<open>The clock has passed a tick, and at most \<open>n\<close> requests were sent since the log was \<open>sent\<close>.\<close>

definition since :: "nat \<Rightarrow> nat \<Rightarrow> nat \<Rightarrow> ('u, 'z) world_scheme \<Rightarrow> bool" where
  "since tick sent n s \<longleftrightarrow> tick \<le> w_tick s \<and> length (w_sent s) \<le> sent + n"

lemma keeps_since:
  assumes "op_respects later f" "requests_within env client 0 f"
  shows "keeps (since tick sent n) f"
  unfolding triple_iff since_def
proof (intro allI impI)
  fix s r s' assume s: "tick \<le> w_tick s \<and> length (w_sent s) \<le> sent + n" and run: "f s = (r, s')"
  have "w_tick s \<le> w_tick s'" using respectsD [OF assms(1) run] by (simp add: later_def)
  moreover have "w_sent s' = w_sent s" using assms(2) run unfolding requests_within_def by fastforce
  ultimately have "tick \<le> w_tick s' \<and> length (w_sent s') \<le> sent + n" using s by simp
  then show "case r of Inr a \<Rightarrow> tick \<le> w_tick s' \<and> length (w_sent s') \<le> sent + n | Inl e \<Rightarrow> tick \<le> w_tick s' \<and> length (w_sent s') \<le> sent + n"
    by (simp split: sum.split)
qed

lemma triple_since:
  assumes "op_respects later f" "requests_within env client n f"
  shows "triple (since tick sent 0) f (\<lambda>_. since tick sent n) (\<lambda>_. since tick sent n)"
  unfolding triple_iff since_def
proof (intro allI impI)
  fix s r s' assume s: "tick \<le> w_tick s \<and> length (w_sent s) \<le> sent + 0" and run: "f s = (r, s')"
  have "w_tick s \<le> w_tick s'" using respectsD [OF assms(1) run] by (simp add: later_def)
  moreover have "length (w_sent s') \<le> length (w_sent s) + n" using assms(2) run unfolding requests_within_def by fastforce
  ultimately have "tick \<le> w_tick s' \<and> length (w_sent s') \<le> sent + n" using s by simp
  then show "case r of Inr a \<Rightarrow> tick \<le> w_tick s' \<and> length (w_sent s') \<le> sent + n | Inl e \<Rightarrow> tick \<le> w_tick s' \<and> length (w_sent s') \<le> sent + n"
    by (simp split: sum.split)
qed

lemma requests_write_json: "requests_within env client 0 (write_json_atomic env' path encoded)"
proof -
  have sequence: "requests_within env client 0 next_metadata_sequence"
    by (rule requests_same_log) (simp add: next_metadata_sequence_def)
  show ?thesis
    unfolding write_json_atomic_def Let_def sync_parent_def or_remove_def open_file_def file_step_def
      create_dir_all_def create_new_file_def append_file_def rename_file_def remove_file_def
    by (intro requests_bind0 sequence requests_map_err requests_none requests_catch [where n = 0 and m = 0, simplified] requests_cases)
qed

lemma keeps_and: "keeps I f \<Longrightarrow> triple (\<lambda>s. I s \<and> C) f (\<lambda>_ s. I s \<and> C) (\<lambda>_. I)"
  by (cases C) (simp_all add: triple_def)

text \<open>A refresh sends at most twelve requests; when it succeeds, the entry is in the cache and was fetched since.\<close>

definition refreshed ::
  "('u, 'c, 'v, 'y) metadata_env_scheme \<Rightarrow> provider_key \<Rightarrow> nat \<Rightarrow> index_entry \<Rightarrow> ('u, 'z) metadata_state_scheme \<Rightarrow> bool" where
  "refreshed env key tick entry s \<longleftrightarrow>
     index_of key s = Some entry \<and> ce_complete entry \<and> (\<exists>m\<ge>tick. ce_fetched_at entry = env_epoch env m)"

lemma refresh_index_since:
  "triple (since tick sent 0) (refresh_index_unlocked env svc key)
     (\<lambda>entry s. since tick sent 12 s \<and> refreshed env key tick entry s) (\<lambda>_. since tick sent 12)"
proof -
  let ?I = "since tick sent 12"
  have clock: "triple ?I (now_epoch env) (\<lambda>now s. ?I s \<and> (\<exists>m\<ge>tick. now = env_epoch env m)) (\<lambda>_. ?I)"
    by (auto simp: triple_def now_epoch_def since_def)
  have wrote: "triple (\<lambda>s. ?I s \<and> C) (write_json_atomic env path encoded) (\<lambda>_ s. ?I s \<and> C) (\<lambda>_. ?I)" for C path encoded
    by (rule keeps_and [OF keeps_since [OF later_store(2) requests_write_json]])
  have insert: "triple (\<lambda>s. ?I s \<and> (\<exists>m\<ge>tick. now = env_epoch env m))
      (op_modify (\<lambda>s. s\<lparr>ms_indices := hm_insert key \<lparr>ce_fetched_at = now, ce_complete = True, ce_value = versions\<rparr> (ms_indices s)\<rparr>))
      (\<lambda>_ s. ?I s \<and> refreshed env key tick \<lparr>ce_fetched_at = now, ce_complete = True, ce_value = versions\<rparr> s) (\<lambda>_. ?I)" for now versions
    by (auto simp: triple_def op_modify_def since_def refreshed_def index_of_def hm_insert_get)
  have store: "triple ?I (op_bind (now_epoch env) (\<lambda>now.
       let entry = \<lparr>ce_fetched_at = now, ce_complete = True, ce_value = versions\<rparr> in
       op_bind (write_json_atomic env (index_path (sv_data_dir svc) key) (env_index_to_json env entry)) (\<lambda>_.
       op_bind (op_modify (\<lambda>s. s\<lparr>ms_indices := hm_insert key entry (ms_indices s)\<rparr>)) (\<lambda>_.
       op_ok entry)))) (\<lambda>entry s. ?I s \<and> refreshed env key tick entry s) (\<lambda>_. ?I)" for versions
    unfolding Let_def
    by (rule triple_bind [OF clock], rule triple_bind [OF wrote], rule triple_bind [OF insert], rule triple_ok)
  show ?thesis
    unfolding refresh_index_unlocked_def
    by (rule triple_bind [OF triple_map_err [where R = "\<lambda>_. ?I", OF triple_since [OF later_registry requests_registry_versions]]],
        rule triple_bind [OF keeps_result], rule store)
qed

section \<open>Loads in a window\<close>

text \<open>All readings of the clocks from a tick on are less than the freshness and less than the backoff apart, and every
  refresh that fails, fails with an error that backs off.\<close>

definition refresh_window ::
  "('u, 'c, 'v, 'y) metadata_env_scheme \<Rightarrow> ('u, 'c) metadata_service \<Rightarrow> nat \<Rightarrow> bool" where
  "refresh_window env svc tick \<longleftrightarrow>
     (\<forall>m\<ge>tick. \<forall>n\<ge>tick. env_epoch env n < env_epoch env m + sv_freshness svc div second \<and>
        env_instant env n < env_instant env m + sv_refresh_backoff svc)"

text \<open>The cache has an entry that stays fresh, or a failure is recorded that keeps backing off.\<close>

definition index_settled ::
  "('u, 'c, 'v, 'y) metadata_env_scheme \<Rightarrow> ('u, 'c) metadata_service \<Rightarrow> provider_key \<Rightarrow> nat \<Rightarrow> ('u, 'z) metadata_state_scheme \<Rightarrow> bool" where
  "index_settled env svc key tick s \<longleftrightarrow>
     (\<exists>entry. refreshed env key tick entry s) \<or>
     (\<exists>retry. hm_get (ms_index_failures s) key = Some retry \<and> (\<forall>n\<ge>tick. env_instant env n < retry))"

lemma refreshed_hit:
  assumes "refresh_window env svc tick" "refreshed env key tick entry s" "tick \<le> w_tick s"
  shows "load_index env svc key s = (Inr entry, s\<lparr>w_tick := w_tick s + 1\<rparr>)"
proof -
  obtain m where m: "m \<ge> tick" "ce_fetched_at entry = env_epoch env m" and there: "index_of key s = Some entry" "ce_complete entry"
    using assms(2) by (auto simp: refreshed_def)
  have "env_epoch env m < env_epoch env m + sv_freshness svc div second" "env_epoch env (w_tick s) < env_epoch env m + sv_freshness svc div second"
    using assms(1,3) m(1) unfolding refresh_window_def by blast+
  then have "env_epoch env (w_tick s) - ce_fetched_at entry < sv_freshness svc div second" using m(2) by linarith
  then show ?thesis using there by (simp add: load_index_def fresh_entry_def entry_fresh_def now_epoch_def op_defs)
qed

lemma settled_keeps:
  assumes window: "refresh_window env svc tick"
  shows "keeps (\<lambda>s. index_settled env svc key tick s \<and> tick \<le> w_tick s \<and> w_sent s = sent) (load_index env svc key)"
  unfolding triple_iff
proof (intro allI impI)
  fix s r s' assume s: "index_settled env svc key tick s \<and> tick \<le> w_tick s \<and> w_sent s = sent" and run: "load_index env svc key s = (r, s')"
  have "index_settled env svc key tick s' \<and> tick \<le> w_tick s' \<and> w_sent s' = sent"
  proof (cases "\<exists>entry. refreshed env key tick entry s")
    case True
    then obtain entry where entry: "refreshed env key tick entry s" by blast
    have "s' = s\<lparr>w_tick := w_tick s + 1\<rparr>" using refreshed_hit [OF window entry] s run by simp
    moreover have "refreshed env key tick entry (s\<lparr>w_tick := w_tick s + 1\<rparr>)" using entry by (simp add: refreshed_def index_of_def)
    ultimately show ?thesis using s by (auto simp: index_settled_def)
  next
    case False
    then obtain retry where retry: "hm_get (ms_index_failures s) key = Some retry" "\<And>n. tick \<le> n \<Longrightarrow> env_instant env n < retry"
      using s by (auto simp: index_settled_def)
    have "env_instant env tick < env_instant env tick + sv_refresh_backoff svc" using window unfolding refresh_window_def by blast
    then have "0 < sv_refresh_backoff svc" by simp
    then have "backed_off key retry tick sent s'"
      using keeps_run [OF load_index_backed_off [where tick = tick and retry = retry and svc = svc and key = key and sent = sent, OF retry(2)] _ run]
        retry(1) s by (simp add: backed_off_def)
    then show ?thesis using retry(2) by (auto simp: index_settled_def backed_off_def)
  qed
  then show "case r of Inr a \<Rightarrow> index_settled env svc key tick s' \<and> tick \<le> w_tick s' \<and> w_sent s' = sent
      | Inl e \<Rightarrow> index_settled env svc key tick s' \<and> tick \<le> w_tick s' \<and> w_sent s' = sent" by (simp split: sum.split)
qed

text \<open>A load from the outset: either nothing was sent, or it settles the index with at most twelve requests.\<close>

definition load_outcome ::
  "('u, 'c, 'v, 'y) metadata_env_scheme \<Rightarrow> ('u, 'c) metadata_service \<Rightarrow> provider_key \<Rightarrow> nat \<Rightarrow> 'u list \<Rightarrow> ('u, 'z) metadata_state_scheme \<Rightarrow> bool" where
  "load_outcome env svc key tick sent s \<longleftrightarrow>
     tick \<le> w_tick s \<and> (w_sent s = sent \<or> length (w_sent s) \<le> length sent + 12 \<and> index_settled env svc key tick s)"

abbreviation unsent :: "nat \<Rightarrow> 'u list \<Rightarrow> ('u, 'z) world_scheme \<Rightarrow> bool" where
  "unsent tick sent s \<equiv> tick \<le> w_tick s \<and> w_sent s = sent"

lemma unsent_outcome: "unsent tick sent s \<Longrightarrow> load_outcome env svc key tick sent s"
  by (simp add: load_outcome_def)

lemma keeps_unsent:
  "keeps (unsent tick sent) (fresh_entry env svc lookup)" "keeps (unsent tick sent) (read_persisted_index env svc key)"
  "keeps (unsent tick sent) (index_refresh_allowed env svc key)"
  by (auto simp: triple_iff fresh_entry_def entry_fresh_def now_epoch_def Let_def index_refresh_allowed_def refresh_allowed_now_def instant_now_def
      read_persisted_index_def read_json_def read_file_def io_op_def op_defs
      split: option.splits sum.splits if_splits io_error.splits node.splits)

lemma record_index_failure_settles:
  assumes "refresh_window env svc tick"
  shows "triple (since tick (length sent) 12) (record_index_failure env svc key) (\<lambda>_. load_outcome env svc key tick sent) (\<lambda>_ _. False)"
  using assms
  by (auto simp: triple_def record_index_failure_def instant_now_def op_defs since_def load_outcome_def index_settled_def refresh_window_def
      record_refresh_failure_eq hm_insert_get)

lemma refresh_outcome:
  fixes env :: "('u, 'c, 'v, 'y) metadata_env_scheme" and sent :: "'u list"
  assumes errors: "\<And>e (s :: ('u, 'z) metadata_state_scheme) s'. refresh_index_unlocked env svc key s = (Inl e, s') \<Longrightarrow> should_backoff e"
  shows "triple (unsent tick sent) (refresh_index_unlocked env svc key :: (('u, 'z) metadata_state_scheme, metadata_error, index_entry) oper)
     (\<lambda>entry s. since tick (length sent) 12 s \<and> refreshed env key tick entry s) (\<lambda>e s. since tick (length sent) 12 s \<and> should_backoff e)"
  unfolding triple_iff
proof (intro allI impI)
  fix s :: "('u, 'z) metadata_state_scheme" and r s'
  assume s: "unsent tick sent s" and run: "refresh_index_unlocked env svc key s = (r, s')"
  from s have "since tick (length sent) 0 s" by (simp add: since_def)
  from triple_run [OF refresh_index_since this run] errors run
  show "case r of Inr entry \<Rightarrow> since tick (length sent) 12 s' \<and> refreshed env key tick entry s'
      | Inl e \<Rightarrow> since tick (length sent) 12 s' \<and> should_backoff e" by (auto split: sum.splits)
qed

lemma record_outcome:
  assumes window: "refresh_window env svc tick"
  shows "triple (\<lambda>s. since tick (length sent) 12 s \<and> should_backoff e)
      (op_bind (if should_backoff e then record_index_failure env svc key else op_ok ()) (\<lambda>_.
       op_bind (op_get (index_of key)) (\<lambda>current. op_result (ok_or (case cached of Some entry \<Rightarrow> Some entry | None \<Rightarrow> current) e))))
      (\<lambda>_. load_outcome env svc key tick sent) (\<lambda>_. load_outcome env svc key tick sent)"
proof (cases "should_backoff e")
  case True
  have "triple (since tick (length sent) 12) (record_index_failure env svc key) (\<lambda>_. load_outcome env svc key tick sent)
      (\<lambda>_. load_outcome env svc key tick sent)"
    by (rule triple_weaken [OF record_index_failure_settles [OF window]]) auto
  from triple_bind [OF this keeps_bind [OF keeps_get keeps_result]] show ?thesis by (simp add: True)
qed (simp add: triple_def)

lemma clear_outcome:
  "triple (\<lambda>s. since tick (length sent) 12 s \<and> refreshed env key tick entry s)
     (op_bind (clear_index_failure key) (\<lambda>_. op_ok entry)) (\<lambda>_. load_outcome env svc key tick sent) (\<lambda>_. load_outcome env svc key tick sent)"
  by (auto simp: triple_def clear_index_failure_def op_defs load_outcome_def since_def index_settled_def refreshed_def index_of_def)

lemma load_index_outcome:
  fixes env :: "('u, 'c, 'v, 'y) metadata_env_scheme" and sent :: "'u list"
  assumes window: "refresh_window env svc tick"
    and errors: "\<And>e (s :: ('u, 'z) metadata_state_scheme) s'. refresh_index_unlocked env svc key s = (Inl e, s') \<Longrightarrow> should_backoff e"
  shows "triple (unsent tick sent) (load_index env svc key :: (('u, 'z) metadata_state_scheme, metadata_error, index_entry) oper)
     (\<lambda>_. load_outcome env svc key tick sent) (\<lambda>_. load_outcome env svc key tick sent)"
proof -
  let ?I = "unsent tick sent" and ?O = "load_outcome env svc key tick sent"
  have kept: "triple ?I f (\<lambda>_. ?I) (\<lambda>_. ?O)" if "keeps ?I f" for f :: "(('u, 'z) metadata_state_scheme, metadata_error, 'b) oper"
    by (rule triple_weaken [OF that]) (simp_all add: unsent_outcome)
  have found: "triple ?I (case hit of Some entry \<Rightarrow> op_ok entry | None \<Rightarrow> f) (\<lambda>_. ?O) (\<lambda>_. ?O)" if "triple ?I f (\<lambda>_. ?O) (\<lambda>_. ?O)"
    for hit and f :: "(('u, 'z) metadata_state_scheme, metadata_error, index_entry) oper"
    using that by (cases hit) (simp_all add: triple_def op_ok_def unsent_outcome)
  have decide: "triple ?I (if \<not> b then op_result (ok_or cached MdRefreshBackoff) else f) (\<lambda>_. ?O) (\<lambda>_. ?O)" if "triple ?I f (\<lambda>_. ?O) (\<lambda>_. ?O)"
    for b cached and f :: "(('u, 'z) metadata_state_scheme, metadata_error, index_entry) oper"
    using that by (cases b) (auto simp: triple_def op_result_def unsent_outcome split: sum.splits)
  have refresh: "triple ?I (op_catch (refresh_index_unlocked env svc key :: (('u, 'z) metadata_state_scheme, metadata_error, index_entry) oper) (\<lambda>outcome. case outcome of
         Inr entry \<Rightarrow> op_bind (clear_index_failure key) (\<lambda>_. op_ok entry)
       | Inl error \<Rightarrow>
           op_bind (if should_backoff error then record_index_failure env svc key else op_ok ()) (\<lambda>_.
           op_bind (op_get (index_of key)) (\<lambda>current.
           op_result (ok_or (case cached of Some entry \<Rightarrow> Some entry | None \<Rightarrow> current) error)))))
      (\<lambda>_. ?O) (\<lambda>_. ?O)" for cached
  proof (rule triple_catch [where Q' = "\<lambda>r s. case r of Inr entry \<Rightarrow> since tick (length sent) 12 s \<and> refreshed env key tick entry s
        | Inl e \<Rightarrow> since tick (length sent) 12 s \<and> should_backoff e"], goal_cases)
    case 1
    show ?case unfolding sum.case by (rule refresh_outcome [OF errors])
  next
    case (2 r)
    show ?case by (cases r) (simp_all only: sum.case clear_outcome record_outcome [OF window])
  qed
  show ?thesis
    unfolding load_index_def load_index_locked_def load_entry_locked_def
    by (intro triple_bind [OF kept] found with_index_lock_triple decide refresh keeps_unsent keeps_get keeps_cases(1) [OF keeps_ok])
      (simp_all add: load_outcome_def index_settled_def refreshed_def index_of_def)
qed

section \<open>Properties\<close>

text \<open>C9: many requests for an index cost one refresh. While the clocks stay within the freshness and the backoff,
  and the upstream neither answers 404 nor sends a version list that is invalid, any number of loads of an index,
  whether they succeed or not, send at most twelve requests together: one refresh with its discovery.\<close>

theorem index_refreshed_once:
  fixes env :: "('u, 'c, 'v, 'y) metadata_env_scheme" and s :: "('u, 'z) metadata_state_scheme"
  assumes "refresh_window env svc (w_tick s)" "upstream_answers env"
  shows "length (w_sent (((\<lambda>t. snd (load_index env svc key t)) ^^ n) s)) \<le> length (w_sent s) + 12"
proof -
  define run where "run n = ((\<lambda>t. snd (load_index env svc key t)) ^^ n) s" for n
  have "load_outcome env svc key (w_tick s) (w_sent s) (run n)" for n
  proof (induction n)
    case 0
    show ?case by (simp add: run_def unsent_outcome)
  next
    case (Suc n)
    obtain r t where t: "load_index env svc key (run n) = (r, t)" by fastforce
    have "load_outcome env svc key (w_tick s) (w_sent s) t"
    proof (cases "unsent (w_tick s) (w_sent s) (run n)")
      case True
      then show ?thesis
        using triple_run [OF load_index_outcome [OF assms(1) refresh_errors [OF assms(2)]] True t] by (simp split: sum.splits)
    next
      case False
      then show ?thesis
        using Suc keeps_run [OF settled_keeps [OF assms(1), of key "w_sent (run n)"] _ t] by (auto simp: load_outcome_def)
    qed
    then show ?case using t by (simp add: run_def)
  qed
  from this [of n] show ?thesis unfolding run_def load_outcome_def by auto
qed

theorem index_refreshed_once_witness:
  "length (w_sent (((\<lambda>t. snd (load_index toy_metadata_env toy_service \<lparr>pk_hostname = ''h'', pk_namespace = ''n'', pk_provider_type = ''t''\<rparr> t)) ^^ 100)
     toy_metadata_state)) \<le> 12"
proof -
  have "refresh_window toy_metadata_env toy_service (w_tick toy_metadata_state)"
    by (simp add: refresh_window_def toy_metadata_env_def toy_env_def toy_service_def registry_env.defs second_def)
  moreover have "upstream_answers toy_metadata_env"
    by (auto simp: upstream_answers_def toy_metadata_env_def toy_env_def registry_env.defs toy_send_def validate_registry_versions_def
        split: if_splits)
  moreover have "w_sent toy_metadata_state = []"
    by (simp add: toy_metadata_state_def initial_metadata_state_def toy_registry_state_def registry_state.defs)
  ultimately show ?thesis using index_refreshed_once [of toy_metadata_env toy_service toy_metadata_state 100] by simp
qed

end
