(* ===== verification/Archive_Storage.thy ===== *)
theory Archive_Storage
  imports Metadata_Queries
begin

text \<open>
  The archive cache (\<^verbatim>\<open>src/src/storage.rs\<close>): keys and paths of provider archives, the table of
  verified files, hashing, the download of an archive and \<open>load_or_fetch\<close>.

  The state is that of the metadata service extended by the storage's locks, verified files and
  download permits. Parameters are the streaming SHA-256 of the crates \<^verbatim>\<open>sha2\<close> and \<^verbatim>\<open>hex\<close>, and the
  number of bytes the system hands out per \<open>read\<close>. A call runs alone between its lock and its end
  (theory \<open>Key_Locks\<close>); a call that waits for a permit starts when it is granted one.
\<close>

section \<open>Definitions\<close>

definition MAX_PROVIDER_ARCHIVE_BYTES :: nat where "MAX_PROVIDER_ARCHIVE_BYTES = 1024 * 1024 * 1024"
definition MAX_CONCURRENT_DOWNLOADS :: nat where "MAX_CONCURRENT_DOWNLOADS = 8"
definition MAX_VERIFIED_ENTRIES :: nat where "MAX_VERIFIED_ENTRIES = 16384"
definition HASH_BUFFER_BYTES :: nat where "HASH_BUFFER_BYTES = 256 * 1024"

record archive_key =
  ak_hostname :: string
  ak_namespace :: string
  ak_provider_type :: string
  ak_filename :: string

datatype storage_error =
    StInvalidKey string
  | StMissingChecksum
  | StChecksumMismatch string string
  | StTooLarge
  | StPolicy string
  | StRedirect string
  | StRequest "cause list"
  | StOutbound outbound_error
  | StIo io_error

record file_identity =
  fi_len :: nat
  fi_modified :: "nat option"
  fi_dev :: nat
  fi_ino :: nat

definition identity_of :: "octet list \<Rightarrow> stamp \<Rightarrow> file_identity" where
  "identity_of bytes st = \<lparr>fi_len = length bytes, fi_modified = st_modified st, fi_dev = st_dev st, fi_ino = st_ino st\<rparr>"

record verified_file =
  vf_identity :: file_identity
  vf_checksum :: string

text \<open>The configuration of the storage; what changes is in the state.\<close>

record 'c provider_storage =
  ps_root :: string
  ps_bundled_mirror :: "string option"
  ps_max_archive_bytes :: nat
  ps_outbound :: "'c outbound_client"

record 'u storage_state = "'u metadata_state" +
  ss_locks :: "archive_key lock_table"
  ss_verified :: "(string, verified_file) hashmap"
  ss_permits :: nat

record 'h sha_api =
  sha_new :: 'h
  sha_update :: "'h \<Rightarrow> octet list \<Rightarrow> 'h"
  sha_hex :: "'h \<Rightarrow> string"

record ('u, 'c, 'v, 'h) storage_env = "('u, 'c, 'v) metadata_env" +
  env_sha :: "'h sha_api"
  env_read :: "nat \<Rightarrow> nat"

subsection \<open>Construction\<close>

definition storage_build :: "string \<Rightarrow> string option \<Rightarrow> nat \<Rightarrow> 'c outbound_client \<Rightarrow> 'c provider_storage" where
  "storage_build root bundled max_archive_bytes outbound =
     \<lparr>ps_root = root, ps_bundled_mirror = bundled, ps_max_archive_bytes = max_archive_bytes, ps_outbound = outbound\<rparr>"

definition with_bundled_mirror_and_outbound :: "string \<Rightarrow> string option \<Rightarrow> 'c outbound_client \<Rightarrow> 'c provider_storage" where
  "with_bundled_mirror_and_outbound root bundled outbound = storage_build root bundled MAX_PROVIDER_ARCHIVE_BYTES outbound"

text \<open>\<open>new\<close> panics without a client, which is \<open>None\<close>; \<open>direct_client\<close> is what \<open>OutboundClient::new(Direct, None)\<close> returns.\<close>

definition storage_new :: "string \<Rightarrow> (string \<Rightarrow> string option) \<Rightarrow> (outbound_error, 'c outbound_client) result \<Rightarrow> 'c provider_storage option" where
  "storage_new root env_var direct_client = (case direct_client of
     Inl _ \<Rightarrow> None
   | Inr client \<Rightarrow> Some (storage_build root (env_var ''TF_PLUGIN_MIRROR_DIR'') MAX_PROVIDER_ARCHIVE_BYTES client))"

definition with_bundled_mirror ::
  "(outbound_error \<Rightarrow> string) \<Rightarrow> string \<Rightarrow> string option \<Rightarrow> (outbound_error, 'c outbound_client) result \<Rightarrow>
     (storage_error, 'c provider_storage) result" where
  "with_bundled_mirror to_string root bundled direct_client =
     try_bind (map_err (\<lambda>e. StInvalidKey (to_string e)) direct_client)
       (\<lambda>client. Inr (storage_build root bundled MAX_PROVIDER_ARCHIVE_BYTES client))"

definition storage_for_tests :: "string \<Rightarrow> string option \<Rightarrow> nat \<Rightarrow> 'c outbound_client \<Rightarrow> 'c provider_storage" where
  "storage_for_tests root bundled max_archive_bytes test_client = storage_build root bundled max_archive_bytes test_client"

definition verified_entry_count :: "('u, 'z) storage_state_scheme \<Rightarrow> nat" where
  "verified_entry_count s = length (ss_verified s)"

definition active_lock_count :: "('u, 'z) storage_state_scheme \<Rightarrow> nat" where
  "active_lock_count s = length (lt_map (ss_locks s))"

definition available_download_permits :: "('u, 'z) storage_state_scheme \<Rightarrow> nat" where
  "available_download_permits s = ss_permits s"

definition initial_storage_state :: "'u metadata_state \<Rightarrow> 'u storage_state" where
  "initial_storage_state s = metadata_state.extend s
     \<lparr>ss_locks = empty_lock_table, ss_verified = [], ss_permits = MAX_CONCURRENT_DOWNLOADS\<rparr>"

subsection \<open>Keys, checksums and paths\<close>

definition storage_valid_component :: "string \<Rightarrow> bool" where
  "storage_valid_component c \<longleftrightarrow> c \<noteq> [] \<and> c \<noteq> ''.'' \<and> c \<noteq> ''..'' \<and> length c \<le> 100 \<and>
     list_all (\<lambda>b. is_ascii_alphanumeric b \<or> b = CHR ''-'' \<or> b = CHR ''_'') c"

definition valid_hostname :: "string \<Rightarrow> bool" where
  "valid_hostname h \<longleftrightarrow> h \<noteq> [] \<and> list_all storage_valid_component (split_on CHR ''.'' h)"

definition validate_key :: "'v semver_parser \<Rightarrow> archive_key \<Rightarrow> (storage_error, unit) result" where
  "validate_key semver key =
     (if \<not> valid_hostname (ak_hostname key) \<or> \<not> storage_valid_component (ak_namespace key) \<or>
         \<not> storage_valid_component (ak_provider_type key) \<or>
         list_ex (\<lambda>c. c = CHR ''/'' \<or> c = CHR 0x5C) (ak_filename key) \<or>
         is_err (parse_archive semver (ak_provider_type key) (ak_filename key))
      then Inl (StInvalidKey ''invalid path component'') else Inr ())"

definition expected_checksum :: "platform_metadata \<Rightarrow> (storage_error, string) result" where
  "expected_checksum md =
     ok_or (map_option to_ascii_lowercase (Option.bind (pm_shasum md) (\<lambda>checksum.
       if length checksum = 64 \<and> list_all is_ascii_hexdigit checksum then Some checksum else None)))
       StMissingChecksum"

definition archive_path :: "'c provider_storage \<Rightarrow> archive_key \<Rightarrow> string" where
  "archive_path st key =
     path_join (path_join (path_join (path_join (path_join (ps_root st) ''providers'') (ak_hostname key)) (ak_namespace key))
       (ak_provider_type key)) (ak_filename key)"

definition bundled_path :: "'c provider_storage \<Rightarrow> archive_key \<Rightarrow> string option" where
  "bundled_path st key = map_option (\<lambda>root.
     path_join (path_join (path_join (path_join root (ak_hostname key)) (ak_namespace key)) (ak_provider_type key)) (ak_filename key))
     (ps_bundled_mirror st)"

definition archive_temp_name :: "string \<Rightarrow> nat \<Rightarrow> nat \<Rightarrow> string" where
  "archive_temp_name filename pid sequence = ''.'' @ filename @ ''-'' @ dec_digits pid @ ''-'' @ dec_digits sequence @ ''.tmp''"

subsection \<open>Verified files\<close>

definition put_verified :: "(string, verified_file) hashmap \<Rightarrow> string \<Rightarrow> verified_file \<Rightarrow> (string, verified_file) hashmap" where
  "put_verified verified path entry =
     hm_insert path entry (if length verified \<ge> MAX_VERIFIED_ENTRIES \<and> \<not> hm_contains verified path then [] else verified)"

definition record_verified :: "string \<Rightarrow> file_identity \<Rightarrow> string \<Rightarrow> (('u, 'z) storage_state_scheme, 'e, unit) oper" where
  "record_verified path identity checksum =
     op_modify (\<lambda>s. s\<lparr>ss_verified := put_verified (ss_verified s) path \<lparr>vf_identity = identity, vf_checksum = checksum\<rparr>\<rparr>)"

definition forget_verified :: "string \<Rightarrow> (('u, 'z) storage_state_scheme, 'e, unit) oper" where
  "forget_verified path = op_modify (\<lambda>s. s\<lparr>ss_verified := hm_remove path (ss_verified s)\<rparr>)"

definition is_verified :: "string \<Rightarrow> file_identity \<Rightarrow> string \<Rightarrow> ('u, 'z) storage_state_scheme \<Rightarrow> bool" where
  "is_verified path identity expected s \<longleftrightarrow>
     (case hm_get (ss_verified s) path of None \<Rightarrow> False
      | Some entry \<Rightarrow> vf_identity entry = identity \<and> vf_checksum entry = expected)"

text \<open>One \<open>read\<close> into the buffer: at least one byte unless the file is at its end.\<close>

definition read_chunk ::
  "('u, 'c, 'v, 'h, 'y) storage_env_scheme \<Rightarrow> octet list \<Rightarrow> (('u, 'z) world_scheme, io_error, nat) oper" where
  "read_chunk env rest =
     io_op env (\<lambda>tick fs. Inr (min (Suc (env_read env tick)) (min HASH_BUFFER_BYTES (length rest)), fs))"

lemma read_chunk_bound: "read_chunk env rest s = (Inr n, s') \<Longrightarrow> n \<le> length rest"
  by (auto simp: read_chunk_def io_op_def split: option.splits)

text \<open>The loop of \<open>hash_file\<close>: the digest of what is left, or \<open>None\<close> when there is too much of it.\<close>

function hash_loop ::
  "('u, 'c, 'v, 'h, 'y) storage_env_scheme \<Rightarrow> nat \<Rightarrow> 'h \<Rightarrow> nat \<Rightarrow> octet list \<Rightarrow> ('u, 'z) world_scheme \<Rightarrow>
     (io_error, string option) result \<times> ('u, 'z) world_scheme" where
  "hash_loop env max_bytes hasher count rest s =
     (case read_chunk env rest s of
        (Inl e, s') \<Rightarrow> (Inl e, s')
      | (Inr n, s') \<Rightarrow>
          (if n = 0 then (Inr (Some (sha_hex (env_sha env) hasher)), s')
           else
             (let count' = saturating_add64 count n in
              if count' > max_bytes then (Inr None, s')
              else hash_loop env max_bytes (sha_update (env_sha env) hasher (take n rest)) count' (drop n rest) s')))"
  by pat_completeness auto
termination
  by (relation "measure (\<lambda>(env, max_bytes, hasher, count, rest, s). length rest)") (auto dest: read_chunk_bound [OF sym])

declare hash_loop.simps [simp del]

definition hash_file ::
  "('u, 'c, 'v, 'h, 'y) storage_env_scheme \<Rightarrow> string \<Rightarrow> nat \<Rightarrow>
     (('u, 'z) world_scheme, io_error, (string \<times> file_identity) option) oper" where
  "hash_file env path max_bytes =
     op_catch (open_file env path) (\<lambda>r. case r of
       Inl IoNotFound \<Rightarrow> op_ok None
     | Inl e \<Rightarrow> op_err e
     | Inr node \<Rightarrow>
         op_bind (file_step env) (\<lambda>_. case node of
           File bytes st \<Rightarrow>
             (if length bytes > max_bytes then op_ok None
              else op_bind (hash_loop env max_bytes (sha_new (env_sha env)) 0 bytes) (\<lambda>hashed.
                op_ok (map_option (\<lambda>actual. (actual, identity_of bytes st)) hashed)))
         | _ \<Rightarrow> op_ok None))"

definition archive_matches_checksum ::
  "('u, 'c, 'v, 'h, 'y) storage_env_scheme \<Rightarrow> 'c provider_storage \<Rightarrow> string \<Rightarrow> string \<Rightarrow>
     (('u, 'z) storage_state_scheme, storage_error, bool) oper" where
  "archive_matches_checksum env st path expected =
     op_catch (symlink_metadata env path) (\<lambda>r. case r of
       Inl IoNotFound \<Rightarrow> op_ok False
     | Inl e \<Rightarrow> op_err (StIo e)
     | Inr (File bytes stamp) \<Rightarrow>
         (if length bytes > ps_max_archive_bytes st then op_ok False
          else op_bind (op_get (is_verified path (identity_of bytes stamp) expected)) (\<lambda>known.
            if known then op_ok True
            else op_bind (op_map_err StIo (hash_file env path (ps_max_archive_bytes st))) (\<lambda>hashed. case hashed of
              Some (actual, identity) \<Rightarrow>
                (if actual = expected then op_bind (record_verified path identity expected) (\<lambda>_. op_ok True)
                 else op_bind (forget_verified path) (\<lambda>_. op_ok False))
            | None \<Rightarrow> op_bind (forget_verified path) (\<lambda>_. op_ok False))))
     | Inr _ \<Rightarrow> op_ok False)"

subsection \<open>Downloads\<close>

definition next_storage_sequence :: "(('u, 'z) world_scheme, 'e, nat) oper" where
  "next_storage_sequence =
     (\<lambda>s. (Inr (w_storage_sequence s), s\<lparr>w_storage_sequence := wrapping_inc64 (w_storage_sequence s)\<rparr>))"

text \<open>The permit of the semaphore, given back when the guard is dropped. A task that finds no permit waits until
  another one gives its permit back, and takes that one: when the body runs at least one was available.\<close>

definition with_permit :: "(('u, 'z) storage_state_scheme, 'e, 'a) oper \<Rightarrow> (('u, 'z) storage_state_scheme, 'e, 'a) oper" where
  "with_permit body =
     (\<lambda>s. let available = max 1 (ss_permits s) in
      case body (s\<lparr>ss_permits := available - 1\<rparr>) of (r, s') \<Rightarrow> (r, s'\<lparr>ss_permits := ss_permits s' + 1\<rparr>))"

lemma with_permit_unfold:
  "with_permit body = (\<lambda>s. case body (s\<lparr>ss_permits := ss_permits s - 1\<rparr>) of (r, s') \<Rightarrow> (r, s'\<lparr>ss_permits := ss_permits s' + 1\<rparr>))"
proof -
  have "max 1 n - 1 = n - 1" for n :: nat by (simp add: max_def)
  then show ?thesis by (simp only: with_permit_def Let_def)
qed

text \<open>An armed \<open>TempCleanup\<close> removes the file, if that is possible, when the body returns an error.\<close>

definition with_temp_cleanup ::
  "('u, 'c, 'y) env_scheme \<Rightarrow> string \<Rightarrow> (('u, 'z) world_scheme, 'e, 'a) oper \<Rightarrow> (('u, 'z) world_scheme, 'e, 'a) oper" where
  "with_temp_cleanup env temp body =
     op_catch body (\<lambda>r. case r of Inr a \<Rightarrow> op_ok a | Inl e \<Rightarrow> op_catch (remove_file env temp) (\<lambda>_. op_err e))"

fun receive ::
  "('u, 'c, 'v, 'h, 'y) storage_env_scheme \<Rightarrow> string \<Rightarrow> nat \<Rightarrow> 'h \<Rightarrow> nat \<Rightarrow> (cause list, octet list) result list \<Rightarrow>
     (('u, 'z) world_scheme, storage_error, 'h) oper" where
  "receive env temp maximum hasher count [] = op_ok hasher"
| "receive env temp maximum hasher count (Inl e # chunks) = op_err (StRequest e)"
| "receive env temp maximum hasher count (Inr chunk # chunks) =
     (let count' = saturating_add64 count (length chunk) in
      if count' > maximum then op_err StTooLarge
      else op_bind (op_map_err StIo (append_file env temp chunk)) (\<lambda>_.
        receive env temp maximum (sha_update (env_sha env) hasher chunk) count' chunks))"

text \<open>From the creation of the temporary file to its rename.\<close>

definition fetch_to ::
  "('u, 'c, 'v, 'h, 'y) storage_env_scheme \<Rightarrow> 'c provider_storage \<Rightarrow> 'u \<Rightarrow> string \<Rightarrow> string \<Rightarrow> string \<Rightarrow>
     (('u, 'z) world_scheme, storage_error, unit) oper" where
  "fetch_to env st url expected temp destination =
     op_bind (op_map_err StIo (create_new_file env temp)) (\<lambda>_.
     op_bind (op_map_err StOutbound (http_get env (ps_outbound st) url (15 * 60))) (\<lambda>response.
     op_bind (op_result (map_err StRequest (error_for_status response))) (\<lambda>response.
       if (case resp_content_length response of None \<Rightarrow> False | Some l \<Rightarrow> l > ps_max_archive_bytes st) then op_err StTooLarge
       else
         op_bind (receive env temp (ps_max_archive_bytes st) (sha_new (env_sha env)) 0 (resp_chunks response)) (\<lambda>hasher.
           let actual = sha_hex (env_sha env) hasher in
           if actual \<noteq> expected then op_err (StChecksumMismatch expected actual)
           else
             op_bind (op_map_err StIo (file_step env)) (\<lambda>_.
             op_map_err StIo (rename_file env temp destination))))))"

definition record_downloaded ::
  "('u, 'c, 'v, 'h, 'y) storage_env_scheme \<Rightarrow> string \<Rightarrow> string \<Rightarrow> (('u, 'z) storage_state_scheme, storage_error, unit) oper" where
  "record_downloaded env destination expected =
     op_catch (symlink_metadata env destination) (\<lambda>r. case r of
       Inr (File bytes stamp) \<Rightarrow> record_verified destination (identity_of bytes stamp) expected
     | _ \<Rightarrow> op_ok ())"

definition download_with_permit ::
  "('u, 'c, 'v, 'h, 'y) storage_env_scheme \<Rightarrow> 'c provider_storage \<Rightarrow> archive_key \<Rightarrow> 'u \<Rightarrow> string \<Rightarrow> string \<Rightarrow>
     (('u, 'z) storage_state_scheme, storage_error, unit) oper" where
  "download_with_permit env st key url expected destination =
     (let parent = path_parent destination in
      op_bind (op_map_err StIo (create_dir_all env parent)) (\<lambda>_.
      op_bind next_storage_sequence (\<lambda>sequence.
        let temp = path_join parent (archive_temp_name (ak_filename key) (env_pid env) sequence) in
        op_bind (with_temp_cleanup env temp (fetch_to env st url expected temp destination)) (\<lambda>_.
        op_bind (op_map_err StIo (sync_parent env parent)) (\<lambda>_.
        record_downloaded env destination expected)))))"

definition download ::
  "('u, 'c, 'v, 'h, 'y) storage_env_scheme \<Rightarrow> 'c provider_storage \<Rightarrow> archive_key \<Rightarrow> platform_metadata \<Rightarrow> string \<Rightarrow> string \<Rightarrow>
     (('u, 'z) storage_state_scheme, storage_error, unit) oper" where
  "download env st key md expected destination =
     op_bind (op_result (map_err (\<lambda>_. StInvalidKey ''download URL'') (url_parse (env_url env) (pm_download_url md)))) (\<lambda>url.
     with_permit (download_with_permit env st key url expected destination))"

subsection \<open>Loading\<close>

definition with_archive_lock ::
  "archive_key \<Rightarrow> (('u, 'z) storage_state_scheme, 'e, 'a) oper \<Rightarrow> (('u, 'z) storage_state_scheme, 'e, 'a) oper" where
  "with_archive_lock key body =
     (\<lambda>s. case lock_for (ss_locks s) key of (m, table) \<Rightarrow>
        (case body (s\<lparr>ss_locks := table\<rparr>) of (r, s') \<Rightarrow> (r, s'\<lparr>ss_locks := drop_lock (ss_locks s') key m\<rparr>)))"

text \<open>The bundled archive, else the cached one, if it has the checksum.\<close>

definition cached_archive ::
  "('u, 'c, 'v, 'h, 'y) storage_env_scheme \<Rightarrow> 'c provider_storage \<Rightarrow> archive_key \<Rightarrow> string \<Rightarrow> string \<Rightarrow>
     (('u, 'z) storage_state_scheme, storage_error, string option) oper" where
  "cached_archive env st key expected destination =
     op_bind (case bundled_path st key of
         None \<Rightarrow> op_ok None
       | Some path \<Rightarrow> op_bind (archive_matches_checksum env st path expected) (\<lambda>matches. op_ok (if matches then Some path else None)))
       (\<lambda>bundled. case bundled of
         Some path \<Rightarrow> op_ok (Some path)
       | None \<Rightarrow> op_bind (archive_matches_checksum env st destination expected) (\<lambda>matches.
           op_ok (if matches then Some destination else None)))"

definition locked_load_or_fetch ::
  "('u, 'c, 'v, 'h, 'y) storage_env_scheme \<Rightarrow> 'c provider_storage \<Rightarrow> archive_key \<Rightarrow> platform_metadata \<Rightarrow> string \<Rightarrow> string \<Rightarrow>
     (('u, 'z) storage_state_scheme, storage_error, string) oper" where
  "locked_load_or_fetch env st key md expected destination =
     with_archive_lock key (
       op_bind (cached_archive env st key expected destination) (\<lambda>hit. case hit of
         Some path \<Rightarrow> op_ok path
       | None \<Rightarrow> op_bind (download env st key md expected destination) (\<lambda>_. op_ok destination)))"

definition load_or_fetch ::
  "('u, 'c, 'v, 'h, 'y) storage_env_scheme \<Rightarrow> 'c provider_storage \<Rightarrow> archive_key \<Rightarrow> platform_metadata \<Rightarrow>
     (('u, 'z) storage_state_scheme, storage_error, string) oper" where
  "load_or_fetch env st key md =
     op_bind (op_result (validate_key (sv_parse (env_semver env)) key)) (\<lambda>_.
       if pm_filename md \<noteq> ak_filename key then op_err (StInvalidKey ''metadata filename does not match request'')
       else
         op_bind (op_result (expected_checksum md)) (\<lambda>expected.
         op_bind (cached_archive env st key expected (archive_path st key)) (\<lambda>hit. case hit of
           Some path \<Rightarrow> op_ok path
         | None \<Rightarrow> locked_load_or_fetch env st key md expected (archive_path st key))))"

end
