(* ===== verification/Archive_Effects.thy ===== *)
theory Archive_Effects
  imports Archive_Storage
begin

text \<open>
  The effects of the operations of the archive cache: what a look at the cache and a download do to
  the file system, to the table of verified files and to the rest of the state, whatever their outcome.
\<close>

section \<open>The parameters\<close>

text \<open>Documented behaviour of \<^verbatim>\<open>sha2\<close>: the digest of a stream is the digest of its concatenation.\<close>

definition sha_laws :: "'h sha_api \<Rightarrow> (octet list \<Rightarrow> string) \<Rightarrow> bool" where
  "sha_laws sha digest \<longleftrightarrow> (\<forall>chunks. sha_hex sha (foldl (sha_update sha) (sha_new sha) chunks) = digest (concat chunks))"

text \<open>What the code assumes of the file system: the identity of a file determines its contents.\<close>

definition fs_faithful :: "(file_identity \<Rightarrow> octet list) \<Rightarrow> file_system \<Rightarrow> bool" where
  "fs_faithful contents fs \<longleftrightarrow> (\<forall>p bytes st. fs p = Some (File bytes st) \<longrightarrow> contents (identity_of bytes st) = bytes)"

section \<open>The table of verified files\<close>

interpretation verified: bounded_table put_verified id map_of length hm_wf MAX_VERIFIED_ENTRIES
proof
  fix t :: "(string, verified_file) hashmap" and k k' x
  assume wf: "hm_wf t"
  show "hm_wf (put_verified t k x)" using wf by (simp add: put_verified_def)
  show "hm_get (put_verified t k x) k = Some (id x)" by (simp add: put_verified_def hm_insert_get)
  show "k' \<noteq> k \<Longrightarrow> hm_get (put_verified t k x) k' \<in> {hm_get t k', None}" by (simp add: put_verified_def hm_insert_get)
  show "length t \<le> MAX_VERIFIED_ENTRIES \<Longrightarrow> length (put_verified t k x) \<le> MAX_VERIFIED_ENTRIES"
    by (auto simp: put_verified_def length_hm_insert hm_contains_def MAX_VERIFIED_ENTRIES_def)
qed

text \<open>Every entry of the table tells the digest of the contents its identity stands for.\<close>

definition verified_ok ::
  "(octet list \<Rightarrow> string) \<Rightarrow> (file_identity \<Rightarrow> octet list) \<Rightarrow> (string, verified_file) hashmap \<Rightarrow> bool" where
  "verified_ok digest contents verified \<longleftrightarrow>
     hm_wf verified \<and> length verified \<le> MAX_VERIFIED_ENTRIES \<and>
     (\<forall>path entry. hm_get verified path = Some entry \<longrightarrow> digest (contents (vf_identity entry)) = vf_checksum entry)"

lemma verified_ok_empty [simp]: "verified_ok digest contents []"
  by (simp add: verified_ok_def)

lemma verified_okD:
  "verified_ok digest contents verified \<Longrightarrow> hm_get verified path = Some entry \<Longrightarrow> digest (contents (vf_identity entry)) = vf_checksum entry"
  by (simp add: verified_ok_def)

lemma verified_ok_put:
  assumes "verified_ok digest contents verified" "digest (contents (vf_identity entry)) = vf_checksum entry"
  shows "verified_ok digest contents (put_verified verified path entry)"
proof -
  have wf: "hm_wf verified" and len: "length verified \<le> MAX_VERIFIED_ENTRIES" using assms(1) by (simp_all add: verified_ok_def)
  have "digest (contents (vf_identity e)) = vf_checksum e" if "hm_get (put_verified verified path entry) p = Some e" for p e
    using that assms verified.record_other [OF wf, of p path entry] verified.record_lookup [OF wf, of path entry]
    by (cases "p = path") (auto simp: verified_ok_def)
  then show ?thesis using verified.record_wf [OF wf] verified.record_bound [OF wf len] by (simp add: verified_ok_def)
qed

lemma verified_ok_remove: "verified_ok digest contents verified \<Longrightarrow> verified_ok digest contents (hm_remove path verified)"
  using length_hm_remove_le [of path verified] by (auto simp: verified_ok_def hm_remove_get split: if_splits)

section \<open>Hashing\<close>

lemma io_op_tick:
  "io_op env (\<lambda>tick fs. Inr (f tick, fs)) s = (r, s') \<Longrightarrow> s' = s\<lparr>w_tick := Suc (w_tick s)\<rparr>"
  by (auto simp: io_op_def split: option.splits)

lemma read_only_tick:
  assumes "\<And>tick fs a fs'. act tick fs = Inr (a, fs') \<Longrightarrow> fs' = fs" and "io_op env act s = (r, s')"
  shows "s' = s\<lparr>w_tick := Suc (w_tick s)\<rparr>"
  using assms(2) by (auto simp: io_op_def split: option.splits sum.splits dest!: assms(1))

lemma fs_resolve_exists: "fs_resolve n fs p = Inr q \<Longrightarrow> fs q \<noteq> None"
  by (induction n fs p rule: fs_resolve.induct) (subst (asm) fs_resolve.simps, auto split: option.splits node.splits nat.splits)

lemma fs_resolve_file: "fs p = Some (File bytes st) \<Longrightarrow> fs_resolve n fs p = Inr p"
  by (simp add: fs_resolve.simps)

lemma hash_loop_spec:
  "hash_loop env max_bytes hasher count rest s = (r, s') \<Longrightarrow>
     (\<exists>n. s' = s\<lparr>w_tick := n\<rparr>) \<and>
     (\<forall>d. r = Inr (Some d) \<longrightarrow>
        (\<exists>chunks. concat chunks = rest \<and> d = sha_hex (env_sha env) (foldl (sha_update (env_sha env)) hasher chunks)))"
proof (induction env max_bytes hasher count rest s arbitrary: r s' rule: hash_loop.induct)
  case (1 env max_bytes hasher count rest s)
  obtain r1 s1 where read: "read_chunk env rest s = (r1, s1)" by fastforce
  then have tick: "s1 = s\<lparr>w_tick := Suc (w_tick s)\<rparr>" unfolding read_chunk_def by (rule io_op_tick)
  show ?case
  proof (cases r1)
    case (Inl e)
    then show ?thesis using "1.prems" read tick by (auto simp: hash_loop.simps [of env max_bytes hasher count rest s])
  next
    case (Inr n)
    note run = "1.prems" [unfolded hash_loop.simps [of env max_bytes hasher count rest s] read Inr prod.case sum.case Let_def]
    have "rest = []" if "n = 0"
      using read Inr that by (auto simp: read_chunk_def io_op_def HASH_BUFFER_BYTES_def min_def split: option.splits if_splits)
    then show ?thesis
    proof (cases "n = 0 \<or> max_bytes < saturating_add64 count n")
      case True
      with run tick \<open>n = 0 \<Longrightarrow> rest = []\<close> show ?thesis by (auto intro: exI [of _ "[]"] split: if_splits)
    next
      case False
      with run have rec: "hash_loop env max_bytes (sha_update (env_sha env) hasher (take n rest)) (saturating_add64 count n)
          (drop n rest) s1 = (r, s')" by simp
      from "1.IH" [OF read [symmetric] Inr _ refl _ rec] False
      obtain m where ticks: "s' = s1\<lparr>w_tick := m\<rparr>"
        and digest: "\<And>d. r = Inr (Some d) \<Longrightarrow> \<exists>chunks. concat chunks = drop n rest \<and>
          d = sha_hex (env_sha env) (foldl (sha_update (env_sha env)) (sha_update (env_sha env) hasher (take n rest)) chunks)"
        by auto
      have "\<exists>chunks. concat chunks = rest \<and> d = sha_hex (env_sha env) (foldl (sha_update (env_sha env)) hasher chunks)"
        if "r = Inr (Some d)" for d
      proof -
        obtain chunks where "concat chunks = drop n rest"
          "d = sha_hex (env_sha env) (foldl (sha_update (env_sha env)) (sha_update (env_sha env) hasher (take n rest)) chunks)"
          using digest [OF \<open>r = Inr (Some d)\<close>] by blast
        then show ?thesis by (intro exI [of _ "take n rest # chunks"]) simp
      qed
      then show ?thesis using ticks tick by auto
    qed
  qed
qed

lemma hash_file_spec:
  assumes "hash_file env path max_bytes s = (r, s')" and "sha_laws (env_sha env) digest"
  shows "(\<exists>n. s' = s\<lparr>w_tick := n\<rparr>) \<and> (\<forall>d identity. r = Inr (Some (d, identity)) \<longrightarrow>
       (\<exists>q bytes st. fs_resolve 40 (w_fs s) path = Inr q \<and> w_fs s q = Some (File bytes st) \<and>
         length bytes \<le> max_bytes \<and> d = digest bytes \<and> identity = identity_of bytes st))"
proof -
  obtain r1 s1 where opened: "open_file env path s = (r1, s1)" by fastforce
  then have tick: "s1 = s\<lparr>w_tick := Suc (w_tick s)\<rparr>"
    unfolding open_file_def by (rule read_only_tick [rotated]) (auto split: sum.splits)
  show ?thesis
  proof (cases r1)
    case (Inl e)
    then show ?thesis using assms(1) opened tick by (auto simp: hash_file_def op_defs split: io_error.splits)
  next
    case (Inr node)
    then obtain q where q: "fs_resolve 40 (w_fs s) path = Inr q" "node = the (w_fs s q)"
      using opened by (auto simp: open_file_def io_op_def split: option.splits sum.splits)
    have there: "w_fs s q \<noteq> None" using q(1) by (rule fs_resolve_exists)
    obtain r2 s2 where step: "file_step env s1 = (r2, s2)" by fastforce
    then have tick2: "s2 = s1\<lparr>w_tick := Suc (w_tick s1)\<rparr>" unfolding file_step_def by (rule io_op_tick)
    note run = assms(1) [unfolded hash_file_def op_run(4) [of "open_file env path", OF opened] Inr sum.case]
    show ?thesis
    proof (cases "\<exists>bytes st u. r2 = Inr u \<and> node = File bytes st \<and> length bytes \<le> max_bytes")
      case False
      then show ?thesis using run step tick tick2
        by (cases r2; cases node) (auto simp: op_bind_def op_ok_def split: if_splits)
    next
      case True
      then obtain bytes st where node: "node = File bytes st" "length bytes \<le> max_bytes" and r2: "r2 = Inr ()" by auto
      obtain r3 s3 where loop: "hash_loop env max_bytes (sha_new (env_sha env)) 0 bytes s2 = (r3, s3)" by fastforce
      have end_: "s' = s3" "r = map_sum id (map_option (\<lambda>actual. (actual, identity_of bytes st))) r3"
        using run node r2 op_run(1) [of "file_step env" s1 "()" s2] step loop
        by (cases r3; auto simp: op_bind_def op_ok_def split: if_splits)+
      from hash_loop_spec [OF loop] obtain n where n: "s3 = s2\<lparr>w_tick := n\<rparr>"
        and d: "\<And>d. r3 = Inr (Some d) \<Longrightarrow> d = digest bytes" using assms(2) by (auto simp: sha_laws_def)
      have "w_fs s q = Some (File bytes st)" using there q(2) node by auto
      with q(1) node(2) d end_(2) have "\<forall>d identity. r = Inr (Some (d, identity)) \<longrightarrow>
         (\<exists>q bytes st. fs_resolve 40 (w_fs s) path = Inr q \<and> w_fs s q = Some (File bytes st) \<and>
           length bytes \<le> max_bytes \<and> d = digest bytes \<and> identity = identity_of bytes st)"
        by (cases r3) auto
      then show ?thesis using end_(1) n tick tick2 by auto
    qed
  qed
qed

section \<open>Cached archives\<close>

text \<open>At the path is a regular file of at most the maximal size that has the digest.\<close>

definition sound_file :: "(octet list \<Rightarrow> string) \<Rightarrow> nat \<Rightarrow> string \<Rightarrow> file_system \<Rightarrow> string \<Rightarrow> bool" where
  "sound_file digest max_bytes expected fs path \<longleftrightarrow>
     (\<exists>bytes st. fs path = Some (File bytes st) \<and> digest bytes = expected \<and> length bytes \<le> max_bytes)"

text \<open>A look at the cache changes the clock and the verified files and nothing else.\<close>

definition cache_read ::
  "(octet list \<Rightarrow> string) \<Rightarrow> (file_identity \<Rightarrow> octet list) \<Rightarrow> ('u, 'z) storage_state_scheme \<Rightarrow> ('u, 'z) storage_state_scheme \<Rightarrow> bool" where
  "cache_read digest contents s s' \<longleftrightarrow>
     (\<exists>n verified. s' = s\<lparr>w_tick := n, ss_verified := verified\<rparr> \<and>
        (fs_faithful contents (w_fs s) \<and> verified_ok digest contents (ss_verified s) \<longrightarrow> verified_ok digest contents verified))"

interpretation cache_read: state_preorder "cache_read digest contents"
proof
  fix s t u :: "('u, 'z) storage_state_scheme"
  show "cache_read digest contents s s"
    by (auto simp: cache_read_def intro!: exI [of _ "w_tick s"] exI [of _ "ss_verified s"])
  assume "cache_read digest contents s t" "cache_read digest contents t u"
  then show "cache_read digest contents s u" by (fastforce simp: cache_read_def)
qed

lemma cache_read_tick: "cache_read digest contents s (s\<lparr>w_tick := n\<rparr>)"
  by (auto simp: cache_read_def intro!: exI [of _ "ss_verified s"])

lemma cache_read_forget: "cache_read digest contents s (s\<lparr>ss_verified := hm_remove path (ss_verified s)\<rparr>)"
  by (auto simp: cache_read_def intro!: exI [of _ "w_tick s"] exI [of _ "hm_remove path (ss_verified s)"] intro: verified_ok_remove)

lemma cache_read_record:
  assumes "w_fs s path = Some (File bytes stamp)" "digest bytes = expected"
  shows "cache_read digest contents s (s\<lparr>ss_verified := put_verified (ss_verified s) path
    \<lparr>vf_identity = identity_of bytes stamp, vf_checksum = expected\<rparr>\<rparr>)"
proof -
  have "digest (contents (identity_of bytes stamp)) = expected" if "fs_faithful contents (w_fs s)"
    using that assms by (auto simp: fs_faithful_def)
  then show ?thesis unfolding cache_read_def
    by (intro exI [of _ "w_tick s"] exI conjI impI) (auto intro: verified_ok_put)
qed

lemma archive_matches_run:
  fixes s :: "('u, 'z) storage_state_scheme"
  assumes run: "archive_matches_checksum env st path expected s = (r, s')" and sha: "sha_laws (env_sha env) digest"
  shows "cache_read digest contents s s' \<and>
    (r = Inr True \<and> fs_faithful contents (w_fs s) \<and> verified_ok digest contents (ss_verified s) \<longrightarrow>
       sound_file digest (ps_max_archive_bytes st) expected (w_fs s) path)"
proof -
  obtain r1 s1 where look: "symlink_metadata env path s = (r1, s1)" by fastforce
  then have tick: "s1 = s\<lparr>w_tick := Suc (w_tick s)\<rparr>"
    unfolding symlink_metadata_def by (rule read_only_tick [rotated]) (auto split: option.splits)
  note run = run [unfolded archive_matches_checksum_def op_run(4) [of "symlink_metadata env path", OF look]]
  show ?thesis
  proof (cases "\<exists>bytes st'. r1 = Inr (File bytes st') \<and> length bytes \<le> ps_max_archive_bytes st")
    case False
    then have "s' = s1 \<and> r \<noteq> Inr True"
      using run by (auto simp: op_defs split: sum.splits io_error.splits node.splits if_splits)
    then show ?thesis using tick cache_read_tick by auto
  next
    case True
    then obtain bytes stamp where r1: "r1 = Inr (File bytes stamp)" and len: "length bytes \<le> ps_max_archive_bytes st" by blast
    then have there: "w_fs s path = Some (File bytes stamp)"
      using look by (auto simp: symlink_metadata_def io_op_def split: option.splits)
    note run = run [unfolded r1 sum.case node.case]
    show ?thesis
    proof (cases "is_verified path (identity_of bytes stamp) expected s1")
      case True
      then have "s' = s1" "r = Inr True" using run len by (auto simp: op_defs)
      moreover have "digest (contents (identity_of bytes stamp)) = expected" if "verified_ok digest contents (ss_verified s)"
        using True tick verified_okD [OF that, of path] by (cases "hm_get (ss_verified s) path") (auto simp: is_verified_def)
      ultimately show ?thesis using there len cache_read_tick [of digest contents s] tick
        by (auto simp: fs_faithful_def sound_file_def)
    next
      case False
      obtain r2 s2 where hash: "hash_file env path (ps_max_archive_bytes st) s1 = (r2, s2)" by fastforce
      from hash_file_spec [OF hash sha] obtain n where n: "s2 = s1\<lparr>w_tick := n\<rparr>"
        and d: "\<And>d identity. r2 = Inr (Some (d, identity)) \<Longrightarrow> d = digest bytes \<and> identity = identity_of bytes stamp"
        using fs_resolve_file [of "w_fs s", OF there] there tick by auto
      have "cache_read digest contents s s2" using n tick cache_read_tick by auto
      moreover have "(s' = s2 \<and> r \<noteq> Inr True) \<or> (s' = s2\<lparr>ss_verified := hm_remove path (ss_verified s2)\<rparr> \<and> r = Inr False) \<or>
          (s' = s2\<lparr>ss_verified := put_verified (ss_verified s2) path \<lparr>vf_identity = identity_of bytes stamp, vf_checksum = expected\<rparr>\<rparr> \<and>
           digest bytes = expected)"
      proof (cases r2)
        case (Inl e)
        then show ?thesis using run False len hash by (auto simp: op_defs)
      next
        case (Inr hashed)
        then show ?thesis using run False len hash d
          by (cases hashed) (auto simp: op_bind_def op_map_err_def op_get_def op_ok_def op_modify_def record_verified_def
              forget_verified_def split: if_splits)
      qed
      moreover have "w_fs s2 path = Some (File bytes stamp)" using there n tick by simp
      ultimately have "cache_read digest contents s s'" "r = Inr True \<longrightarrow> digest bytes = expected"
        using cache_read.trans [of digest contents s s2 s'] cache_read_forget cache_read_record by blast+
      then show ?thesis using there len by (auto simp: sound_file_def)
    qed
  qed
qed

lemma cached_archive_run:
  assumes "cached_archive env st key expected destination s = (r, s')" and "sha_laws (env_sha env) digest"
  shows "cache_read digest contents s s' \<and>
    (\<forall>path. r = Inr (Some path) \<and> fs_faithful contents (w_fs s) \<and> verified_ok digest contents (ss_verified s) \<longrightarrow>
       (path = destination \<or> bundled_path st key = Some path) \<and>
       sound_file digest (ps_max_archive_bytes st) expected (w_fs s) path)"
proof (cases "bundled_path st key")
  case None
  obtain r1 s1 where look: "archive_matches_checksum env st destination expected s = (r1, s1)" by fastforce
  show ?thesis using assms(1) None look archive_matches_run [OF look assms(2), of contents]
    by (cases r1) (auto simp: cached_archive_def op_bind_def op_ok_def split: if_splits)
next
  case (Some path)
  obtain r1 s1 where first: "archive_matches_checksum env st path expected s = (r1, s1)" by fastforce
  note spec1 = archive_matches_run [OF first assms(2), of contents]
  show ?thesis
  proof (cases "r1 = Inr False")
    case False
    then show ?thesis using assms(1) Some first spec1
      by (cases r1) (auto simp: cached_archive_def op_bind_def op_ok_def)
  next
    case True
    obtain r2 s2 where second: "archive_matches_checksum env st destination expected s1 = (r2, s2)" by fastforce
    note spec2 = archive_matches_run [OF second assms(2), of contents]
    have "s' = s2" "r = map_sum id (\<lambda>matches. if matches then Some destination else None) r2"
      using assms(1) Some first second True
      by (cases r2; auto simp: cached_archive_def op_bind_def op_ok_def)+
    moreover have "fs_faithful contents (w_fs s1)" "verified_ok digest contents (ss_verified s1)" "w_fs s1 = w_fs s"
      if "fs_faithful contents (w_fs s)" "verified_ok digest contents (ss_verified s)"
      using spec1 that by (auto simp: cache_read_def)
    ultimately show ?thesis using spec1 spec2 cache_read.trans [of digest contents s s1 s2]
      by (cases r2) (auto split: if_splits)
  qed
qed

section \<open>Downloads\<close>

text \<open>What a download may leave behind at a path other than the temporary one: what was there, a directory
  that was missing, or, at the destination, a file of the right checksum and size.\<close>

definition published ::
  "(octet list \<Rightarrow> string) \<Rightarrow> nat \<Rightarrow> string \<Rightarrow> file_system \<Rightarrow> string \<Rightarrow> string \<Rightarrow> file_system \<Rightarrow> bool" where
  "published digest max_bytes expected fs0 destination temp fs \<longleftrightarrow>
     (\<forall>p. p \<noteq> temp \<longrightarrow> fs p = fs0 p \<or> fs0 p = None \<and> fs p = Some Directory \<or>
        p = destination \<and> sound_file digest max_bytes expected fs p)"

lemma published_refl: "published digest max_bytes expected fs destination temp fs"
  by (simp add: published_def)

lemma published_temp [simp]:
  "published digest max_bytes expected fs0 destination temp (fs(temp := x)) = published digest max_bytes expected fs0 destination temp fs"
  "published digest max_bytes expected fs0 destination temp (\<lambda>p. if p = temp then x else fs p) =
     published digest max_bytes expected fs0 destination temp fs"
  by (auto simp: published_def sound_file_def)

lemma published_rename:
  "published digest max_bytes expected fs0 destination temp fs \<Longrightarrow> digest bytes = expected \<Longrightarrow> length bytes \<le> max_bytes \<Longrightarrow>
     published digest max_bytes expected fs0 destination temp ((fs(temp := None))(destination \<mapsto> File bytes st))"
  unfolding published_def sound_file_def by simp blast

lemma create_dir_all_published:
  "triple (\<lambda>s. w_fs s = fs0) (create_dir_all env parent)
     (\<lambda>_ s. published digest max_bytes expected fs0 destination temp (w_fs s)) (\<lambda>_ s. w_fs s = fs0)"
  unfolding create_dir_all_def
  by (rule triple_pre [OF io_op_triple]) (auto simp: published_def split: if_splits)

lemma append_file_triple:
  assumes "\<And>fs x. P (fs(temp := x)) = P fs"
  shows "triple (\<lambda>s. P (w_fs s) \<and> temp_file old temp (w_fs s)) (append_file env temp bytes)
     (\<lambda>_ s. P (w_fs s) \<and> temp_file (old @ bytes) temp (w_fs s)) (\<lambda>_ s. P (w_fs s) \<and> temp_file old temp (w_fs s))"
  unfolding append_file_def
  by (rule triple_pre [OF io_op_triple [where P = "\<lambda>fs. P fs \<and> temp_file old temp fs"]]) (use assms in auto)

text \<open>The chunks received are appended to the temporary file and fed to the hasher.\<close>

lemma receive_triple:
  fixes env :: "('u, 'c, 'v, 'h, 'y) storage_env_scheme"
  assumes "max_bytes < 2 ^ 64 - 1" and "\<And>fs x. P (fs(temp := x)) = P fs"
  shows "count = length old \<Longrightarrow> length old \<le> max_bytes \<Longrightarrow>
    triple (\<lambda>s. P (w_fs s) \<and> temp_file old temp (w_fs s))
      (receive env temp max_bytes hasher count chunks :: (('u, 'z) world_scheme, storage_error, 'h) oper)
      (\<lambda>h s. P (w_fs s) \<and> (\<exists>parts. temp_file (old @ concat parts) temp (w_fs s) \<and> length (old @ concat parts) \<le> max_bytes \<and>
         h = foldl (sha_update (env_sha env)) hasher parts))
      (\<lambda>_ s. P (w_fs s))"
proof (induction chunks arbitrary: hasher count old)
  case Nil
  then show ?case
    by (auto simp: triple_def op_ok_def intro!: exI [of _ "[]"])
next
  case (Cons chunk chunks)
  show ?case
  proof (cases chunk)
    case (Inl e)
    then show ?thesis by (simp add: triple_def op_err_def)
  next
    case (Inr bytes)
    show ?thesis
    proof (cases "saturating_add64 count (length bytes) > max_bytes")
      case True
      then show ?thesis using Inr by (simp add: triple_def op_err_def)
    next
      case False
      then have count: "saturating_add64 count (length bytes) = length (old @ bytes)" "length (old @ bytes) \<le> max_bytes"
        using assms(1) Cons.prems by (auto simp: saturating_add64_def min_def split: if_splits)
      have append: "triple (\<lambda>s. P (w_fs s) \<and> temp_file old temp (w_fs s))
         (op_map_err StIo (append_file env temp bytes) :: (('u, 'z) world_scheme, _, _) oper)
         (\<lambda>_ s. P (w_fs s) \<and> temp_file (old @ bytes) temp (w_fs s)) (\<lambda>_ s. P (w_fs s))"
        by (rule triple_map_err, rule triple_weaken [OF append_file_triple [OF assms(2)]]) auto
      have parts: "\<exists>parts. temp_file (old @ concat parts) temp fs \<and> length (old @ concat parts) \<le> max_bytes \<and>
            h = foldl (sha_update (env_sha env)) hasher parts"
        if "\<exists>parts. temp_file ((old @ bytes) @ concat parts) temp fs \<and> length ((old @ bytes) @ concat parts) \<le> max_bytes \<and>
            h = foldl (sha_update (env_sha env)) (sha_update (env_sha env) hasher bytes) parts" for fs h
      proof -
        from that obtain ps where "temp_file ((old @ bytes) @ concat ps) temp fs" "length ((old @ bytes) @ concat ps) \<le> max_bytes"
          "h = foldl (sha_update (env_sha env)) (sha_update (env_sha env) hasher bytes) ps" by blast
        then show ?thesis by (intro exI [of _ "bytes # ps"]) simp
      qed
      have "(receive env temp max_bytes hasher count (chunk # chunks) :: (('u, 'z) world_scheme, _, _) oper) = op_bind (op_map_err StIo (append_file env temp bytes))
          (\<lambda>_. receive env temp max_bytes (sha_update (env_sha env) hasher bytes) (saturating_add64 count (length bytes)) chunks)"
        using Inr False by simp
      then show ?thesis
        by (simp only:) (rule triple_weaken [OF triple_bind [OF append Cons.IH [OF count]]], assumption,
            elim conjE, intro conjI, assumption, rule parts, assumption, assumption)
    qed
  qed
qed

lemma http_get_fs: "triple (\<lambda>s. I (w_fs s)) (http_get env client url timeout) (\<lambda>_ s. I (w_fs s)) (\<lambda>_ s. I (w_fs s))"
  by (auto simp: triple_iff http_get_def split: prod.splits sum.splits)

lemma file_step_fs: "triple (\<lambda>s. I (w_fs s)) (file_step env) (\<lambda>_ s. I (w_fs s)) (\<lambda>_ s. I (w_fs s))"
  unfolding file_step_def by (rule triple_pre [OF io_op_triple]) auto

lemma triple_if: "triple P f Q R \<Longrightarrow> triple P g Q R \<Longrightarrow> triple P (if b then f else g) Q R"
  by simp

lemma triple_impossible: "(\<And>s. \<not> P s) \<Longrightarrow> triple P f Q R"
  by (simp add: triple_def)

lemma fetch_to_triple:
  assumes sha: "sha_laws (env_sha env) digest" and bound: "ps_max_archive_bytes st < 2 ^ 64 - 1" and ne: "destination \<noteq> temp"
    and P: "P = published digest (ps_max_archive_bytes st) expected fs0 destination temp"
  shows "triple (\<lambda>s. P (w_fs s)) (fetch_to env st url expected temp destination)
     (\<lambda>_ s. P (w_fs s) \<and> sound_file digest (ps_max_archive_bytes st) expected (w_fs s) destination \<and> w_fs s temp = None)
     (\<lambda>_ s. P (w_fs s))"
proof -
  have upd: "P (fs(temp := x)) = P fs" for fs x by (simp add: P)
  let ?body = "\<lambda>bytes s. P (w_fs s) \<and> temp_file bytes temp (w_fs s)"
  let ?good = "\<lambda>s. P (w_fs s) \<and> (\<exists>bytes. temp_file bytes temp (w_fs s) \<and> length bytes \<le> ps_max_archive_bytes st \<and> digest bytes = expected)"
  have create: "triple (\<lambda>s. P (w_fs s)) (op_map_err StIo (create_new_file env temp)) (\<lambda>_. ?body []) (\<lambda>_ s. P (w_fs s))"
    unfolding create_new_file_def
    by (rule triple_map_err, rule triple_pre [OF io_op_triple]) (auto simp: upd split: if_splits)
  have request: "triple (?body []) (op_map_err StOutbound (http_get env (ps_outbound st) url (15 * 60))) (\<lambda>_. ?body []) (\<lambda>_ s. P (w_fs s))"
    by (rule triple_map_err, rule triple_weaken [OF http_get_fs [of "\<lambda>fs. P fs \<and> temp_file [] temp fs"]]) auto
  have status: "triple (?body []) (op_result res) (\<lambda>_. ?body []) (\<lambda>_ s. P (w_fs s))" for res
    by (rule triple_pre [OF triple_result]) (auto split: sum.splits)
  have receive: "triple (?body []) (receive env temp (ps_max_archive_bytes st) (sha_new (env_sha env)) 0 chunks)
     (\<lambda>h s. P (w_fs s) \<and> (\<exists>bytes. temp_file bytes temp (w_fs s) \<and> length bytes \<le> ps_max_archive_bytes st \<and>
        sha_hex (env_sha env) h = digest bytes)) (\<lambda>_ s. P (w_fs s))" for chunks
    using sha unfolding sha_laws_def
    by (intro triple_weaken [OF receive_triple [OF bound upd, of 0 "[]"]]) auto
  have sync: "triple ?good (op_map_err StIo (file_step env)) (\<lambda>_. ?good) (\<lambda>_ s. P (w_fs s))"
    by (rule triple_map_err, rule triple_weaken [OF file_step_fs [of "\<lambda>fs. P fs \<and> (\<exists>bytes. temp_file bytes temp fs \<and>
        length bytes \<le> ps_max_archive_bytes st \<and> digest bytes = expected)"]]) auto
  have rename: "triple ?good (op_map_err StIo (rename_file env temp destination))
     (\<lambda>_ s. P (w_fs s) \<and> sound_file digest (ps_max_archive_bytes st) expected (w_fs s) destination \<and> w_fs s temp = None) (\<lambda>_ s. P (w_fs s))"
    unfolding rename_file_def
    by (rule triple_map_err, rule triple_pre [OF io_op_triple [where P = P]])
      (use ne in \<open>auto simp: P sound_file_def intro: published_rename split: if_splits option.splits\<close>)
  have publish: "triple (\<lambda>s. P (w_fs s) \<and> (\<exists>bytes. temp_file bytes temp (w_fs s) \<and> length bytes \<le> ps_max_archive_bytes st \<and>
        sha_hex (env_sha env) h = digest bytes))
     (let actual = sha_hex (env_sha env) h in
      if actual \<noteq> expected then op_err (StChecksumMismatch expected actual)
      else op_bind (op_map_err StIo (file_step env)) (\<lambda>_. op_map_err StIo (rename_file env temp destination)))
     (\<lambda>_ s. P (w_fs s) \<and> sound_file digest (ps_max_archive_bytes st) expected (w_fs s) destination \<and> w_fs s temp = None)
     (\<lambda>_ s. P (w_fs s))" for h
  proof (cases "sha_hex (env_sha env) h = expected")
    case True
    then show ?thesis by (simp add: Let_def) (rule triple_pre [OF triple_bind [OF sync rename]], auto)
  next
    case False
    then show ?thesis by (auto simp: triple_def op_err_def)
  qed
  have refuse: "triple (?body []) (op_err StTooLarge) Q (\<lambda>_ s. P (w_fs s))" for Q
    by (rule triple_pre [OF triple_err]) simp
  show ?thesis
    unfolding fetch_to_def
    by (rule triple_bind [OF create], rule triple_bind [OF request], rule triple_bind [OF status],
        rule triple_if [OF refuse], rule triple_bind [OF receive publish])
qed

lemma temp_cleanup_triple:
  assumes "triple (\<lambda>s. P (w_fs s)) body Q (\<lambda>_ s. P (w_fs s))" and "\<And>fs x. P (fs(temp := x)) = P fs"
  shows "triple (\<lambda>s. P (w_fs s)) (with_temp_cleanup env temp body) Q
     (\<lambda>_ s. P (w_fs s) \<and> ((\<forall>tick. env_io env tick = None) \<longrightarrow> w_fs s temp \<in> {None, Some Directory}))"
  unfolding with_temp_cleanup_def
proof (rule triple_catch [where Q' = "\<lambda>r. case r of Inr a \<Rightarrow> Q a | Inl _ \<Rightarrow> \<lambda>s. P (w_fs s)"])
  let ?R = "\<lambda>s. P (w_fs s) \<and> ((\<forall>tick. env_io env tick = None) \<longrightarrow> w_fs s temp \<in> {None, Some Directory})"
  show "triple (\<lambda>s. P (w_fs s)) body (\<lambda>a. case Inr a of Inr a \<Rightarrow> Q a | Inl _ \<Rightarrow> \<lambda>s. P (w_fs s))
      (\<lambda>e. case Inl e of Inr a \<Rightarrow> Q a | Inl _ \<Rightarrow> \<lambda>s. P (w_fs s))"
    using assms(1) by simp
  have "triple (\<lambda>s. P (w_fs s)) (remove_file env temp) (\<lambda>_. ?R) (\<lambda>_. ?R)"
    using assms(2)
    by (auto simp: triple_iff remove_file_def io_op_def split: option.splits node.splits sum.splits prod.splits)
  then have remove: "triple (\<lambda>s. P (w_fs s)) (op_catch (remove_file env temp) (\<lambda>_. op_err e)) Q (\<lambda>_. ?R)" for e
    by (rule triple_catch [OF _ triple_err])
  show "triple (case r of Inr a \<Rightarrow> Q a | Inl _ \<Rightarrow> \<lambda>s. P (w_fs s))
      (case r of Inr a \<Rightarrow> op_ok a | Inl e \<Rightarrow> op_catch (remove_file env temp) (\<lambda>_. op_err e)) Q (\<lambda>_. ?R)" for r
  proof (cases r)
    case (Inl e)
    then show ?thesis using remove [of e] by simp
  next
    case (Inr a)
    then show ?thesis using triple_ok [of Q a] by simp
  qed
qed

subsection \<open>The rest of the state\<close>

definition same_rest :: "('u, 'z) world_scheme \<Rightarrow> ('u, 'z) world_scheme \<Rightarrow> bool" where
  "same_rest s s' \<longleftrightarrow> world.more s' = world.more s"

interpretation rest: state_preorder same_rest
  by unfold_locales (simp_all add: same_rest_def)

lemma same_rest_basic:
  "op_respects same_rest (io_op env act)" "op_respects same_rest (http_get env client url timeout)"
  "op_respects same_rest next_storage_sequence"
  by (auto simp: op_respects_def same_rest_def io_op_def http_get_def next_storage_sequence_def split: prod.splits option.splits sum.splits)

lemma same_rest_receive:
  "op_respects same_rest (receive env temp max_bytes hasher count chunks :: (('u, 'z) world_scheme, _, _) oper)"
  by (induction env temp max_bytes hasher count chunks rule: receive.induct)
    (auto simp: Let_def append_file_def intro!: rest.respects_rules same_rest_basic)

lemma same_rest_download:
  "op_respects same_rest (with_temp_cleanup env temp (fetch_to env st url expected temp destination))"
  "op_respects same_rest (sync_parent env parent)" "op_respects same_rest (create_dir_all env parent)"
  unfolding with_temp_cleanup_def fetch_to_def sync_parent_def create_new_file_def create_dir_all_def remove_file_def rename_file_def
    open_file_def file_step_def Let_def
  by (intro rest.respects_rules same_rest_basic same_rest_receive)+

lemma same_rest_fields:
  fixes s s' :: "('u, 'z) storage_state_scheme"
  assumes "same_rest s s'"
  shows "ss_verified s' = ss_verified s \<and> ss_locks s' = ss_locks s \<and> ss_permits s' = ss_permits s"
  using assms by (cases s; cases s') (simp add: same_rest_def)

lemma triple_same_rest:
  fixes f :: "(('u, 'z) storage_state_scheme, 'e, 'a) oper"
  assumes "triple P f Q R" and "op_respects same_rest f"
  shows "triple (\<lambda>s. P s \<and> F (ss_verified s) (ss_locks s) (ss_permits s)) f
     (\<lambda>a s. Q a s \<and> F (ss_verified s) (ss_locks s) (ss_permits s)) (\<lambda>e s. R e s \<and> F (ss_verified s) (ss_locks s) (ss_permits s))"
  unfolding triple_iff
proof (intro allI impI)
  fix s r s' assume pre: "P s \<and> F (ss_verified s) (ss_locks s) (ss_permits s)" and run: "f s = (r, s')"
  have "F (ss_verified s') (ss_locks s') (ss_permits s')"
    using same_rest_fields [OF respectsD [OF assms(2) run]] pre by simp
  with triple_run [OF assms(1) _ run] pre
  show "case r of Inr a \<Rightarrow> Q a s' \<and> F (ss_verified s') (ss_locks s') (ss_permits s') |
      Inl e \<Rightarrow> R e s' \<and> F (ss_verified s') (ss_locks s') (ss_permits s')" by (auto split: sum.splits)
qed

subsection \<open>A whole download\<close>

text \<open>What holds after a download, whatever its outcome, of the state it started in.\<close>

definition download_effect ::
  "('u, 'c, 'v, 'h, 'y) storage_env_scheme \<Rightarrow> (octet list \<Rightarrow> string) \<Rightarrow> (file_identity \<Rightarrow> octet list) \<Rightarrow> nat \<Rightarrow> string \<Rightarrow> string \<Rightarrow>
     string \<Rightarrow> ('u, 'z) storage_state_scheme \<Rightarrow> ('u, 'z) storage_state_scheme \<Rightarrow> bool" where
  "download_effect env digest contents max_bytes expected destination temp s s' \<longleftrightarrow>
     published digest max_bytes expected (w_fs s) destination temp (w_fs s') \<and>
     ((\<forall>tick. env_io env tick = None) \<longrightarrow> w_fs s' temp \<in> {w_fs s temp, None, Some Directory}) \<and>
     (fs_faithful contents (w_fs s') \<and> verified_ok digest contents (ss_verified s) \<longrightarrow> verified_ok digest contents (ss_verified s')) \<and>
     ss_locks s' = ss_locks s"

lemma record_downloaded_run:
  assumes "record_downloaded env destination expected s = (r, s')"
  shows "r = Inr () \<and> (s' = s\<lparr>w_tick := Suc (w_tick s)\<rparr> \<or> (\<exists>bytes st. w_fs s destination = Some (File bytes st) \<and>
     s' = s\<lparr>w_tick := Suc (w_tick s), ss_verified := put_verified (ss_verified s) destination
       \<lparr>vf_identity = identity_of bytes st, vf_checksum = expected\<rparr>\<rparr>))"
proof -
  obtain r1 s1 where look: "symlink_metadata env destination s = (r1, s1)" by fastforce
  then have "s1 = s\<lparr>w_tick := Suc (w_tick s)\<rparr>"
    unfolding symlink_metadata_def by (rule read_only_tick [rotated]) (auto split: option.splits)
  moreover have "w_fs s destination = Some node" if "r1 = Inr node" for node
    using look that by (auto simp: symlink_metadata_def io_op_def split: option.splits)
  moreover note run = assms [unfolded record_downloaded_def op_run(4) [of "symlink_metadata env destination", OF look]]
  have "(r = Inr () \<and> s' = s1) \<or> (\<exists>bytes st. r1 = Inr (File bytes st) \<and> (r, s') = record_verified destination (identity_of bytes st) expected s1)"
  proof (cases "\<exists>bytes st. r1 = Inr (File bytes st)")
    case True
    then show ?thesis using run by force
  next
    case False
    then show ?thesis using run by (auto simp: op_ok_def split: sum.splits node.splits)
  qed
  ultimately show ?thesis by (elim disjE exE conjE) (simp_all add: record_verified_def op_modify_def)
qed

lemma record_downloaded_effect:
  assumes run: "record_downloaded env destination expected s = (r, s')"
    and sound: "sound_file digest max_bytes expected (w_fs s) destination"
  shows "r = Inr () \<and> w_fs s' = w_fs s \<and> ss_locks s' = ss_locks s \<and> ss_permits s' = ss_permits s \<and>
     (fs_faithful contents (w_fs s) \<and> verified_ok digest contents (ss_verified s) \<longrightarrow> verified_ok digest contents (ss_verified s'))"
proof -
  have "digest (contents (identity_of bytes st)) = expected"
    if "w_fs s destination = Some (File bytes st)" "fs_faithful contents (w_fs s)" for bytes st
    using sound that by (auto simp: sound_file_def fs_faithful_def)
  then show ?thesis using record_downloaded_run [OF run] by (auto intro!: verified_ok_put)
qed

lemma cleanup_fetch_triple:
  assumes "sha_laws (env_sha env) digest" "ps_max_archive_bytes st < 2 ^ 64 - 1" "destination \<noteq> temp"
    and "P = published digest (ps_max_archive_bytes st) expected fs0 destination temp"
  shows "triple (\<lambda>s. P (w_fs s)) (with_temp_cleanup env temp (fetch_to env st url expected temp destination))
     (\<lambda>_ s. P (w_fs s) \<and> sound_file digest (ps_max_archive_bytes st) expected (w_fs s) destination \<and> w_fs s temp = None)
     (\<lambda>_ s. P (w_fs s) \<and> ((\<forall>tick. env_io env tick = None) \<longrightarrow> w_fs s temp \<in> {None, Some Directory}))"
  by (rule temp_cleanup_triple [OF fetch_to_triple [OF assms]]) (simp add: assms(4))

text \<open>After the rename: the directory is synced and the file is recorded.\<close>

lemma after_rename:
  assumes run: "op_bind (op_map_err StIo (sync_parent env parent)) (\<lambda>_. record_downloaded env destination expected) s = (r, s')"
    and sound: "sound_file digest max_bytes expected (w_fs s) destination"
  shows "w_fs s' = w_fs s \<and> ss_locks s' = ss_locks s \<and> ss_permits s' = ss_permits s \<and>
     (fs_faithful contents (w_fs s) \<and> verified_ok digest contents (ss_verified s) \<longrightarrow> verified_ok digest contents (ss_verified s'))"
proof -
  obtain r1 s1 where sync: "sync_parent env parent s = (r1, s1)" by fastforce
  have fs: "w_fs s1 = w_fs s"
    using triple_run [OF sync_parent_fs [of "\<lambda>fs. fs = w_fs s"] _ sync] by (simp split: sum.splits)
  note fields = same_rest_fields [OF respectsD [OF same_rest_download(2) sync]]
  show ?thesis
  proof (cases r1)
    case (Inl e)
    then show ?thesis using run sync fs fields by (simp add: op_bind_def op_map_err_def)
  next
    case (Inr u)
    then have recorded: "record_downloaded env destination expected s1 = (r, s')" using run sync by (simp add: op_bind_def op_map_err_def)
    from record_downloaded_effect [OF recorded, of digest max_bytes contents] sound fs fields show ?thesis by simp
  qed
qed

lemma download_with_permit_effect:
  fixes s :: "('u, 'z) storage_state_scheme"
  assumes run: "download_with_permit env st key url expected destination s = (r, s')"
    and sha: "sha_laws (env_sha env) digest" and bound: "ps_max_archive_bytes st < 2 ^ 64 - 1" and ne: "destination \<noteq> temp"
    and temp: "temp = path_join (path_parent destination) (archive_temp_name (ak_filename key) (env_pid env) (w_storage_sequence s))"
  shows "download_effect env digest contents (ps_max_archive_bytes st) expected destination temp s s' \<and> ss_permits s' = ss_permits s \<and>
     (r = Inr () \<longrightarrow> sound_file digest (ps_max_archive_bytes st) expected (w_fs s') destination)"
proof -
  let ?P = "published digest (ps_max_archive_bytes st) expected (w_fs s) destination temp"
  obtain r1 s1 where dir: "create_dir_all env (path_parent destination) s = (r1, s1)" by fastforce
  have seq: "w_storage_sequence s1 = w_storage_sequence s" using io_op_frame dir unfolding create_dir_all_def by blast
  note fields1 = same_rest_fields [OF respectsD [OF same_rest_download(3) dir]]
  note dir_fs = triple_run [OF create_dir_all_published _ dir, of "w_fs s" digest "ps_max_archive_bytes st" expected destination temp]
  have dir': "op_map_err StIo (create_dir_all env (path_parent destination)) s = (map_err StIo r1, s1)" using dir by (simp add: op_map_err_def)
  show ?thesis
  proof (cases r1)
    case (Inl e)
    then have "s' = s1" "r = Inl (StIo e)"
      using run dir' by (simp_all add: download_with_permit_def Let_def op_bind_def [of "op_map_err StIo (create_dir_all env _)"])
    then show ?thesis using Inl dir_fs fields1 by (auto simp: download_effect_def published_refl)
  next
    case (Inr u)
    let ?s2 = "s1\<lparr>w_storage_sequence := wrapping_inc64 (w_storage_sequence s1)\<rparr>"
    obtain r3 s3 where fetch: "with_temp_cleanup env temp (fetch_to env st url expected temp destination) ?s2 = (r3, s3)" by fastforce
    have run': "op_bind (with_temp_cleanup env temp (fetch_to env st url expected temp destination)) (\<lambda>_.
        op_bind (op_map_err StIo (sync_parent env (path_parent destination))) (\<lambda>_. record_downloaded env destination expected)) ?s2 = (r, s')"
      using run dir' Inr seq
      by (simp add: download_with_permit_def Let_def temp next_storage_sequence_def
          op_bind_def [of "op_map_err StIo (create_dir_all env _)"] op_bind_def [of "\<lambda>s. (Inr (w_storage_sequence s), _ s)"])
    have "?P (w_fs ?s2)" using dir_fs Inr by simp
    note fetched = triple_run [OF cleanup_fetch_triple [OF sha bound ne refl] this fetch]
    have fields3: "ss_verified s3 = ss_verified s" "ss_locks s3 = ss_locks s" "ss_permits s3 = ss_permits s"
      using same_rest_fields [OF respectsD [OF same_rest_download(1) fetch]] fields1 by simp_all
    show ?thesis
    proof (cases r3)
      case (Inl e)
      then have "s' = s3" "r = Inl e" using run' fetch by (simp_all add: op_bind_def)
      then show ?thesis using Inl fetched fields3 by (auto simp: download_effect_def)
    next
      case (Inr v)
      then have "op_bind (op_map_err StIo (sync_parent env (path_parent destination))) (\<lambda>_. record_downloaded env destination expected) s3 = (r, s')"
        using run' fetch by (simp add: op_bind_def [of "with_temp_cleanup env temp _"])
      from after_rename [OF this, of digest "ps_max_archive_bytes st" contents] Inr fetched fields3
      show ?thesis by (auto simp: download_effect_def)
    qed
  qed
qed

lemma download_run:
  assumes run: "download env st key md expected destination s = (r, s')"
    and "sha_laws (env_sha env) digest" "ps_max_archive_bytes st < 2 ^ 64 - 1" "destination \<noteq> temp"
    and temp: "temp = path_join (path_parent destination) (archive_temp_name (ak_filename key) (env_pid env) (w_storage_sequence s))"
  shows "download_effect env digest contents (ps_max_archive_bytes st) expected destination temp s s' \<and>
     (0 < ss_permits s \<longrightarrow> ss_permits s' = ss_permits s) \<and>
     (r = Inr () \<longrightarrow> sound_file digest (ps_max_archive_bytes st) expected (w_fs s') destination)"
proof (cases "url_parse (env_url env) (pm_download_url md)")
  case (Inl e)
  then show ?thesis using run by (auto simp: download_def op_err_def download_effect_def published_refl)
next
  case (Inr url)
  obtain s1 where body: "download_with_permit env st key url expected destination (s\<lparr>ss_permits := ss_permits s - 1\<rparr>) = (r, s1)"
    and s': "s' = s1\<lparr>ss_permits := ss_permits s1 + 1\<rparr>"
    using run Inr by (auto simp: download_def with_permit_unfold split: prod.splits)
  from download_with_permit_effect [OF body assms(2-4), of contents] temp
  show ?thesis unfolding s' by (auto simp: download_effect_def)
qed

end
