(* ===== verification/Archive_Properties.thy ===== *)
theory Archive_Properties
  imports Archive_Effects
begin

text \<open>
  What the archive cache promises: an archive it returns has the checksum of its metadata, nothing
  else is ever published under its name, the table of verified files is bounded, permits and locks
  are given back, and the archives of different keys stay apart.
\<close>

section \<open>Lemmas\<close>

lemma path_join_suffix: "\<exists>p'. path_join p s = p' @ s"
  by (auto simp: path_join_def)

lemma parse_archive_zip: "is_ok (parse_archive semver ty filename) \<Longrightarrow> \<exists>base. filename = base @ ''.zip''"
  by (auto simp: parse_archive_def str_simps is_ok_iff split: option.splits)

lemma validate_key_iff:
  "validate_key semver key = Inr () \<longleftrightarrow>
     valid_hostname (ak_hostname key) \<and> storage_valid_component (ak_namespace key) \<and> storage_valid_component (ak_provider_type key) \<and>
     CHR ''/'' \<notin> set (ak_filename key) \<and> CHR 0x5C \<notin> set (ak_filename key) \<and>
     is_ok (parse_archive semver (ak_provider_type key) (ak_filename key))"
  by (auto simp: validate_key_def list_ex_iff)

lemma archive_not_temp:
  assumes "validate_key semver key = Inr ()"
  shows "archive_path st key \<noteq> path_join parent (archive_temp_name filename pid n)"
proof
  assume eq: "archive_path st key = path_join parent (archive_temp_name filename pid n)"
  obtain base where "ak_filename key = base @ ''.zip''"
    using assms parse_archive_zip [of semver "ak_provider_type key" "ak_filename key"] by (auto simp: validate_key_iff)
  moreover obtain p' where "archive_path st key = p' @ ak_filename key" using path_join_suffix unfolding archive_path_def by blast
  ultimately have p: "archive_path st key = (p' @ base) @ ''.zip''" by simp
  obtain q where "path_join parent (archive_temp_name filename pid n) = q @ archive_temp_name filename pid n" using path_join_suffix by blast
  with p eq have "rev ((p' @ base) @ ''.zip'') = rev (q @ archive_temp_name filename pid n)" by metis
  then show False by (simp add: archive_temp_name_def)
qed

text \<open>What holds after \<open>load_or_fetch\<close>, whatever its outcome.\<close>

definition load_effect ::
  "('u, 'c, 'v, 'h, 'y) storage_env_scheme \<Rightarrow> (octet list \<Rightarrow> string) \<Rightarrow> (file_identity \<Rightarrow> octet list) \<Rightarrow> nat \<Rightarrow> string \<Rightarrow> string \<Rightarrow>
     string \<Rightarrow> ('u, 'z) storage_state_scheme \<Rightarrow> ('u, 'z) storage_state_scheme \<Rightarrow> bool" where
  "load_effect env digest contents max_bytes expected destination temp s s' \<longleftrightarrow>
     published digest max_bytes expected (w_fs s) destination temp (w_fs s') \<and>
     ((\<forall>tick. env_io env tick = None) \<longrightarrow> w_fs s' temp \<in> {w_fs s temp, None, Some Directory}) \<and>
     (fs_faithful contents (w_fs s) \<and> fs_faithful contents (w_fs s') \<and> verified_ok digest contents (ss_verified s) \<longrightarrow>
        verified_ok digest contents (ss_verified s')) \<and>
     (0 < ss_permits s \<longrightarrow> ss_permits s' = ss_permits s)"

lemma load_effect_cache_read:
  "cache_read digest contents s s' \<Longrightarrow> load_effect env digest contents max_bytes expected destination temp s s'"
  by (auto simp: cache_read_def load_effect_def published_refl)

lemma load_effect_download:
  assumes "cache_read digest contents s s1" "download_effect env digest contents max_bytes expected destination temp s1 s'"
    and "0 < ss_permits s1 \<longrightarrow> ss_permits s' = ss_permits s1"
  shows "load_effect env digest contents max_bytes expected destination temp s s'"
  using assms by (auto simp: cache_read_def download_effect_def load_effect_def)

lemma load_effect_after_read:
  assumes "cache_read digest contents s s1" "load_effect env digest contents max_bytes expected destination temp s1 s'"
  shows "load_effect env digest contents max_bytes expected destination temp s s'"
  using assms by (auto simp: cache_read_def load_effect_def)

text \<open>The result of a load: a path with the archive, in the cache or in the bundled mirror.\<close>

definition load_result ::
  "'c provider_storage \<Rightarrow> archive_key \<Rightarrow> (octet list \<Rightarrow> string) \<Rightarrow> string \<Rightarrow> string \<Rightarrow> file_system \<Rightarrow> (storage_error, string) result \<Rightarrow> bool" where
  "load_result st key digest expected destination fs r \<longleftrightarrow>
     (\<forall>path. r = Inr path \<longrightarrow> (path = destination \<or> bundled_path st key = Some path) \<and>
        sound_file digest (ps_max_archive_bytes st) expected fs path)"

lemma cached_archive_result:
  assumes "cached_archive env st key expected destination s = (r1, s1)" and "sha_laws (env_sha env) digest" and "r1 \<noteq> Inr None"
    and "fs_faithful contents (w_fs s)" "verified_ok digest contents (ss_verified s)"
  shows "load_result st key digest expected destination (w_fs s) (map_sum id the r1)"
  unfolding load_result_def
proof (intro allI impI)
  fix path assume "map_sum id the r1 = Inr path"
  with assms(3) have "r1 = Inr (Some path)" by (cases r1) auto
  with cached_archive_run [OF assms(1,2), THEN conjunct2, rule_format, of path contents] assms(4,5)
  show "(path = destination \<or> bundled_path st key = Some path) \<and>
      sound_file digest (ps_max_archive_bytes st) expected (w_fs s) path" by blast
qed

abbreviation fetch_missing ::
  "('u, 'c, 'v, 'h, 'y) storage_env_scheme \<Rightarrow> 'c provider_storage \<Rightarrow> archive_key \<Rightarrow> platform_metadata \<Rightarrow> string \<Rightarrow> string \<Rightarrow>
     (('u, 'z) storage_state_scheme, storage_error, string) oper" where
  "fetch_missing env st key md expected destination \<equiv>
     op_bind (cached_archive env st key expected destination) (\<lambda>hit. case hit of
       Some path \<Rightarrow> op_ok path
     | None \<Rightarrow> op_bind (download env st key md expected destination) (\<lambda>_. op_ok destination))"

lemma fetch_missing_run:
  fixes s :: "('u, 'z) storage_state_scheme"
  assumes run: "fetch_missing env st key md expected destination s = (r, s')"
    and sha: "sha_laws (env_sha env) digest" and bound: "ps_max_archive_bytes st < 2 ^ 64 - 1" and ne: "destination \<noteq> temp"
    and temp: "temp = path_join (path_parent destination) (archive_temp_name (ak_filename key) (env_pid env) (w_storage_sequence s))"
  shows "load_effect env digest contents (ps_max_archive_bytes st) expected destination temp s s' \<and> ss_locks s' = ss_locks s \<and>
    (fs_faithful contents (w_fs s) \<and> verified_ok digest contents (ss_verified s) \<longrightarrow> load_result st key digest expected destination (w_fs s') r)"
proof -
  obtain r1 s1 where look: "cached_archive env st key expected destination s = (r1, s1)" by fastforce
  note read = cached_archive_run [OF look sha, of contents]
  have same: "w_fs s1 = w_fs s" "w_storage_sequence s1 = w_storage_sequence s" "ss_locks s1 = ss_locks s" using read by (auto simp: cache_read_def)
  show ?thesis
  proof (cases "r1 = Inr None")
    case False
    then have "s' = s1" "r = map_sum id the r1" using run look by (auto simp: op_bind_def op_ok_def split: sum.splits option.splits)
    moreover have "load_effect env digest contents (ps_max_archive_bytes st) expected destination temp s s1"
      by (rule load_effect_cache_read [OF read [THEN conjunct1]])
    ultimately show ?thesis using same cached_archive_result [OF look sha False, of contents] by simp
  next
    case True
    obtain r2 where down: "download env st key md expected destination s1 = (r2, s')" and r: "r = map_sum id (\<lambda>_. destination) r2"
      using run look True by (auto simp: op_bind_def op_ok_def split: prod.splits sum.splits)
    have temp': "temp = path_join (path_parent destination) (archive_temp_name (ak_filename key) (env_pid env) (w_storage_sequence s1))"
      using temp same by simp
    note effect = download_run [OF down sha bound ne temp', of contents]
    then have "load_effect env digest contents (ps_max_archive_bytes st) expected destination temp s s'"
      by (elim conjE) (rule load_effect_download [OF read [THEN conjunct1]])
    moreover have "ss_locks s' = ss_locks s" using effect same by (simp add: download_effect_def)
    ultimately show ?thesis using effect r by (cases r2) (auto simp: load_result_def)
  qed
qed

lemma with_archive_lock_run:
  assumes "with_archive_lock key body s = (r, s')"
  obtains m table s1 where "lock_for (ss_locks s) key = (m, table)" "body (s\<lparr>ss_locks := table\<rparr>) = (r, s1)"
    "s' = s1\<lparr>ss_locks := drop_lock (ss_locks s1) key m\<rparr>"
  using assms by (auto simp: with_archive_lock_def split: prod.splits)

lemma map_of_empty_iff: "(\<forall>k. hm_get m k = None) \<longleftrightarrow> m = []"
  by (cases m) auto

lemma locked_load_run:
  fixes s :: "('u, 'z) storage_state_scheme"
  assumes run: "locked_load_or_fetch env st key md expected destination s = (r, s')"
    and sha: "sha_laws (env_sha env) digest" and bound: "ps_max_archive_bytes st < 2 ^ 64 - 1" and ne: "destination \<noteq> temp"
    and temp: "temp = path_join (path_parent destination) (archive_temp_name (ak_filename key) (env_pid env) (w_storage_sequence s))"
  shows "load_effect env digest contents (ps_max_archive_bytes st) expected destination temp s s' \<and>
    (lt_map (ss_locks s) = [] \<longrightarrow> lt_map (ss_locks s') = []) \<and>
    (fs_faithful contents (w_fs s) \<and> verified_ok digest contents (ss_verified s) \<longrightarrow> load_result st key digest expected destination (w_fs s') r)"
proof -
  obtain m table s1 where lock: "lock_for (ss_locks s) key = (m, table)"
    and body: "fetch_missing env st key md expected destination (s\<lparr>ss_locks := table\<rparr>) = (r, s1)"
    and s': "s' = s1\<lparr>ss_locks := drop_lock (ss_locks s1) key m\<rparr>"
    using run unfolding locked_load_or_fetch_def by (rule with_archive_lock_run)
  have "temp = path_join (path_parent destination) (archive_temp_name (ak_filename key) (env_pid env)
      (w_storage_sequence (s\<lparr>ss_locks := table\<rparr>)))" using temp by simp
  note effect = fetch_missing_run [OF body sha bound ne this, of contents]
  have "lt_map (ss_locks s') = []" if "lt_map (ss_locks s) = []"
    using drop_lock_after_lock_for [OF _ lock] that effect s' by (simp add: map_of_empty_iff [symmetric])
  with effect show ?thesis unfolding s' by (auto simp: load_effect_def)
qed

lemma load_or_fetch_cases:
  assumes "load_or_fetch env st key md s = (r, s')"
  obtains e where "r = Inl e" "s' = s"
  | expected where "validate_key (sv_parse (env_semver env)) key = Inr ()" "pm_filename md = ak_filename key" "expected_checksum md = Inr expected"
     "op_bind (cached_archive env st key expected (archive_path st key)) (\<lambda>hit. case hit of
        Some path \<Rightarrow> op_ok path | None \<Rightarrow> locked_load_or_fetch env st key md expected (archive_path st key)) s = (r, s')"
  using assms
  by (cases "validate_key (sv_parse (env_semver env)) key"; cases "expected_checksum md")
    (auto simp: load_or_fetch_def op_err_def split: if_splits dest: sym)

lemma load_or_fetch_run:
  fixes s :: "('u, 'z) storage_state_scheme"
  assumes run: "load_or_fetch env st key md s = (r, s')"
    and sha: "sha_laws (env_sha env) digest" and bound: "ps_max_archive_bytes st < 2 ^ 64 - 1"
    and temp: "temp = path_join (path_parent (archive_path st key)) (archive_temp_name (ak_filename key) (env_pid env) (w_storage_sequence s))"
  shows "(\<exists>e. r = Inl e \<and> s' = s) \<or>
    (\<exists>expected. validate_key (sv_parse (env_semver env)) key = Inr () \<and> expected_checksum md = Inr expected \<and>
       load_effect env digest contents (ps_max_archive_bytes st) expected (archive_path st key) temp s s' \<and>
       (lt_map (ss_locks s) = [] \<longrightarrow> lt_map (ss_locks s') = []) \<and>
       (fs_faithful contents (w_fs s) \<and> verified_ok digest contents (ss_verified s) \<longrightarrow>
          load_result st key digest expected (archive_path st key) (w_fs s') r))"
  using run
proof (cases rule: load_or_fetch_cases)
  case (2 expected)
  obtain r1 s1 where look: "cached_archive env st key expected (archive_path st key) s = (r1, s1)" by fastforce
  note read = cached_archive_run [OF look sha, of contents]
  have ne: "archive_path st key \<noteq> temp" using archive_not_temp [OF 2(1)] temp by simp
  have "load_effect env digest contents (ps_max_archive_bytes st) expected (archive_path st key) temp s s' \<and>
      (lt_map (ss_locks s) = [] \<longrightarrow> lt_map (ss_locks s') = []) \<and>
      (fs_faithful contents (w_fs s) \<and> verified_ok digest contents (ss_verified s) \<longrightarrow>
         load_result st key digest expected (archive_path st key) (w_fs s') r)"
  proof (cases "r1 = Inr None")
    case False
    then have "s' = s1" "r = map_sum id the r1" using 2(4) look by (auto simp: op_bind_def op_ok_def split: sum.splits option.splits)
    moreover have "load_effect env digest contents (ps_max_archive_bytes st) expected (archive_path st key) temp s s1"
      by (rule load_effect_cache_read [OF read [THEN conjunct1]])
    moreover have "ss_locks s1 = ss_locks s" "w_fs s1 = w_fs s" using read by (auto simp: cache_read_def)
    ultimately show ?thesis using cached_archive_result [OF look sha False, of contents] by simp
  next
    case True
    have same: "w_storage_sequence s1 = w_storage_sequence s" "ss_locks s1 = ss_locks s" "w_fs s1 = w_fs s"
      and ok: "fs_faithful contents (w_fs s) \<and> verified_ok digest contents (ss_verified s) \<longrightarrow> verified_ok digest contents (ss_verified s1)"
      using read by (auto simp: cache_read_def)
    have locked: "locked_load_or_fetch env st key md expected (archive_path st key) s1 = (r, s')"
      using 2(4) look True by (simp add: op_bind_def)
    have "temp = path_join (path_parent (archive_path st key)) (archive_temp_name (ak_filename key) (env_pid env) (w_storage_sequence s1))"
      using temp same by simp
    note effect = locked_load_run [OF locked sha bound ne this, of contents]
    have "load_effect env digest contents (ps_max_archive_bytes st) expected (archive_path st key) temp s s'"
      by (rule load_effect_after_read [of _ _ s s1]) (use read effect in simp_all)
    then show ?thesis using effect same ok by simp
  qed
  then show ?thesis using 2 by blast
qed blast

section \<open>Runs of the storage\<close>

text \<open>Any sequence of loads, between which others change the files as they like, as long as the identity of
  a file determines its contents.\<close>

definition storage_init :: "(file_identity \<Rightarrow> octet list) \<Rightarrow> 'u storage_state \<Rightarrow> bool" where
  "storage_init contents s \<longleftrightarrow> (\<exists>m. s = initial_storage_state m) \<and> fs_faithful contents (w_fs s)"

inductive storage_step ::
  "('u, 'c, 'v, 'h, 'y) storage_env_scheme \<Rightarrow> 'c provider_storage \<Rightarrow> (file_identity \<Rightarrow> octet list) \<Rightarrow>
     'u storage_state \<Rightarrow> 'u storage_state \<Rightarrow> bool"
  for env st contents where
  load: "load_or_fetch env st key md s = (r, s') \<Longrightarrow> fs_faithful contents (w_fs s') \<Longrightarrow> storage_step env st contents s s'"
| disk_change: "fs_faithful contents fs \<Longrightarrow> storage_step env st contents s (s\<lparr>w_fs := fs\<rparr>)"

definition storage_inv :: "(octet list \<Rightarrow> string) \<Rightarrow> (file_identity \<Rightarrow> octet list) \<Rightarrow> ('u, 'z) storage_state_scheme \<Rightarrow> bool" where
  "storage_inv digest contents s \<longleftrightarrow>
     fs_faithful contents (w_fs s) \<and> verified_ok digest contents (ss_verified s) \<and> lt_map (ss_locks s) = [] \<and>
     ss_permits s = MAX_CONCURRENT_DOWNLOADS"

lemma expected_checksum_ok:
  "expected_checksum md = Inr expected \<longleftrightarrow>
     (\<exists>checksum. pm_shasum md = Some checksum \<and> length checksum = 64 \<and> list_all is_ascii_hexdigit checksum \<and>
        expected = to_ascii_lowercase checksum)"
  by (auto simp: expected_checksum_def ok_or_eq_Inr bind_eq_Some_conv split: if_splits)

lemma load_storage_inv:
  assumes laws: "sha_laws (env_sha env) digest" "ps_max_archive_bytes st < 2 ^ 64 - 1"
    and inv: "storage_inv digest contents s" and run: "load_or_fetch env st key md s = (r, s')" and faithful: "fs_faithful contents (w_fs s')"
  shows "storage_inv digest contents s'"
  using load_or_fetch_run [OF run laws refl, of contents]
proof (elim disjE exE conjE)
  show ?thesis if "s' = s" using that inv by simp
  show ?thesis if "load_effect env digest contents (ps_max_archive_bytes st) expected destination temp s s'"
    "lt_map (ss_locks s) = [] \<longrightarrow> lt_map (ss_locks s') = []" for expected destination temp
    using that inv faithful by (simp add: storage_inv_def load_effect_def MAX_CONCURRENT_DOWNLOADS_def)
qed

lemma load_sound:
  assumes "sha_laws (env_sha env) digest" "ps_max_archive_bytes st < 2 ^ 64 - 1" "storage_inv digest contents s"
    and "load_or_fetch env st key md s = (Inr path, s')"
  shows "(path = archive_path st key \<or> bundled_path st key = Some path) \<and>
    (\<exists>checksum bytes stamp. pm_shasum md = Some checksum \<and> w_fs s' path = Some (File bytes stamp) \<and>
       digest bytes = to_ascii_lowercase checksum \<and> length bytes \<le> ps_max_archive_bytes st)"
proof -
  from load_or_fetch_run [OF assms(4,1,2) refl, of contents]
  obtain expected where "expected_checksum md = Inr expected" "load_result st key digest expected (archive_path st key) (w_fs s') (Inr path)"
    using assms(3) by (auto simp: storage_inv_def)
  then show ?thesis by (auto simp: load_result_def sound_file_def expected_checksum_ok)
qed

lemma storage_invariant:
  fixes env :: "('u, 'c, 'v, 'h, 'y) storage_env_scheme"
  assumes "sha_laws (env_sha env) digest" "ps_max_archive_bytes st < 2 ^ 64 - 1"
  shows "inductive_invariant (storage_init contents) (storage_step env st contents) (storage_inv digest contents)"
proof
  fix s s' :: "'u storage_state"
  show "storage_inv digest contents s" if "storage_init contents s"
    using that by (auto simp: storage_init_def initial_storage_state_def storage_inv_def empty_lock_table_def metadata_state.defs)
  assume inv: "storage_inv digest contents s" and step: "storage_step env st contents s s'"
  from step show "storage_inv digest contents s'"
  proof cases
    case (load key md r)
    then show ?thesis using load_storage_inv [OF assms inv] by blast
  next
    case (disk_change fs)
    then show ?thesis using inv by (simp add: storage_inv_def)
  qed
qed

lemma storage_reach_inv:
  assumes "sha_laws (env_sha env) digest" "ps_max_archive_bytes st < 2 ^ 64 - 1" "reach (storage_init contents) (storage_step env st contents) s"
  shows "storage_inv digest contents s"
  using inductive_invariant.reach_inv [OF storage_invariant [OF assms(1,2)] assms(3)] .

section \<open>An example\<close>

text \<open>A digest that is the number of bytes, in 64 characters, and a storage with one cached archive.\<close>

definition toy_digest :: "octet list \<Rightarrow> string" where
  "toy_digest bytes = replicate 64 (if bytes = [] then CHR ''0'' else CHR ''1'')"

definition toy_sha :: "octet list sha_api" where
  "toy_sha = \<lparr>sha_new = [], sha_update = (@), sha_hex = toy_digest\<rparr>"

definition toy_storage_env :: "(string \<times> string \<times> string, unit, string, octet list) storage_env" where
  "toy_storage_env = metadata_env.extend toy_metadata_env \<lparr>env_sha = toy_sha, env_read = (\<lambda>_. 0)\<rparr>"

definition toy_storage :: "unit provider_storage" where
  "toy_storage = with_bundled_mirror_and_outbound ''d'' None toy_client"

definition toy_key :: archive_key where
  "toy_key = \<lparr>ak_hostname = ''h'', ak_namespace = ''n'', ak_provider_type = ''t'', ak_filename = ''terraform-provider-t_1_l_a.zip''\<rparr>"

definition toy_storage_state :: "(string \<times> string \<times> string) storage_state" where
  "toy_storage_state = initial_storage_state (toy_metadata_state\<lparr>w_fs :=
     (\<lambda>_. None)(archive_path toy_storage toy_key \<mapsto> File [] \<lparr>st_modified = None, st_dev = 0, st_ino = 0\<rparr>)\<rparr>)"

lemma toy_sha_laws: "sha_laws (env_sha toy_storage_env) toy_digest"
proof -
  have "foldl (@) acc chunks = acc @ concat chunks" for acc :: "octet list" and chunks
    by (induction chunks arbitrary: acc) auto
  then show ?thesis by (simp add: sha_laws_def toy_storage_env_def toy_sha_def metadata_env.defs registry_env.defs toy_metadata_env_def)
qed

lemma toy_storage_init: "storage_init (\<lambda>_. []) toy_storage_state"
  unfolding storage_init_def
proof
  show "\<exists>m. toy_storage_state = initial_storage_state m" unfolding toy_storage_state_def by blast
  show "fs_faithful (\<lambda>_. []) (w_fs toy_storage_state)"
    by (simp add: toy_storage_state_def initial_storage_state_def fs_faithful_def metadata_state.defs)
qed

lemma toy_key_valid: "validate_key (sv_parse (env_semver toy_storage_env)) toy_key = Inr ()"
proof -
  have "sv_parse (env_semver toy_storage_env) = Some"
    by (simp add: toy_storage_env_def metadata_env.defs registry_env.defs toy_metadata_env_def)
  then show ?thesis
    by (simp add: validate_key_iff toy_key_def toy_parse valid_hostname_def storage_valid_component_def char_defs)
qed

lemma toy_checksum: "expected_checksum toy_platform = Inr (toy_digest [])"
  by (simp add: expected_checksum_def toy_platform_def toy_digest_def to_ascii_lowercase_def to_ascii_lower_char_def list_all_iff char_defs)

lemma toy_bound: "ps_max_archive_bytes toy_storage < 2 ^ 64 - 1"
  by (simp add: toy_storage_def with_bundled_mirror_and_outbound_def storage_build_def MAX_PROVIDER_ARCHIVE_BYTES_def)

section \<open>Hashing terminates with a digest\<close>

lemma read_chunk_ok:
  assumes "env_io env (w_tick s) = None"
  obtains n where "read_chunk env rest s = (Inr n, s\<lparr>w_tick := Suc (w_tick s)\<rparr>)" "n \<le> length rest" "n = 0 \<longleftrightarrow> rest = []"
proof
  let ?n = "min (Suc (env_read env (w_tick s))) (min HASH_BUFFER_BYTES (length rest))"
  show "read_chunk env rest s = (Inr ?n, s\<lparr>w_tick := Suc (w_tick s)\<rparr>)" using assms by (simp add: read_chunk_def io_op_def)
  show "?n \<le> length rest" by simp
  show "?n = 0 \<longleftrightarrow> rest = []" by (auto simp: HASH_BUFFER_BYTES_def min_def)
qed

lemma hash_loop_total:
  assumes "\<And>tick. env_io env tick = None" and "max_bytes < 2 ^ 64 - 1"
  shows "count + length rest \<le> max_bytes \<Longrightarrow> \<exists>d s'. hash_loop env max_bytes hasher count rest s = (Inr (Some d), s')"
proof (induction "length rest" arbitrary: hasher count rest s rule: less_induct)
  case less
  obtain n where n: "read_chunk env rest s = (Inr n, s\<lparr>w_tick := Suc (w_tick s)\<rparr>)" "n \<le> length rest" "n = 0 \<longleftrightarrow> rest = []"
    using read_chunk_ok [OF assms(1)] by metis
  show ?case
  proof (cases "n = 0")
    case True
    then show ?thesis using n(1) by (simp add: hash_loop.simps [of env max_bytes hasher count rest s])
  next
    case False
    then have "saturating_add64 count n = count + n" "count + n \<le> max_bytes"
      using n(2) less.prems assms(2) by (auto simp: saturating_add64_def min_def)
    moreover have "\<exists>d s'. hash_loop env max_bytes (sha_update (env_sha env) hasher (take n rest)) (count + n) (drop n rest)
        (s\<lparr>w_tick := Suc (w_tick s)\<rparr>) = (Inr (Some d), s')"
      by (rule less.hyps) (use False n less.prems in auto)
    ultimately show ?thesis using n False by (simp add: hash_loop.simps [of env max_bytes hasher count rest s])
  qed
qed

lemma hash_file_total:
  assumes io: "\<And>tick. env_io env tick = None" and "max_bytes < 2 ^ 64 - 1" and "sha_laws (env_sha env) digest"
    and there: "w_fs s path = Some (File bytes stamp)" and "length bytes \<le> max_bytes"
  shows "\<exists>s'. hash_file env path max_bytes s = (Inr (Some (digest bytes, identity_of bytes stamp)), s')"
proof -
  define s1 where "s1 = s\<lparr>w_tick := Suc (w_tick s)\<rparr>"
  have opened: "open_file env path s = (Inr (File bytes stamp), s1)"
    using io fs_resolve_file [of "w_fs s", OF there] there by (simp add: open_file_def io_op_def s1_def)
  obtain s2 where step: "file_step env s1 = (Inr (), s2)" using io by (simp add: file_step_def io_op_def)
  obtain d s3 where loop: "hash_loop env max_bytes (sha_new (env_sha env)) 0 bytes s2 = (Inr (Some d), s3)"
    using hash_loop_total [OF io assms(2), of 0 bytes "sha_new (env_sha env)" s2] assms(5) by auto
  then have "d = digest bytes" using hash_loop_spec [OF loop] assms(3) by (auto simp: sha_laws_def)
  with opened step loop assms(5) show ?thesis by (simp add: hash_file_def op_catch_def op_bind_def op_ok_def)
qed

lemma archive_matches_hit:
  assumes io: "\<And>tick. env_io env tick = None" and bound: "ps_max_archive_bytes st < 2 ^ 64 - 1" and sha: "sha_laws (env_sha env) digest"
    and there: "w_fs s path = Some (File bytes stamp)" and len: "length bytes \<le> ps_max_archive_bytes st" and digest: "digest bytes = expected"
  shows "\<exists>s'. archive_matches_checksum env st path expected s = (Inr True, s')"
proof -
  define s1 where "s1 = s\<lparr>w_tick := Suc (w_tick s)\<rparr>"
  have look: "symlink_metadata env path s = (Inr (File bytes stamp), s1)"
    using io there by (simp add: symlink_metadata_def io_op_def s1_def)
  have "w_fs s1 path = Some (File bytes stamp)" using there by (simp add: s1_def)
  from hash_file_total [OF io bound sha this len] obtain s2
    where "hash_file env path (ps_max_archive_bytes st) s1 = (Inr (Some (expected, identity_of bytes stamp)), s2)" using digest by blast
  then show ?thesis
    using look len by (simp add: archive_matches_checksum_def op_catch_def op_bind_def op_get_def op_map_err_def op_ok_def
        record_verified_def op_modify_def)
qed

lemma cached_load:
  assumes io: "\<And>tick. env_io env tick = None" and bound: "ps_max_archive_bytes st < 2 ^ 64 - 1" and sha: "sha_laws (env_sha env) digest"
    and "validate_key (sv_parse (env_semver env)) key = Inr ()" "pm_filename md = ak_filename key" "expected_checksum md = Inr expected"
    and mirror: "ps_bundled_mirror st = None"
    and there: "w_fs s (archive_path st key) = Some (File bytes stamp)" "length bytes \<le> ps_max_archive_bytes st" "digest bytes = expected"
  shows "\<exists>s'. load_or_fetch env st key md s = (Inr (archive_path st key), s') \<and> w_sent s' = w_sent s \<and> w_fs s' = w_fs s"
proof -
  obtain s' where hit: "archive_matches_checksum env st (archive_path st key) expected s = (Inr True, s')"
    using archive_matches_hit [OF io bound sha there] by blast
  moreover have "w_sent s' = w_sent s \<and> w_fs s' = w_fs s"
    using archive_matches_run [OF hit sha, of "\<lambda>_. []"] by (auto simp: cache_read_def)
  ultimately show ?thesis using assms(4-7)
    by (simp add: load_or_fetch_def cached_archive_def bundled_path_def op_bind_def op_ok_def op_result_def)
qed

lemma toy_load: "\<exists>s'. load_or_fetch toy_storage_env toy_storage toy_key toy_platform toy_storage_state = (Inr (archive_path toy_storage toy_key), s')"
proof -
  have "env_io toy_storage_env tick = None" for tick
    by (simp add: toy_storage_env_def metadata_env.defs registry_env.defs toy_metadata_env_def toy_env_def)
  moreover have "pm_filename toy_platform = ak_filename toy_key" by (simp add: toy_platform_def toy_key_def)
  moreover have "ps_bundled_mirror toy_storage = None"
    by (simp add: toy_storage_def with_bundled_mirror_and_outbound_def storage_build_def)
  moreover have "w_fs toy_storage_state (archive_path toy_storage toy_key) = Some (File [] \<lparr>st_modified = None, st_dev = 0, st_ino = 0\<rparr>)"
    by (simp add: toy_storage_state_def initial_storage_state_def metadata_state.defs)
  ultimately show ?thesis using cached_load [OF _ toy_bound toy_sha_laws toy_key_valid _ toy_checksum] by fastforce
qed

section \<open>Properties\<close>

text \<open>An archive that is handed out has the right checksum. Whatever loads ran before and however others
  changed the files in between, as long as the identity of a file determines its contents, the path that
  \<open>load_or_fetch\<close> returns is that of the cached or the bundled archive of the key, and the file there has
  the SHA-256 digest of the metadata and at most the maximal size.\<close>

theorem loaded_archive_is_verified:
  assumes "sha_laws (env_sha env) digest" and "ps_max_archive_bytes st < 2 ^ 64 - 1"
    and "reach (storage_init contents) (storage_step env st contents) s"
    and "load_or_fetch env st key md s = (Inr path, s')"
  shows "(path = archive_path st key \<or> bundled_path st key = Some path) \<and>
    (\<exists>checksum bytes stamp. pm_shasum md = Some checksum \<and> w_fs s' path = Some (File bytes stamp) \<and>
       digest bytes = to_ascii_lowercase checksum \<and> length bytes \<le> ps_max_archive_bytes st)"
  using load_sound [OF assms(1,2) storage_reach_inv [OF assms(1-3)] assms(4)] .

theorem loaded_archive_is_verified_witness:
  "\<exists>s' checksum bytes stamp. load_or_fetch toy_storage_env toy_storage toy_key toy_platform toy_storage_state =
     (Inr (archive_path toy_storage toy_key), s') \<and> pm_shasum toy_platform = Some checksum \<and>
     w_fs s' (archive_path toy_storage toy_key) = Some (File bytes stamp) \<and> toy_digest bytes = to_ascii_lowercase checksum"
proof -
  obtain s' where run: "load_or_fetch toy_storage_env toy_storage toy_key toy_platform toy_storage_state =
      (Inr (archive_path toy_storage toy_key), s')" using toy_load by blast
  have "reach (storage_init (\<lambda>_. [])) (storage_step toy_storage_env toy_storage (\<lambda>_. [])) toy_storage_state"
    using toy_storage_init by (rule reach.start)
  from loaded_archive_is_verified [OF toy_sha_laws toy_bound this run] run show ?thesis by blast
qed

text \<open>C2: nothing but a verified archive is ever published. After \<open>load_or_fetch\<close>, from any state and with
  any outcome, whatever the server sent and whichever operations failed, every path other than that of the
  temporary file is as before, or is a directory that was missing, or is the path of the archive with a
  file that has the checksum and the permitted size; and if no file operation was refused, no temporary
  file is left behind.\<close>

theorem only_verified_archives_are_published:
  assumes "sha_laws (env_sha env) digest" and "ps_max_archive_bytes st < 2 ^ 64 - 1"
    and "load_or_fetch env st key md s = (r, s')"
    and "temp = path_join (path_parent (archive_path st key)) (archive_temp_name (ak_filename key) (env_pid env) (w_storage_sequence s))"
  shows "(\<forall>p. p \<noteq> temp \<longrightarrow> w_fs s' p = w_fs s p \<or> w_fs s p = None \<and> w_fs s' p = Some Directory \<or>
       p = archive_path st key \<and> (\<exists>checksum bytes stamp. pm_shasum md = Some checksum \<and> w_fs s' p = Some (File bytes stamp) \<and>
         digest bytes = to_ascii_lowercase checksum \<and> length bytes \<le> ps_max_archive_bytes st)) \<and>
    ((\<forall>tick. env_io env tick = None) \<longrightarrow> w_fs s' temp \<in> {w_fs s temp, None, Some Directory})"
  using load_or_fetch_run [OF assms(3,1,2,4), of "\<lambda>_. []"]
proof (elim disjE exE conjE)
  fix expected
  assume expected: "expected_checksum md = Inr expected"
    and effect: "load_effect env digest (\<lambda>_. []) (ps_max_archive_bytes st) expected (archive_path st key) temp s s'"
  obtain checksum where "pm_shasum md = Some checksum" "expected = to_ascii_lowercase checksum"
    using expected by (auto simp: expected_checksum_ok)
  then have sound: "sound_file digest (ps_max_archive_bytes st) expected fs p \<Longrightarrow>
      \<exists>checksum bytes stamp. pm_shasum md = Some checksum \<and> fs p = Some (File bytes stamp) \<and>
        digest bytes = to_ascii_lowercase checksum \<and> length bytes \<le> ps_max_archive_bytes st" for fs p
    by (auto simp: sound_file_def)
  show ?thesis
  proof (intro conjI allI impI)
    fix p assume "p \<noteq> temp"
    with effect have "w_fs s' p = w_fs s p \<or> w_fs s p = None \<and> w_fs s' p = Some Directory \<or>
        p = archive_path st key \<and> sound_file digest (ps_max_archive_bytes st) expected (w_fs s') p"
      unfolding load_effect_def published_def by blast
    with sound show "w_fs s' p = w_fs s p \<or> w_fs s p = None \<and> w_fs s' p = Some Directory \<or>
       p = archive_path st key \<and> (\<exists>checksum bytes stamp. pm_shasum md = Some checksum \<and> w_fs s' p = Some (File bytes stamp) \<and>
         digest bytes = to_ascii_lowercase checksum \<and> length bytes \<le> ps_max_archive_bytes st)" by blast
  qed (use effect in \<open>simp add: load_effect_def\<close>)
qed simp

theorem only_verified_archives_are_published_witness:
  "w_fs (snd (load_or_fetch toy_storage_env toy_storage toy_key toy_platform toy_storage_state)) ''other'' \<in>
     {w_fs toy_storage_state ''other'', Some Directory}"
proof -
  define temp where "temp = path_join (path_parent (archive_path toy_storage toy_key))
    (archive_temp_name (ak_filename toy_key) (env_pid toy_storage_env) (w_storage_sequence toy_storage_state))"
  obtain r s' where run: "load_or_fetch toy_storage_env toy_storage toy_key toy_platform toy_storage_state = (r, s')" by fastforce
  obtain x where x: "temp = x @ archive_temp_name (ak_filename toy_key) (env_pid toy_storage_env) (w_storage_sequence toy_storage_state)"
    using path_join_suffix unfolding temp_def by blast
  have "''other'' \<noteq> temp"
  proof
    assume "''other'' = temp"
    then have "rev ''other'' = rev temp" by simp
    then show False using x by (simp add: archive_temp_name_def)
  qed
  moreover have "''other'' \<noteq> archive_path toy_storage toy_key"
    by (simp add: archive_path_def toy_key_def toy_storage_def with_bundled_mirror_and_outbound_def storage_build_def path_join_def)
  ultimately show ?thesis
    using only_verified_archives_are_published [OF toy_sha_laws toy_bound run temp_def] run by auto
qed

text \<open>C37: the resources of the storage are given back by loads that run one after the other. In every state between
  two of them the table of verified files has at most 16384 entries, each of them true of the contents its
  file identity stands for, all eight download permits are free, and no archive lock is left in the lock table,
  whether the loads succeed or fail. Loads that overlap are not covered: they can leave the entry of their lock
  in the table (theory \<open>Key_Locks\<close>).\<close>

theorem storage_resources_are_returned:
  assumes "sha_laws (env_sha env) digest" and "ps_max_archive_bytes st < 2 ^ 64 - 1"
    and "reach (storage_init contents) (storage_step env st contents) s"
  shows "verified_entry_count s \<le> 16384 \<and>
    (\<forall>path entry. hm_get (ss_verified s) path = Some entry \<longrightarrow> digest (contents (vf_identity entry)) = vf_checksum entry) \<and>
    available_download_permits s = 8 \<and> active_lock_count s = 0"
  using storage_reach_inv [OF assms]
  by (simp add: verified_entry_count_def available_download_permits_def active_lock_count_def storage_inv_def verified_ok_def MAX_VERIFIED_ENTRIES_def MAX_CONCURRENT_DOWNLOADS_def)

theorem storage_resources_are_returned_witness: "available_download_permits toy_storage_state = 8 \<and> verified_entry_count toy_storage_state \<le> 16384"
proof -
  have "reach (storage_init (\<lambda>_. [])) (storage_step toy_storage_env toy_storage (\<lambda>_. [])) toy_storage_state"
    using toy_storage_init by (rule reach.start)
  from storage_resources_are_returned [OF toy_sha_laws toy_bound this] show ?thesis by blast
qed

text \<open>C38: an archive in the cache is served without the network. If no file operation is refused, the storage has
  no bundled mirror, and the path of the archive holds a regular file within the size limit and with the checksum
  of the metadata, then \<open>load_or_fetch\<close> returns its path, sends no request and changes no file, whether or not the
  table of verified files knows the file.\<close>

theorem cached_archive_is_served_offline:
  assumes "\<And>tick. env_io env tick = None" and "ps_max_archive_bytes st < 2 ^ 64 - 1" and "sha_laws (env_sha env) digest"
    and "validate_key (sv_parse (env_semver env)) key = Inr ()" and "pm_filename md = ak_filename key"
    and "expected_checksum md = Inr expected" and "ps_bundled_mirror st = None"
    and "w_fs s (archive_path st key) = Some (File bytes stamp)" and "length bytes \<le> ps_max_archive_bytes st" and "digest bytes = expected"
  shows "\<exists>s'. load_or_fetch env st key md s = (Inr (archive_path st key), s') \<and> w_sent s' = w_sent s \<and> w_fs s' = w_fs s"
  using assms by (rule cached_load)

theorem cached_archive_is_served_offline_witness:
  "\<exists>s'. load_or_fetch toy_storage_env toy_storage toy_key toy_platform toy_storage_state = (Inr (archive_path toy_storage toy_key), s') \<and>
     w_sent s' = []"
proof -
  have "env_io toy_storage_env tick = None" for tick
    by (simp add: toy_storage_env_def metadata_env.defs registry_env.defs toy_metadata_env_def toy_env_def)
  moreover have "pm_filename toy_platform = ak_filename toy_key" by (simp add: toy_platform_def toy_key_def)
  moreover have "ps_bundled_mirror toy_storage = None"
    by (simp add: toy_storage_def with_bundled_mirror_and_outbound_def storage_build_def)
  moreover have "w_fs toy_storage_state (archive_path toy_storage toy_key) = Some (File [] \<lparr>st_modified = None, st_dev = 0, st_ino = 0\<rparr>)"
    "w_sent toy_storage_state = []"
    by (simp_all add: toy_storage_state_def initial_storage_state_def metadata_state.defs toy_metadata_state_def
        initial_metadata_state_def registry_state.defs toy_registry_state_def)
  ultimately show ?thesis
    using cached_archive_is_served_offline [OF _ toy_bound toy_sha_laws toy_key_valid _ toy_checksum] by fastforce
qed

end
