(* ===== verification/Archive_Keys.thy ===== *)
theory Archive_Keys
  imports Archive_Properties
begin

text \<open>
  The keys of the archive cache: which keys it accepts, where their files are, and which requests a
  load may send.
\<close>

section \<open>Lemmas\<close>

lemma storage_component_valid: "storage_valid_component c \<Longrightarrow> valid_component c"
  by (auto simp: storage_valid_component_def valid_component_def list_all_iff)

lemma storage_component_safe: "storage_valid_component c \<Longrightarrow> safe_component c"
  by (rule valid_component_safe [OF storage_component_valid])

lemma valid_hostname_safe:
  assumes "valid_hostname h"
  shows "safe_component h"
proof -
  have parts: "\<And>p. p \<in> set (split_on CHR ''.'' h) \<Longrightarrow> storage_valid_component p" and "h \<noteq> []"
    using assms by (auto simp: valid_hostname_def list_all_iff)
  have "CHR ''/'' \<notin> set h"
    using split_on_chars [of h "CHR ''.''"] parts storage_component_safe by (fastforce simp: safe_component_def)
  moreover have "h \<noteq> ''.''" "h \<noteq> ''..''" using parts [of "[]"] by (auto simp: storage_valid_component_def)
  ultimately show ?thesis using \<open>h \<noteq> []\<close> by (simp add: safe_component_def)
qed

lemma archive_file_safe:
  assumes "validate_key semver key = Inr ()"
  shows "safe_component (ak_filename key)"
  using assms parse_archive_zip [of semver "ak_provider_type key" "ak_filename key"]
  by (auto simp: validate_key_iff safe_component_def append_eq_Cons_conv)

lemma validate_key_safe:
  assumes "validate_key semver key = Inr ()"
  shows "safe_component (ak_hostname key) \<and> safe_component (ak_namespace key) \<and> safe_component (ak_provider_type key) \<and>
    safe_component (ak_filename key)"
  using assms archive_file_safe [OF assms] by (simp add: validate_key_iff valid_hostname_safe storage_component_safe)

lemma archive_path_eq:
  assumes "proper_dir (ps_root st)" "validate_key semver key = Inr ()"
  shows "archive_path st key = ps_root st @ ''/providers/'' @ ak_hostname key @ CHR ''/'' # ak_namespace key @ CHR ''/'' #
    ak_provider_type key @ CHR ''/'' # ak_filename key"
proof -
  have "safe_component ''providers''" by (simp add: safe_component_def)
  then show ?thesis using validate_key_safe [OF assms(2)] assms(1) by (simp add: archive_path_def)
qed

lemma archive_path_inject:
  assumes "proper_dir (ps_root st)" "validate_key semver key = Inr ()" "validate_key semver key' = Inr ()"
    and "archive_path st key = archive_path st key'"
  shows "key = key'"
proof -
  have no: "CHR ''/'' \<notin> set (ak_hostname k)" "CHR ''/'' \<notin> set (ak_namespace k)" "CHR ''/'' \<notin> set (ak_provider_type k)"
    if "validate_key semver k = Inr ()" for k using validate_key_safe [OF that] by (simp_all add: safe_component_def)
  note no = no [OF assms(2)] no [OF assms(3)]
  have e1: "ak_hostname key @ CHR ''/'' # ak_namespace key @ CHR ''/'' # ak_provider_type key @ CHR ''/'' # ak_filename key =
      ak_hostname key' @ CHR ''/'' # ak_namespace key' @ CHR ''/'' # ak_provider_type key' @ CHR ''/'' # ak_filename key'"
    using assms(4) archive_path_eq [OF assms(1,2)] archive_path_eq [OF assms(1,3)] by simp
  from separator_unique [OF no(1) no(4) e1] have h: "ak_hostname key = ak_hostname key'"
    and e2: "ak_namespace key @ CHR ''/'' # ak_provider_type key @ CHR ''/'' # ak_filename key =
      ak_namespace key' @ CHR ''/'' # ak_provider_type key' @ CHR ''/'' # ak_filename key'" by simp_all
  from separator_unique [OF no(2) no(5) e2] have n: "ak_namespace key = ak_namespace key'"
    and e3: "ak_provider_type key @ CHR ''/'' # ak_filename key = ak_provider_type key' @ CHR ''/'' # ak_filename key'" by simp_all
  from separator_unique [OF no(3) no(6) e3] h n show ?thesis by simp
qed

subsection \<open>Requests\<close>

lemma requests_hash_loop:
  "requests_within env client 0 (\<lambda>s. hash_loop env' max_bytes hasher count rest s)"
  by (rule requests_same_log) (auto dest!: hash_loop_spec)

lemma requests_io_case:
  "requests_within env client n f \<Longrightarrow> (\<And>e. requests_within env client n (j e)) \<Longrightarrow>
     requests_within env client n (case io of IoNotFound \<Rightarrow> f | IoOther e \<Rightarrow> j e)"
  by (cases io) auto

lemma requests_node_case:
  "(\<And>b st. requests_within env client n (f b st)) \<Longrightarrow> requests_within env client n d \<Longrightarrow>
     requests_within env client n (case node of File b st \<Rightarrow> f b st | _ \<Rightarrow> d)"
  by (cases node) auto

lemma requests_hash_file: "requests_within env client 0 (hash_file env' path max_bytes)"
  unfolding hash_file_def open_file_def file_step_def
  by (intro requests_catch [where n = 0 and m = 0, simplified] requests_cases requests_io_case requests_bind0 requests_node_case
      requests_none requests_hash_loop)

lemmas requests_catch0 = requests_catch [where n = 0 and m = 0, simplified]

lemma requests_record:
  "requests_within env client 0 (record_verified path identity expected)" "requests_within env client 0 (forget_verified path)"
  unfolding record_verified_def forget_verified_def by (auto intro: requests_modify)

lemma requests_cached_archive: "requests_within env client 0 (cached_archive env' st key expected destination)"
proof -
  have "requests_within env client 0 (archive_matches_checksum env' st path expected)" for path
    unfolding archive_matches_checksum_def symlink_metadata_def
    by (intro requests_catch0 requests_cases requests_io_case requests_node_case requests_bind0 requests_none requests_map_err
        requests_hash_file requests_record allI) (auto intro!: requests_bind0 requests_record requests_none requests_cases)
  then show ?thesis unfolding cached_archive_def by (intro requests_bind0 requests_cases requests_none)
qed

lemma requests_wrappers:
  "requests_within env client n body \<Longrightarrow> requests_within env client n (with_permit body)"
  "requests_within env client n body \<Longrightarrow> requests_within env client n (with_archive_lock key body)"
  unfolding requests_within_def with_permit_unfold with_archive_lock_def by (fastforce split: prod.splits)+

lemma requests_receive:
  "requests_within env client 0 (receive env' temp max_bytes hasher count chunks :: (('u, 'z) world_scheme, _, _) oper)"
  by (induction env' temp max_bytes hasher count chunks rule: receive.induct)
    (auto simp: Let_def append_file_def intro!: requests_bind0 requests_map_err requests_none)

lemma requests_fetch_to: "requests_within env (ps_outbound st) (Suc MAX_REDIRECTS) (fetch_to env st url expected temp destination)"
  unfolding fetch_to_def create_new_file_def file_step_def rename_file_def Let_def
  by (intro requests_bind0 [OF requests_map_err [OF requests_none(7)]] requests_bind1 [OF requests_map_err [OF requests_get]]
      requests_bind0 requests_cases requests_none requests_receive requests_map_err)

lemma requests_download:
  "requests_within env (ps_outbound st) (Suc MAX_REDIRECTS) (download env st key md expected destination)"
proof -
  have cleanup: "requests_within env (ps_outbound st) (Suc MAX_REDIRECTS) (with_temp_cleanup env temp (fetch_to env st url expected temp destination))"
    for url temp
    unfolding with_temp_cleanup_def remove_file_def by (intro requests_catch1 requests_fetch_to requests_cases requests_none requests_catch0)
  have sequence: "requests_within env (ps_outbound st) 0 next_storage_sequence"
    by (rule requests_same_log) (simp add: next_storage_sequence_def)
  have finish: "requests_within env (ps_outbound st) 0 (sync_parent env parent)"
    "requests_within env (ps_outbound st) 0 (record_downloaded env destination expected)" for parent
    unfolding sync_parent_def record_downloaded_def symlink_metadata_def open_file_def file_step_def
    by (intro requests_bind0 requests_catch0 requests_cases requests_node_case requests_none requests_record)+
  show ?thesis
    unfolding download_def download_with_permit_def create_dir_all_def Let_def
    by (intro requests_bind0 [OF requests_none(3)] requests_wrappers requests_bind0 [OF requests_map_err [OF requests_none(7)]]
        requests_bind0 [OF sequence] requests_bind1 [OF cleanup] requests_bind0 [OF requests_map_err [OF finish(1)]] finish(2))
qed

lemma requests_load:
  "requests_within env (ps_outbound st) (Suc MAX_REDIRECTS)
      (load_or_fetch env st key md :: (('u, 'z) storage_state_scheme, _, _) oper)"
  unfolding load_or_fetch_def locked_load_or_fetch_def
  by (intro requests_bind0 [OF requests_none(3)] requests_bind0 [OF requests_cached_archive] requests_bind1 [OF requests_download]
      requests_cases requests_wrappers requests_mono [OF requests_none(1)] requests_mono [OF requests_none(2)] requests_none le0)

text \<open>Every public constructor but the one for tests makes a client that obeys the policy of the direct mode.\<close>

lemma constructors_obey_policy:
  assumes direct: "direct_client = new_client builder_error env_var read_ca from_pem_bundle Direct None"
    and client: "storage_new root env_var direct_client = Some st \<and> client = ps_outbound st \<or>
      with_bundled_mirror to_string root bundled direct_client = Inr st \<and> client = ps_outbound st \<or>
      metadata_service_new read_dir read_bytes from_slice data_dir allowed freshness direct_client = Inr (svc, indices) \<and>
        client = rc_outbound (sv_registry svc)"
  shows "oc_mode client = Direct \<and> \<not> oc_allow_http client \<and> \<not> oc_allow_non_public_ips client"
proof -
  have "direct_client = Inr client"
    using client
    by (auto simp: storage_new_def with_bundled_mirror_def metadata_service_new_def registry_new_def with_outbound_def storage_build_def
        with_registry_client_def try_bind_eq_Inr map_err_eq_Inr Let_def map_sum_def split: sum.splits)
  then show ?thesis using new_client_ok(1-3) [of builder_error env_var read_ca from_pem_bundle Direct None client] direct by simp
qed

section \<open>Properties\<close>

text \<open>C21: the archives of valid keys stay in the cache directory and apart. The path of an archive consists of
  the root, \<open>providers\<close>, the three components of the provider and the file name, none of them empty, \<open>.\<close>,
  \<open>..\<close> or with a slash inside, and two valid keys have the same path only if they are equal.\<close>

theorem archive_paths_safe:
  assumes "proper_dir (ps_root st)" and "validate_key semver key = Inr ()" and "validate_key semver key' = Inr ()"
  shows "archive_path st key = ps_root st @ ''/providers/'' @ ak_hostname key @ CHR ''/'' # ak_namespace key @ CHR ''/'' #
      ak_provider_type key @ CHR ''/'' # ak_filename key \<and>
    safe_component (ak_hostname key) \<and> safe_component (ak_namespace key) \<and> safe_component (ak_provider_type key) \<and>
    safe_component (ak_filename key) \<and> (archive_path st key = archive_path st key' \<longrightarrow> key = key')"
  using archive_path_eq [OF assms(1,2)] validate_key_safe [OF assms(2)] archive_path_inject [OF assms] by simp

theorem archive_paths_safe_witness: "archive_path toy_storage toy_key = ''d/providers/h/n/t/terraform-provider-t_1_l_a.zip''"
proof -
  have "ps_root toy_storage = ''d''" by (simp add: toy_storage_def with_bundled_mirror_and_outbound_def storage_build_def)
  moreover from this have "proper_dir (ps_root toy_storage)" by (simp add: proper_dir_def)
  ultimately show ?thesis using archive_paths_safe [OF _ toy_key_valid toy_key_valid, of toy_storage] by (simp add: toy_key_def)
qed

text \<open>A load sends at most one request and its redirects. Whatever the state and the outcome,
  \<open>load_or_fetch\<close> sends at most six requests, each to a URL that the policy of the storage's client allows; and
  for an invalid key, metadata of another file or metadata without checksum it does nothing at all.\<close>

theorem load_or_fetch_requests:
  fixes s :: "('u, 'z) storage_state_scheme"
  assumes "load_or_fetch env st key md s = (r, s')"
  shows "(\<exists>urls. w_sent s' = w_sent s @ urls \<and> length urls \<le> 6 \<and>
       list_all (\<lambda>url. validate_url (env_url env) (ps_outbound st) url = Inr ()) urls) \<and>
    (validate_key (sv_parse (env_semver env)) key \<noteq> Inr () \<or> pm_filename md \<noteq> ak_filename key \<or> is_err (expected_checksum md) \<longrightarrow>
       s' = s \<and> is_err r)"
proof
  show "\<exists>urls. w_sent s' = w_sent s @ urls \<and> length urls \<le> 6 \<and>
       list_all (\<lambda>url. validate_url (env_url env) (ps_outbound st) url = Inr ()) urls"
    using requests_load [of env st key md, unfolded requests_within_def, rule_format, OF assms] by (simp add: MAX_REDIRECTS_def)
  show "validate_key (sv_parse (env_semver env)) key \<noteq> Inr () \<or> pm_filename md \<noteq> ak_filename key \<or> is_err (expected_checksum md) \<longrightarrow>
       s' = s \<and> is_err r"
    using assms by (cases rule: load_or_fetch_cases) auto
qed

theorem load_or_fetch_requests_witness:
  "\<exists>s'. load_or_fetch toy_storage_env toy_storage toy_key toy_platform toy_storage_state = (Inr (archive_path toy_storage toy_key), s') \<and>
     (\<exists>urls. w_sent s' = w_sent toy_storage_state @ urls \<and> length urls \<le> 6)"
proof -
  obtain s' where run: "load_or_fetch toy_storage_env toy_storage toy_key toy_platform toy_storage_state =
      (Inr (archive_path toy_storage toy_key), s')" using toy_load by blast
  from load_or_fetch_requests [OF run] run show ?thesis by blast
qed

end
