(* ===== verification/Single_Flight.thy ===== *)
theory Single_Flight
  imports Archive_Keys Key_Locks
begin

text \<open>
  Concurrent loads of archives (\<^verbatim>\<open>src/src/storage.rs\<close>: \<open>load_or_fetch\<close>, \<open>locked_load_or_fetch\<close>, \<open>lock_for\<close>): any
  number of tasks, each with its key and metadata, interleave between the looks at the cache, the lock of
  the key and the download. A look at the cache and a download are one step each, on the storage that the
  tasks share: what they do to different paths is independent, and temporary names are never reused.
\<close>

section \<open>Definitions\<close>

text \<open>The checks at the start of \<open>load_or_fetch\<close>.\<close>

definition archive_request ::
  "('u, 'c, 'v, 'h, 'y) storage_env_scheme \<Rightarrow> archive_key \<Rightarrow> platform_metadata \<Rightarrow> (storage_error, string) result" where
  "archive_request env key md =
     try_bind (validate_key (sv_parse (env_semver env)) key) (\<lambda>_.
       if pm_filename md \<noteq> ak_filename key then Inl (StInvalidKey ''metadata filename does not match request'')
       else expected_checksum md)"

text \<open>Where a load stands: before its first look, after it missed, with a reference to the lock, after the look
  under the lock missed, on its way out of the lock, and done.\<close>

datatype load_phase =
    Entering
  | Missed
  | Locking
  | Fetching
  | Leaving "(storage_error, string) result"
  | Done "(storage_error, string) result"

record ('u, 't) flight_state =
  fl_storage :: "'u storage_state"
  fl_locks :: "(archive_key, 't) lock_state"
  fl_phase :: "'t \<Rightarrow> load_phase"
  fl_downloaded :: "archive_key list"

definition flight_init :: "('u, 't) flight_state \<Rightarrow> bool" where
  "flight_init s \<longleftrightarrow> lock_init (fl_locks s) \<and> fl_phase s = (\<lambda>_. Entering) \<and> fl_downloaded s = []"

definition after_look :: "(storage_error, string option) result \<Rightarrow> load_phase \<Rightarrow> ((storage_error, string) result \<Rightarrow> load_phase) \<Rightarrow> load_phase" where
  "after_look r miss finish = (case r of Inl e \<Rightarrow> finish (Inl e) | Inr (Some path) \<Rightarrow> finish (Inr path) | Inr None \<Rightarrow> miss)"

abbreviation set_phase :: "'t \<Rightarrow> load_phase \<Rightarrow> ('u, 't) flight_state \<Rightarrow> ('u, 't) flight_state" where
  "set_phase t p s \<equiv> s\<lparr>fl_phase := (fl_phase s)(t := p)\<rparr>"

text \<open>The tasks' requests are \<open>request_of\<close>. Successful downloads are recorded.\<close>

inductive flight_step ::
  "('u, 'c, 'v, 'h, 'y) storage_env_scheme \<Rightarrow> 'c provider_storage \<Rightarrow> ('t \<Rightarrow> archive_key \<times> platform_metadata) \<Rightarrow>
     ('u, 't) flight_state \<Rightarrow> ('u, 't) flight_state \<Rightarrow> bool"
  for env st request_of where
  refuse: "fl_phase s t = Entering \<Longrightarrow> request_of t = (key, md) \<Longrightarrow> archive_request env key md = Inl e \<Longrightarrow>
    flight_step env st request_of s (set_phase t (Done (Inl e)) s)"
| look: "fl_phase s t = Entering \<Longrightarrow> request_of t = (key, md) \<Longrightarrow> archive_request env key md = Inr expected \<Longrightarrow>
    cached_archive env st key expected (archive_path st key) (fl_storage s) = (r, storage) \<Longrightarrow>
    flight_step env st request_of s (set_phase t (after_look r Missed Done) (s\<lparr>fl_storage := storage\<rparr>))"
| enqueue: "fl_phase s t = Missed \<Longrightarrow> request_of t = (key, md) \<Longrightarrow> lock_for (ls_table (fl_locks s)) key = (m, table) \<Longrightarrow>
    flight_step env st request_of s (set_phase t Locking (s\<lparr>fl_locks := (fl_locks s)
      \<lparr>ls_table := table, ls_task := (ls_task (fl_locks s))(t := Waiting key m)\<rparr>\<rparr>))"
| lock: "fl_phase s t = Locking \<Longrightarrow> ls_task (fl_locks s) t = Waiting key m \<Longrightarrow> ls_owner (fl_locks s) m = None \<Longrightarrow>
    flight_step env st request_of s (s\<lparr>fl_locks := (fl_locks s)
      \<lparr>ls_owner := (ls_owner (fl_locks s))(m := Some t), ls_task := (ls_task (fl_locks s))(t := Holding key m)\<rparr>\<rparr>)"
| look_again: "fl_phase s t = Locking \<Longrightarrow> ls_task (fl_locks s) t = Holding key m \<Longrightarrow> request_of t = (key, md) \<Longrightarrow>
    archive_request env key md = Inr expected \<Longrightarrow>
    cached_archive env st key expected (archive_path st key) (fl_storage s) = (r, storage) \<Longrightarrow>
    flight_step env st request_of s (set_phase t (after_look r Fetching Leaving) (s\<lparr>fl_storage := storage\<rparr>))"
| fetch: "fl_phase s t = Fetching \<Longrightarrow> request_of t = (key, md) \<Longrightarrow> archive_request env key md = Inr expected \<Longrightarrow>
    download env st key md expected (archive_path st key) (fl_storage s) = (r, storage) \<Longrightarrow>
    flight_step env st request_of s (set_phase t (Leaving (map_sum id (\<lambda>_. archive_path st key) r))
      (s\<lparr>fl_storage := storage, fl_downloaded := (if is_ok r then key # fl_downloaded s else fl_downloaded s)\<rparr>))"
| unlock: "fl_phase s t = Leaving r \<Longrightarrow> ls_task (fl_locks s) t = Holding key m \<Longrightarrow>
    flight_step env st request_of s (s\<lparr>fl_locks := (fl_locks s)
      \<lparr>ls_owner := (ls_owner (fl_locks s))(m := None), ls_task := (ls_task (fl_locks s))(t := Releasing key m)\<rparr>\<rparr>)"
| drop_entry: "fl_phase s t = Leaving r \<Longrightarrow> ls_task (fl_locks s) t = Releasing key m \<Longrightarrow>
    flight_step env st request_of s (s\<lparr>fl_locks := (fl_locks s)
      \<lparr>ls_table := drop_check (ls_table (fl_locks s)) key m, ls_task := (ls_task (fl_locks s))(t := Checked m)\<rparr>\<rparr>)"
| leave: "fl_phase s t = Leaving r \<Longrightarrow> ls_task (fl_locks s) t = Checked m \<Longrightarrow>
    flight_step env st request_of s (set_phase t (Done r) (s\<lparr>fl_locks := (fl_locks s)
      \<lparr>ls_table := drop_mutex (ls_table (fl_locks s)) m, ls_task := (ls_task (fl_locks s))(t := Idle)\<rparr>\<rparr>))"

section \<open>The invariant\<close>

text \<open>A task uses its own key, and fetches only while it holds the lock.\<close>

definition phase_lock :: "archive_key \<Rightarrow> load_phase \<Rightarrow> archive_key task \<Rightarrow> bool" where
  "phase_lock key phase task \<longleftrightarrow> (case phase of
     Entering \<Rightarrow> task = Idle | Missed \<Rightarrow> task = Idle | Done _ \<Rightarrow> task = Idle
   | Locking \<Rightarrow> (\<exists>m. task \<in> {Waiting key m, Holding key m})
   | Fetching \<Rightarrow> (\<exists>m. task = Holding key m)
   | Leaving _ \<Rightarrow> (\<exists>m. task \<in> {Holding key m, Releasing key m, Checked m}))"

text \<open>The file of the archive that the task asks for is there and sound.\<close>

definition archive_sound ::
  "('u, 'c, 'v, 'h, 'y) storage_env_scheme \<Rightarrow> (octet list \<Rightarrow> string) \<Rightarrow> 'c provider_storage \<Rightarrow> archive_key \<times> platform_metadata \<Rightarrow>
     ('w, 'z) world_scheme \<Rightarrow> bool" where
  "archive_sound env digest st request s \<longleftrightarrow>
     (\<exists>expected. archive_request env (fst request) (snd request) = Inr expected \<and>
        sound_file digest (ps_max_archive_bytes st) expected (w_fs s) (archive_path st (fst request)))"

definition flight_phases ::
  "('u, 'c, 'v, 'h, 'y) storage_env_scheme \<Rightarrow> ('t \<Rightarrow> archive_key \<times> platform_metadata) \<Rightarrow> ('u, 't) flight_state \<Rightarrow> bool" where
  "flight_phases env request_of s \<longleftrightarrow>
     lock_reach (fl_locks s) \<and>
     (\<forall>t. phase_lock (fst (request_of t)) (fl_phase s t) (ls_task (fl_locks s) t)) \<and>
     (\<forall>t. fl_phase s t \<in> {Missed, Locking, Fetching} \<longrightarrow> is_ok (archive_request env (fst (request_of t)) (snd (request_of t))))"

definition flight_cache ::
  "('u, 'c, 'v, 'h, 'y) storage_env_scheme \<Rightarrow> (octet list \<Rightarrow> string) \<Rightarrow> 'c provider_storage \<Rightarrow> ('t \<Rightarrow> archive_key \<times> platform_metadata) \<Rightarrow>
     ('u, 't) flight_state \<Rightarrow> bool" where
  "flight_cache env digest st request_of s \<longleftrightarrow>
     (\<forall>t. fl_phase s t = Fetching \<longrightarrow> \<not> archive_sound env digest st (request_of t) (fl_storage s)) \<and>
     (\<forall>key \<in> set (fl_downloaded s). \<exists>t. fst (request_of t) = key \<and> archive_sound env digest st (request_of t) (fl_storage s)) \<and>
     distinct (fl_downloaded s)"

text \<open>What is assumed of the setting: no operation on the files fails, the digest is a function of the bytes, the size limit
  does not overflow, and all requests for an archive carry the same metadata.\<close>

definition flight_setting ::
  "('u, 'c, 'v, 'h, 'y) storage_env_scheme \<Rightarrow> (octet list \<Rightarrow> string) \<Rightarrow> 'c provider_storage \<Rightarrow> ('t \<Rightarrow> archive_key \<times> platform_metadata) \<Rightarrow> bool" where
  "flight_setting env digest st request_of \<longleftrightarrow>
     (\<forall>tick. env_io env tick = None) \<and> sha_laws (env_sha env) digest \<and> ps_max_archive_bytes st < 2 ^ 64 - 1 \<and> proper_dir (ps_root st) \<and>
     (\<forall>t u. fst (request_of t) = fst (request_of u) \<longrightarrow> request_of t = request_of u)"

section \<open>Lemmas\<close>

lemma load_or_fetch_request:
  "load_or_fetch env st key md =
     op_bind (op_result (archive_request env key md)) (\<lambda>expected.
     op_bind (cached_archive env st key expected (archive_path st key)) (\<lambda>hit. case hit of
       Some path \<Rightarrow> op_ok path
     | None \<Rightarrow> locked_load_or_fetch env st key md expected (archive_path st key)))"
  by (cases "validate_key (sv_parse (env_semver env)) key") (auto simp: load_or_fetch_def archive_request_def)

text \<open>A sound file is found, so the look does not miss.\<close>

lemma cached_archive_miss:
  assumes "\<And>tick. env_io env tick = None" "ps_max_archive_bytes st < 2 ^ 64 - 1" "sha_laws (env_sha env) digest"
    and look: "cached_archive env st key expected destination s = (Inr None, s')"
  shows "\<not> sound_file digest (ps_max_archive_bytes st) expected (w_fs s) destination"
proof
  assume "sound_file digest (ps_max_archive_bytes st) expected (w_fs s) destination"
  then obtain bytes stamp where there: "w_fs s destination = Some (File bytes stamp)" "length bytes \<le> ps_max_archive_bytes st" "digest bytes = expected"
    by (auto simp: sound_file_def)
  have hit: "\<exists>s2. archive_matches_checksum env st destination expected s1 = (Inr True, s2)" if "w_fs s1 = w_fs s" for s1
    using archive_matches_hit [OF assms(1-3), of s1 destination bytes stamp] there that by simp
  show False
  proof (cases "bundled_path st key")
    case None
    then show ?thesis using look hit [of s] by (auto simp: cached_archive_def op_bind_def op_ok_def)
  next
    case (Some path)
    obtain r1 s1 where first: "archive_matches_checksum env st path expected s = (r1, s1)" by fastforce
    then have "w_fs s1 = w_fs s" using archive_matches_run [OF first assms(3), of "\<lambda>_. []"] by (auto simp: cache_read_def)
    then show ?thesis using look hit [of s1] first Some
      by (cases r1) (auto simp: cached_archive_def op_bind_def op_ok_def split: if_splits)
  qed
qed

lemma cached_archive_fs: "cached_archive env st key expected destination s = (r, s') \<Longrightarrow> sha_laws (env_sha env) digest \<Longrightarrow> w_fs s' = w_fs s"
  using cached_archive_run [of env st key expected destination s r s' digest "\<lambda>_. []"] by (auto simp: cache_read_def)

lemma archive_request_ok: "archive_request env key md = Inr expected \<Longrightarrow> validate_key (sv_parse (env_semver env)) key = Inr ()"
  by (auto simp: archive_request_def try_bind_eq_Inr)

text \<open>A download of another archive leaves the file of an archive alone.\<close>

lemma download_other:
  assumes "download env st key md expected (archive_path st key) s = (r, s')"
    and "sha_laws (env_sha env) digest" "ps_max_archive_bytes st < 2 ^ 64 - 1" "proper_dir (ps_root st)"
    and "validate_key (sv_parse (env_semver env)) key = Inr ()" "validate_key (sv_parse (env_semver env)) key' = Inr ()" "key' \<noteq> key"
  shows "sound_file digest bound expected' (w_fs s') (archive_path st key') \<longleftrightarrow> sound_file digest bound expected' (w_fs s) (archive_path st key')"
proof -
  define temp where "temp = path_join (path_parent (archive_path st key)) (archive_temp_name (ak_filename key) (env_pid env) (w_storage_sequence s))"
  have "archive_path st key' \<noteq> archive_path st key" using archive_path_inject [OF assms(4,6,5)] assms(7) by blast
  moreover have "archive_path st key \<noteq> temp" "archive_path st key' \<noteq> temp"
    unfolding temp_def by (rule archive_not_temp [OF assms(5)], rule archive_not_temp [OF assms(6)])
  moreover have "published digest (ps_max_archive_bytes st) expected (w_fs s) (archive_path st key) temp (w_fs s')"
    using download_run [OF assms(1-3) calculation(2) temp_def, of "\<lambda>_. []"] by (simp add: download_effect_def)
  ultimately have "w_fs s' (archive_path st key') = w_fs s (archive_path st key') \<or>
      w_fs s (archive_path st key') = None \<and> w_fs s' (archive_path st key') = Some Directory"
    unfolding published_def by blast
  then show ?thesis by (elim disjE conjE) (simp_all add: sound_file_def)
qed

lemma download_sound:
  assumes "download env st key md expected (archive_path st key) s = (Inr u, s')"
    and "sha_laws (env_sha env) digest" "ps_max_archive_bytes st < 2 ^ 64 - 1" "validate_key (sv_parse (env_semver env)) key = Inr ()"
  shows "sound_file digest (ps_max_archive_bytes st) expected (w_fs s') (archive_path st key)"
  using download_run [OF assms(1-3) archive_not_temp [OF assms(4)] refl, of "\<lambda>_. []"] by simp

lemma flight_settingD:
  assumes "flight_setting env digest st request_of"
  shows "env_io env tick = None" "sha_laws (env_sha env) digest" "ps_max_archive_bytes st < 2 ^ 64 - 1" "proper_dir (ps_root st)"
    "fst (request_of t) = fst (request_of u) \<Longrightarrow> request_of t = request_of u"
  using assms unfolding flight_setting_def by blast+

lemma flight_phasesD:
  assumes "flight_phases env request_of s"
  shows "lock_reach (fl_locks s)" "phase_lock (fst (request_of u)) (fl_phase s u) (ls_task (fl_locks s) u)"
    "fl_phase s u \<in> {Missed, Locking, Fetching} \<Longrightarrow> is_ok (archive_request env (fst (request_of u)) (snd (request_of u)))"
  using assms unfolding flight_phases_def by blast+

lemma flight_cacheD:
  assumes "flight_cache env digest st request_of s"
  shows "fl_phase s u = Fetching \<Longrightarrow> \<not> archive_sound env digest st (request_of u) (fl_storage s)"
    "key \<in> set (fl_downloaded s) \<Longrightarrow> \<exists>u. fst (request_of u) = key \<and> archive_sound env digest st (request_of u) (fl_storage s)"
    "distinct (fl_downloaded s)"
  using assms unfolding flight_cache_def by blast+

text \<open>The results of a look.\<close>

lemma after_look_cases:
  assumes "after_look r miss finish = p"
  obtains "r = Inr None" "p = miss" | res where "p = finish res"
  using assms by (cases r) (auto simp: after_look_def split: option.splits)

subsection \<open>Phases\<close>

text \<open>A step of one task, with at most one step of the locks.\<close>

lemma flight_phases_task:
  assumes inv: "flight_phases env request_of s" and move: "fl_locks s' = fl_locks s \<or> lock_step (fl_locks s) (fl_locks s')"
    and phase: "fl_phase s' = (fl_phase s)(t := p)" and task: "ls_task (fl_locks s') = (ls_task (fl_locks s))(t := x)"
    and t: "phase_lock (fst (request_of t)) p x"
      "p \<in> {Missed, Locking, Fetching} \<Longrightarrow> is_ok (archive_request env (fst (request_of t)) (snd (request_of t)))"
  shows "flight_phases env request_of s'"
  unfolding flight_phases_def
proof (intro conjI allI)
  show "lock_reach (fl_locks s')" using reach.move [OF flight_phasesD(1) [OF inv]] flight_phasesD(1) [OF inv] move by metis
  show "phase_lock (fst (request_of u)) (fl_phase s' u) (ls_task (fl_locks s') u)" for u
    using flight_phasesD(2) [OF inv, of u] t(1) by (simp add: phase task)
  show "fl_phase s' u \<in> {Missed, Locking, Fetching} \<longrightarrow> is_ok (archive_request env (fst (request_of u)) (snd (request_of u)))" for u
    using flight_phasesD(3) [OF inv, of u] t(2) by (cases "u = t") (simp_all add: phase)
qed

lemma flight_phases_step:
  assumes inv: "flight_phases env request_of s" and step: "flight_step env st request_of s s'"
  shows "flight_phases env request_of s'"
  using step
proof cases
  case (refuse t key md e)
  have "ls_task (fl_locks s) t = Idle" using flight_phasesD(2) [OF inv, of t] refuse by (simp add: phase_lock_def)
  then show ?thesis unfolding refuse(1)
    by (intro flight_phases_task [OF inv, where t = t and x = Idle]) (auto simp: phase_lock_def)
next
  case (look t key md expected r storage)
  have "ls_task (fl_locks s) t = Idle" using flight_phasesD(2) [OF inv, of t] look by (simp add: phase_lock_def)
  moreover have "phase_lock key (after_look r Missed Done) Idle"
    by (cases rule: after_look_cases [OF refl, of r Missed Done]) (auto simp: phase_lock_def)
  ultimately show ?thesis unfolding look(1)
    by (intro flight_phases_task [OF inv, where t = t and x = Idle]) (use look in auto)
next
  case (enqueue t key md m table)
  have idle: "ls_task (fl_locks s) t = Idle" using flight_phasesD(2) [OF inv, of t] enqueue by (simp add: phase_lock_def)
  have "is_ok (archive_request env key md)" using flight_phasesD(3) [OF inv, of t] enqueue by simp
  then show ?thesis unfolding enqueue(1)
    by (intro flight_phases_task [OF inv, where t = t and x = "Waiting key m"])
      (use enqueue lock_step.request [OF idle enqueue(4)] in \<open>auto simp: phase_lock_def\<close>)
next
  case (lock t key m)
  then show ?thesis unfolding lock(1)
    by (intro flight_phases_task [OF inv, where t = t and p = Locking and x = "Holding key m"])
      (use flight_phasesD(2,3) [OF inv, of t] lock_step.acquire [OF lock(3,4)] in \<open>auto simp: phase_lock_def\<close>)
next
  case (look_again t key m md expected r storage)
  have "phase_lock key (after_look r Fetching Leaving) (Holding key m)"
    by (cases rule: after_look_cases [OF refl, of r Fetching Leaving]) (auto simp: phase_lock_def)
  then show ?thesis unfolding look_again(1)
    by (intro flight_phases_task [OF inv, where t = t and x = "Holding key m"]) (use look_again in auto)
next
  case (fetch t key md expected r storage)
  then obtain m where "ls_task (fl_locks s) t = Holding key m" using flight_phasesD(2) [OF inv, of t] by (auto simp: phase_lock_def)
  then show ?thesis unfolding fetch(1)
    by (intro flight_phases_task [OF inv, where t = t and x = "Holding key m"]) (use fetch in \<open>auto simp: phase_lock_def\<close>)
next
  case (unlock t r key m)
  then show ?thesis unfolding unlock(1)
    by (intro flight_phases_task [OF inv, where t = t and p = "Leaving r" and x = "Releasing key m"])
      (use flight_phasesD(2) [OF inv, of t] lock_step.release [OF unlock(3)] in \<open>auto simp: phase_lock_def\<close>)
next
  case (drop_entry t r key m)
  then show ?thesis unfolding drop_entry(1)
    by (intro flight_phases_task [OF inv, where t = t and p = "Leaving r" and x = "Checked m"])
      (use flight_phasesD(2) [OF inv, of t] lock_step.check [OF drop_entry(3)] in \<open>auto simp: phase_lock_def\<close>)
next
  case (leave t r m)
  then show ?thesis unfolding leave(1)
    by (intro flight_phases_task [OF inv, where t = t and p = "Done r" and x = Idle])
      (use lock_step.free [OF leave(3)] in \<open>auto simp: phase_lock_def\<close>)
qed

lemma flight_phases_init: "flight_init s \<Longrightarrow> flight_phases env request_of s"
  by (auto simp: flight_init_def flight_phases_def phase_lock_def lock_init_def intro!: reach.start)

subsection \<open>Files\<close>

lemma archive_sound_fs: "w_fs s' = w_fs s \<Longrightarrow> archive_sound env digest st request s' = archive_sound env digest st request s"
  by (simp add: archive_sound_def)

text \<open>Steps that leave the files alone.\<close>

lemma flight_cache_task:
  assumes inv: "flight_cache env digest st request_of s"
    and fs: "w_fs (fl_storage s') = w_fs (fl_storage s)" and downloaded: "fl_downloaded s' = fl_downloaded s"
    and phase: "fl_phase s' = (fl_phase s)(t := p)" and t: "p = Fetching \<Longrightarrow> \<not> archive_sound env digest st (request_of t) (fl_storage s)"
  shows "flight_cache env digest st request_of s'"
  unfolding flight_cache_def archive_sound_fs [OF fs] downloaded
  using flight_cacheD [OF inv] t by (auto simp: phase)

lemma other_archive_sound:
  assumes setting: "flight_setting env digest st request_of" and valid: "validate_key (sv_parse (env_semver env)) key = Inr ()"
    and run: "download env st key md expected (archive_path st key) s = (r, s')" and other: "fst request \<noteq> key"
  shows "archive_sound env digest st request s' = archive_sound env digest st request s"
proof (cases "archive_request env (fst request) (snd request)")
  case (Inr expected')
  from download_other [OF run flight_settingD(2-4) [OF setting] valid archive_request_ok [OF Inr] other] Inr show ?thesis
    by (simp add: archive_sound_def)
qed (simp add: archive_sound_def)

lemma fetched_is_new:
  assumes "flight_setting env digest st request_of" "flight_cache env digest st request_of s" "fl_phase s t = Fetching"
  shows "fst (request_of t) \<notin> set (fl_downloaded s)"
  using flight_cacheD(1,2) [OF assms(2)] flight_settingD(5) [OF assms(1)] assms(3) by metis

lemma flight_cache_fetch:
  assumes setting: "flight_setting env digest st request_of" and phases: "flight_phases env request_of s"
    and inv: "flight_cache env digest st request_of s"
    and step: "fl_phase s t = Fetching" "request_of t = (key, md)" "archive_request env key md = Inr expected"
    and run: "download env st key md expected (archive_path st key) (fl_storage s) = (r, storage)"
  shows "flight_cache env digest st request_of (set_phase t (Leaving (map_sum id (\<lambda>_. archive_path st key) r))
      (s\<lparr>fl_storage := storage, fl_downloaded := (if is_ok r then key # fl_downloaded s else fl_downloaded s)\<rparr>))"
    (is "flight_cache _ _ _ _ ?s")
  unfolding flight_cache_def
proof (intro conjI allI)
  note laws = flight_settingD(2,3) [OF setting]
  note valid = archive_request_ok [OF step(3)]
  note other = other_archive_sound [OF setting valid run]
  have new: "key \<notin> set (fl_downloaded s)" using fetched_is_new [OF setting inv step(1)] step(2) by simp
  obtain m where held: "ls_task (fl_locks s) t = Holding key m"
    using flight_phasesD(2) [OF phases, of t] step by (auto simp: phase_lock_def)
  show "fl_phase ?s u = Fetching \<longrightarrow> \<not> archive_sound env digest st (request_of u) (fl_storage ?s)" for u
  proof (cases "u = t")
    case False
    show ?thesis
    proof
      assume "fl_phase ?s u = Fetching"
      then have u: "fl_phase s u = Fetching" using False by simp
      then obtain m' where "ls_task (fl_locks s) u = Holding (fst (request_of u)) m'"
        using flight_phasesD(2) [OF phases, of u] by (auto simp: phase_lock_def)
      then have "fst (request_of u) \<noteq> key"
        using holding_unique [OF locks.reach_inv [OF flight_phasesD(1) [OF phases]] held, of u m'] False by auto
      then show "\<not> archive_sound env digest st (request_of u) (fl_storage ?s)" using other flight_cacheD(1) [OF inv u] by simp
    qed
  qed simp
  show "\<forall>k \<in> set (fl_downloaded ?s). \<exists>u. fst (request_of u) = k \<and> archive_sound env digest st (request_of u) (fl_storage ?s)"
  proof
    fix k
    assume k: "k \<in> set (fl_downloaded ?s)"
    show "\<exists>u. fst (request_of u) = k \<and> archive_sound env digest st (request_of u) (fl_storage ?s)"
    proof (cases "k = key")
      case True
      then have "is_ok r" using k new by (auto split: if_splits)
      then obtain x where "r = Inr x" by (cases r) auto
      with download_sound [of env st key md expected "fl_storage s" x storage, OF _ laws valid] run
      have "archive_sound env digest st (request_of t) storage" using step(2,3) by (simp add: archive_sound_def)
      then show ?thesis using True step(2) by (intro exI [of _ t]) simp
    next
      case False
      then have "k \<in> set (fl_downloaded s)" using k by (auto split: if_splits)
      from flight_cacheD(2) [OF inv this] obtain u
        where "fst (request_of u) = k" "archive_sound env digest st (request_of u) (fl_storage s)" by blast
      then show ?thesis using other [of "request_of u"] False by (intro exI [of _ u]) simp
    qed
  qed
  show "distinct (fl_downloaded ?s)" using flight_cacheD(3) [OF inv] new by simp
qed

lemma flight_cache_step:
  assumes setting: "flight_setting env digest st request_of" and phases: "flight_phases env request_of s"
    and inv: "flight_cache env digest st request_of s" and step: "flight_step env st request_of s s'"
  shows "flight_cache env digest st request_of s'"
proof -
  note look_fs = cached_archive_fs [OF _ flight_settingD(2) [OF setting]]
  note task = flight_cache_task [OF inv]
  from step show ?thesis
  proof cases
    case (refuse t key md e)
    then show ?thesis by (intro task [where t = t and p = "Done (Inl e)"]) simp_all
  next
    case (look t key md expected r storage)
    have "after_look r Missed Done \<noteq> Fetching" by (cases rule: after_look_cases [OF refl, of r Missed Done]) auto
    then show ?thesis using look look_fs [OF look(5)] by (intro task [where t = t and p = "after_look r Missed Done"]) simp_all
  next
    case (enqueue t key md m table)
    then show ?thesis by (intro task [where t = t and p = Locking]) simp_all
  next
    case (lock t key m)
    then show ?thesis by (intro task [where t = t and p = Locking]) auto
  next
    case (look_again t key md m expected r storage)
    have "\<not> archive_sound env digest st (request_of t) (fl_storage s)" if "after_look r Fetching Leaving = Fetching"
    proof (cases rule: after_look_cases [OF refl, of r Fetching Leaving])
      case 1
      have "\<not> sound_file digest (ps_max_archive_bytes st) expected (w_fs (fl_storage s)) (archive_path st key)"
        using cached_archive_miss [OF flight_settingD(1,3,2) [OF setting]] look_again(6) 1(1) by blast
      then show ?thesis using look_again by (simp add: archive_sound_def)
    qed (use that in simp)
    then show ?thesis using look_again look_fs [OF look_again(6)]
      by (intro task [where t = t and p = "after_look r Fetching Leaving"]) simp_all
  next
    case (fetch t key md expected r storage)
    show ?thesis unfolding fetch(1) by (rule flight_cache_fetch [OF setting phases inv fetch(2-5)])
  next
    case (unlock t r key m)
    then show ?thesis by (intro task [where t = t and p = "Leaving r"]) auto
  next
    case (drop_entry t r key m)
    then show ?thesis by (intro task [where t = t and p = "Leaving r"]) auto
  next
    case (leave t r m)
    then show ?thesis by (intro task [where t = t and p = "Done r"]) simp_all
  qed
qed

lemma flight_cache_init: "flight_init s \<Longrightarrow> flight_cache env digest st request_of s"
  by (simp add: flight_cache_def flight_init_def)

abbreviation flight_reach ::
  "('u, 'c, 'v, 'h, 'y) storage_env_scheme \<Rightarrow> 'c provider_storage \<Rightarrow> ('t \<Rightarrow> archive_key \<times> platform_metadata) \<Rightarrow> ('u, 't) flight_state \<Rightarrow> bool" where
  "flight_reach env st request_of \<equiv> reach flight_init (flight_step env st request_of)"

interpretation flight_phases: inductive_invariant flight_init "flight_step env st request_of" "flight_phases env request_of" for env st request_of
  by unfold_locales (auto intro: flight_phases_init flight_phases_step)

interpretation flight_cache: inductive_invariant flight_init "flight_step env st request_of"
    "\<lambda>s. flight_setting env digest st request_of \<longrightarrow> flight_phases env request_of s \<and> flight_cache env digest st request_of s"
  for env st request_of digest
  by unfold_locales (auto intro: flight_phases_init flight_phases_step flight_cache_init flight_cache_step)

end
