(* ===== verification/Flight_Properties.thy ===== *)
theory Flight_Properties
  imports Single_Flight
begin

text \<open>
  Concurrent loads of archives: some load can always move, every run is finite, and no archive is downloaded
  twice.
\<close>

section \<open>Progress\<close>

text \<open>The steps that a load has left.\<close>

fun steps_left :: "load_phase \<Rightarrow> 'k task \<Rightarrow> nat" where
  "steps_left Entering _ = 8"
| "steps_left Missed _ = 7"
| "steps_left Locking (Waiting _ _) = 6"
| "steps_left Locking _ = 5"
| "steps_left Fetching _ = 4"
| "steps_left (Leaving _) (Holding _ _) = 3"
| "steps_left (Leaving _) (Releasing _ _) = 2"
| "steps_left (Leaving _) _ = 1"
| "steps_left (Done _) _ = 0"

abbreviation load_steps_left :: "('u, 't) flight_state \<Rightarrow> 't \<Rightarrow> nat" where
  "load_steps_left s t \<equiv> steps_left (fl_phase s t) (ls_task (fl_locks s) t)"

lemma steps_left_look:
  "steps_left (after_look r Missed Done) task < 8" "steps_left (after_look r Fetching Leaving) task < 5"
proof -
  show "steps_left (after_look r Missed Done) task < 8" by (cases rule: after_look_cases [OF refl, of r Missed Done]) auto
  have "steps_left (Leaving res) task < 5" for res by (cases task) auto
  then show "steps_left (after_look r Fetching Leaving) task < 5"
    by (cases rule: after_look_cases [OF refl, of r Fetching Leaving]) auto
qed

lemma flight_step_left:
  assumes "flight_phases env request_of s" and "flight_step env st request_of s s'"
  shows "\<exists>t. load_steps_left s' t < load_steps_left s t \<and> (\<forall>u. u \<noteq> t \<longrightarrow> load_steps_left s' u = load_steps_left s u)"
  using assms(2)
proof cases
  case (look_again t key m md expected r storage)
  then show ?thesis using steps_left_look(2) by (intro exI [of _ t]) auto
next
  case (look t key md expected r storage)
  then show ?thesis using steps_left_look(1) by (intro exI [of _ t]) auto
next
  case (fetch t key md expected r storage)
  have "steps_left (Leaving res) task < 4" for res and task :: "archive_key task" by (cases task) auto
  then show ?thesis using fetch by (intro exI [of _ t]) auto
qed auto

text \<open>Unless all loads are done one of them can move.\<close>

lemma holder_progress:
  assumes inv: "flight_phases env request_of s" and holding: "ls_task (fl_locks s) u = Holding k m"
  shows "\<exists>s'. flight_step env st request_of s s'"
proof -
  obtain key md where request: "request_of u = (key, md)" by fastforce
  have fine: "\<exists>expected. archive_request env key md = Inr expected" if "fl_phase s u \<in> {Missed, Locking, Fetching}"
    using flight_phasesD(3) [OF inv that] request by (cases "archive_request env key md") auto
  note phase = flight_phasesD(2) [OF inv, of u]
  show ?thesis
  proof (cases "fl_phase s u")
    case Locking
    then have "k = key" using phase holding request by (auto simp: phase_lock_def)
    moreover obtain r storage expected where "archive_request env key md = Inr expected"
      "cached_archive env st key expected (archive_path st key) (fl_storage s) = (r, storage)" using fine Locking by fastforce
    ultimately show ?thesis using flight_step.look_again [where request_of = request_of, OF Locking _ request] holding by blast
  next
    case Fetching
    moreover obtain r storage expected where "archive_request env key md = Inr expected"
      "download env st key md expected (archive_path st key) (fl_storage s) = (r, storage)" using fine Fetching by fastforce
    ultimately show ?thesis using flight_step.fetch [where request_of = request_of, OF Fetching request] by blast
  next
    case (Leaving r)
    then show ?thesis using flight_step.unlock [where request_of = request_of, OF Leaving holding] by blast
  qed (use phase holding in \<open>auto simp: phase_lock_def\<close>)
qed

text \<open>A task before its first look can take it; one that waits for a lock can take it, or its holder can move.\<close>

lemma entering_progress:
  assumes "fl_phase s t = Entering"
  shows "\<exists>s'. flight_step env st request_of s s'"
proof -
  obtain key md where request: "request_of t = (key, md)" by fastforce
  obtain r storage where "cached_archive env st key expected (archive_path st key) (fl_storage s) = (r, storage)"
    if "archive_request env key md = Inr expected" for expected by (cases "archive_request env key md") (auto simp: prod_eq_iff)
  then show ?thesis
    using flight_step.refuse [where request_of = request_of, OF assms request] flight_step.look [where request_of = request_of, OF assms request]
    by (cases "archive_request env key md") blast+
qed

lemma waiting_progress:
  assumes inv: "flight_phases env request_of s" and t: "fl_phase s t = Locking" "ls_task (fl_locks s) t = Waiting k m"
  shows "\<exists>s'. flight_step env st request_of s s'"
proof (cases "ls_owner (fl_locks s) m")
  case None
  then show ?thesis using flight_step.lock [where request_of = request_of, OF t] by blast
next
  case (Some u)
  then show ?thesis
    using owners.reach_inv [OF flight_phasesD(1) [OF inv]] holder_progress [OF inv] unfolding owners_hold_def by blast
qed

lemma flight_progress:
  assumes inv: "flight_phases env request_of s" and t: "\<And>r. fl_phase s t \<noteq> Done r"
  shows "\<exists>s'. flight_step env st request_of s s'"
proof -
  obtain key md where request: "request_of t = (key, md)" by fastforce
  note phase = flight_phasesD(2) [OF inv, of t]
  show ?thesis
  proof (cases "fl_phase s t")
    case Missed
    obtain m table where "lock_for (ls_table (fl_locks s)) key = (m, table)" by fastforce
    then show ?thesis using flight_step.enqueue [where request_of = request_of, OF Missed request] by blast
  next
    case Locking
    then show ?thesis using phase waiting_progress [OF inv Locking] holder_progress [OF inv] by (auto simp: phase_lock_def)
  next
    case Fetching
    then show ?thesis using phase holder_progress [OF inv] by (auto simp: phase_lock_def)
  next
    case (Leaving r)
    show ?thesis
    proof (cases "ls_task (fl_locks s) t")
      case (Releasing k m)
      then show ?thesis using flight_step.drop_entry [where request_of = request_of, OF Leaving] by blast
    next
      case (Checked m)
      then show ?thesis using flight_step.leave [where request_of = request_of, OF Leaving] by blast
    qed (use phase Leaving holder_progress [OF inv] in \<open>auto simp: phase_lock_def\<close>)
  qed (simp_all add: entering_progress t)
qed

text \<open>So a run of finitely many loads is finite.\<close>

lemma flight_run_length:
  fixes s s0 :: "('u, 't::finite) flight_state"
  assumes "(flight_step env st request_of ^^ n) s0 s" and "flight_phases env request_of s0"
  shows "flight_phases env request_of s \<and> n + (\<Sum>t \<in> UNIV. load_steps_left s t) \<le> (\<Sum>t \<in> UNIV. load_steps_left s0 t)"
  using assms(1)
proof (induction n arbitrary: s)
  case 0
  then show ?case using assms(2) by simp
next
  case (Suc n)
  then obtain s1 where run: "(flight_step env st request_of ^^ n) s0 s1" and step: "flight_step env st request_of s1 s" by auto
  from Suc.IH [OF run] have phases: "flight_phases env request_of s1"
    and sum: "n + (\<Sum>t \<in> UNIV. load_steps_left s1 t) \<le> (\<Sum>t \<in> UNIV. load_steps_left s0 t)" by auto
  from flight_step_left [OF phases step] obtain t where t: "load_steps_left s t < load_steps_left s1 t"
    "\<forall>u. u \<noteq> t \<longrightarrow> load_steps_left s u = load_steps_left s1 u" by blast
  have "(\<Sum>u \<in> UNIV. load_steps_left s u) < (\<Sum>u \<in> UNIV. load_steps_left s1 u)"
    by (rule sum_strict_mono_ex1) (use t in \<open>auto intro: le_less_trans order.strict_implies_order simp: le_less\<close>)
  with sum flight_phases_step [OF phases step] show ?case by simp
qed

lemma flight_done: "\<forall>t. \<exists>r. fl_phase s t = Done r \<Longrightarrow> \<not> flight_step env st request_of s s'"
proof
  assume all: "\<forall>t. \<exists>r. fl_phase s t = Done r" and step: "flight_step env st request_of s s'"
  from all obtain r where "\<And>t. fl_phase s t = Done (r t)" by metis
  with step show False by cases simp_all
qed

section \<open>Two loads of one archive\<close>

lemma cached_archive_missing:
  assumes "\<And>tick. env_io env tick = None" "ps_bundled_mirror st = None" "w_fs s destination = None"
  shows "\<exists>s'. cached_archive env st key expected destination s = (Inr None, s') \<and> w_fs s' = w_fs s"
  using assms by (simp add: cached_archive_def bundled_path_def archive_matches_checksum_def symlink_metadata_def io_op_def
      op_catch_def op_bind_def op_ok_def)

definition toy_flight_state :: "(string \<times> string \<times> string, bool) flight_state" where
  "toy_flight_state = \<lparr>fl_storage = toy_storage_state\<lparr>w_fs := (\<lambda>_. None)\<rparr>,
     fl_locks = \<lparr>ls_table = empty_lock_table, ls_owner = (\<lambda>_. None), ls_task = (\<lambda>_. Idle)\<rparr>,
     fl_phase = (\<lambda>_. Entering), fl_downloaded = []\<rparr>"

abbreviation toy_request :: "bool \<Rightarrow> archive_key \<times> platform_metadata" where
  "toy_request \<equiv> \<lambda>_. (toy_key, toy_platform)"

lemma toy_flight_init: "flight_init toy_flight_state"
  by (simp add: flight_init_def lock_init_def toy_flight_state_def)

lemma toy_archive_request: "archive_request toy_storage_env toy_key toy_platform = Inr (toy_digest [])"
  using toy_key_valid toy_checksum by (simp add: archive_request_def toy_key_def toy_platform_def)

lemma toy_flight_setting: "flight_setting toy_storage_env toy_digest toy_storage toy_request"
proof -
  have "env_io toy_storage_env tick = None" for tick
    by (simp add: toy_storage_env_def metadata_env.defs registry_env.defs toy_metadata_env_def toy_env_def)
  moreover have "proper_dir (ps_root toy_storage)"
    by (simp add: toy_storage_def with_bundled_mirror_and_outbound_def storage_build_def proper_dir_def)
  ultimately show ?thesis using toy_sha_laws toy_bound by (simp add: flight_setting_def)
qed

text \<open>One load fetches the archive while the other waits for the lock.\<close>

lemma toy_flight:
  "\<exists>s. (flight_step toy_storage_env toy_storage toy_request ^^ 6) toy_flight_state s \<and>
     fl_phase s False = Fetching \<and> fl_phase s True = Locking"
proof -
  let ?step = "flight_step toy_storage_env toy_storage toy_request"
  let ?look = "cached_archive toy_storage_env toy_storage toy_key (toy_digest []) (archive_path toy_storage toy_key)"
  note flight = flight_step.intros [where request_of = toy_request and env = toy_storage_env and st = toy_storage]
  have "env_io toy_storage_env tick = None" for tick by (rule flight_settingD(1) [OF toy_flight_setting])
  moreover have "ps_bundled_mirror toy_storage = None"
    by (simp add: toy_storage_def with_bundled_mirror_and_outbound_def storage_build_def)
  ultimately have miss: "\<exists>s'. ?look s = (Inr None, s') \<and> w_fs s' = (\<lambda>_. None)" if "w_fs s = (\<lambda>_. None)" for s
    using cached_archive_missing [of toy_storage_env toy_storage s "archive_path toy_storage toy_key"] that by simp
  define s0 where "s0 = toy_flight_state"
  have "w_fs (fl_storage s0) = (\<lambda>_. None)" by (simp add: s0_def toy_flight_state_def)
  from miss [OF this] obtain a where a: "?look (fl_storage s0) = (Inr None, a)" "w_fs a = (\<lambda>_. None)" by blast
  from miss [OF a(2)] obtain b where b: "?look a = (Inr None, b)" "w_fs b = (\<lambda>_. None)" by blast
  from miss [OF b(2)] obtain c where c: "?look b = (Inr None, c)" by blast
  define t1 where "t1 = snd (lock_for empty_lock_table toy_key)"
  have t1: "lock_for empty_lock_table toy_key = (0, t1)" by (simp add: t1_def lock_for_def empty_lock_table_def Let_def)
  define t2 where "t2 = snd (lock_for t1 toy_key)"
  have t2: "lock_for t1 toy_key = (0, t2)" by (simp add: t2_def t1_def lock_for_def empty_lock_table_def Let_def)
  note toy_flight_state_def [simp] after_look_def [simp]
  define s1 where "s1 = set_phase False Missed (s0\<lparr>fl_storage := a\<rparr>)"
  define s2 where "s2 = set_phase True Missed (s1\<lparr>fl_storage := b\<rparr>)"
  define s3 where "s3 = set_phase False Locking (s2\<lparr>fl_locks := (fl_locks s2)
    \<lparr>ls_table := t1, ls_task := (ls_task (fl_locks s2))(False := Waiting toy_key 0)\<rparr>\<rparr>)"
  define s4 where "s4 = set_phase True Locking (s3\<lparr>fl_locks := (fl_locks s3)
    \<lparr>ls_table := t2, ls_task := (ls_task (fl_locks s3))(True := Waiting toy_key 0)\<rparr>\<rparr>)"
  define s5 where "s5 = s4\<lparr>fl_locks := (fl_locks s4)
    \<lparr>ls_owner := (ls_owner (fl_locks s4))(0 := Some False), ls_task := (ls_task (fl_locks s4))(False := Holding toy_key 0)\<rparr>\<rparr>"
  define s6 where "s6 = set_phase False Fetching (s5\<lparr>fl_storage := c\<rparr>)"
  have "?step s0 s1" using flight(2) [OF _ refl toy_archive_request, of s0 False "Inr None" a] a by (simp add: s1_def s0_def)
  moreover have "?step s1 s2"
    using flight(2) [OF _ refl toy_archive_request, of s1 True "Inr None" b] b by (simp add: s2_def s1_def s0_def)
  moreover have "?step s2 s3" unfolding s3_def by (rule flight(3)) (simp_all add: s2_def s1_def s0_def t1)
  moreover have "?step s3 s4" unfolding s4_def by (rule flight(3)) (simp_all add: s3_def s2_def s1_def s0_def t2)
  moreover have "?step s4 s5" unfolding s5_def by (rule flight(4)) (simp_all add: s4_def s3_def s2_def s1_def s0_def)
  moreover have "?step s5 s6"
    using flight(5) [OF _ _ refl toy_archive_request, of s5 False 0 "Inr None" c] c
    by (simp add: s6_def s5_def s4_def s3_def s2_def s1_def s0_def)
  ultimately have "(?step ^^ 6) s0 s6" by (simp add: eval_nat_numeral) (blast intro: relcomppI)
  moreover have "fl_phase s6 False = Fetching" "fl_phase s6 True = Locking"
    by (simp_all add: s6_def s5_def s4_def s3_def s2_def s1_def s0_def)
  ultimately show ?thesis unfolding s0_def by blast
qed

lemma flight_steps_reach: "flight_init s0 \<Longrightarrow> (flight_step env st request_of ^^ n) s0 s \<Longrightarrow> flight_reach env st request_of s"
  by (induction n arbitrary: s) (auto intro: reach.intros)

section \<open>Properties\<close>

text \<open>C12: each archive is downloaded once. However the loads of any number of tasks interleave, no archive is
  successfully downloaded twice; while one task downloads an archive, it holds the lock of its key, no other task
  downloads it, and no sound copy of it is in the cache.\<close>

theorem archive_downloaded_once:
  assumes "flight_setting env digest st request_of" and "flight_reach env st request_of s"
  shows "distinct (fl_downloaded s) \<and>
    (\<forall>t. fl_phase s t = Fetching \<longrightarrow>
       (\<exists>m. ls_task (fl_locks s) t = Holding (fst (request_of t)) m) \<and>
       (\<forall>u. fl_phase s u = Fetching \<and> fst (request_of u) = fst (request_of t) \<longrightarrow> u = t) \<and>
       fst (request_of t) \<notin> set (fl_downloaded s) \<and>
       \<not> archive_sound env digest st (request_of t) (fl_storage s))"
proof -
  have phases: "flight_phases env request_of s" and cache: "flight_cache env digest st request_of s"
    using flight_cache.reach_inv [OF assms(2)] assms(1) by blast+
  have held: "\<exists>m. ls_task (fl_locks s) t = Holding (fst (request_of t)) m" if "fl_phase s t = Fetching" for t
    using flight_phasesD(2) [OF phases, of t] that by (simp add: phase_lock_def)
  have one: "u = t" if "fl_phase s u = Fetching" "fl_phase s t = Fetching" "fst (request_of u) = fst (request_of t)" for t u
    using held [OF that(1)] held [OF that(2)] that(3) holding_unique [OF locks.reach_inv [OF flight_phasesD(1) [OF phases]]] by metis
  show ?thesis using held one fetched_is_new [OF assms(1) cache] flight_cacheD(1,3) [OF cache] by blast
qed

theorem archive_downloaded_once_witness:
  "\<exists>s. flight_reach toy_storage_env toy_storage toy_request s \<and> fl_phase s False = Fetching \<and> fl_phase s True = Locking \<and>
     (\<exists>m. ls_task (fl_locks s) False = Holding toy_key m) \<and> distinct (fl_downloaded s)"
proof -
  obtain s where s: "(flight_step toy_storage_env toy_storage toy_request ^^ 6) toy_flight_state s"
    "fl_phase s False = Fetching" "fl_phase s True = Locking" using toy_flight by blast
  from flight_steps_reach [OF toy_flight_init s(1)] have "flight_reach toy_storage_env toy_storage toy_request s" .
  with archive_downloaded_once [OF toy_flight_setting this] s(2,3) show ?thesis by (metis fst_conv)
qed

text \<open>C13: concurrent loads finish. If every look at the cache and every download ends, with success or not, then the tasks
  take at most eight steps each, and as long as a task is not done some task can move: the locks do not deadlock.\<close>

theorem concurrent_loads_finish:
  fixes s0 s :: "('u, 't::finite) flight_state"
  assumes "flight_init s0" and "(flight_step env st request_of ^^ n) s0 s"
  shows "n \<le> 8 * CARD('t) \<and> ((\<exists>s'. flight_step env st request_of s s') \<longleftrightarrow> \<not> (\<forall>t. \<exists>r. fl_phase s t = Done r))"
proof -
  have "n + (\<Sum>t \<in> UNIV. load_steps_left s t) \<le> (\<Sum>t \<in> (UNIV :: 't set). 8)" and phases: "flight_phases env request_of s"
    using flight_run_length [OF assms(2) flight_phases_init [OF assms(1)]] assms(1) by (simp_all add: flight_init_def)
  then have "n \<le> 8 * CARD('t)" by simp
  then show ?thesis using flight_progress [OF phases] flight_done [of s] by blast
qed

theorem concurrent_loads_finish_witness:
  "\<exists>s s'. (flight_step toy_storage_env toy_storage toy_request ^^ 6) toy_flight_state s \<and>
     flight_step toy_storage_env toy_storage toy_request s s'"
proof -
  obtain s where s: "(flight_step toy_storage_env toy_storage toy_request ^^ 6) toy_flight_state s" "fl_phase s True = Locking"
    using toy_flight by blast
  have "\<not> (\<forall>t. \<exists>r. fl_phase s t = Done r)" using s(2) by (auto intro!: exI [of _ True])
  then have "\<exists>s'. flight_step toy_storage_env toy_storage toy_request s s'"
    using concurrent_loads_finish [OF toy_flight_init s(1), THEN conjunct2] by simp
  with s(1) show ?thesis by blast
qed

end
