(* ===== verification/Lone_Load.thy ===== *)
theory Lone_Load
  imports Flight_Properties
begin

text \<open>
  The steps of a load that runs alone compose to \<open>load_or_fetch\<close>: the model that interleaves the loads of many
  tasks and the operation that the handlers call describe the same code. The lock table is part of the state of
  the storage in one model and of the loads in the other; no operation on files, downloads or verified files
  depends on it.
\<close>

section \<open>Definitions\<close>

text \<open>What \<open>load_or_fetch\<close> does, apart from the lock.\<close>

definition unlocked_load ::
  "('u, 'c, 'v, 'h, 'y) storage_env_scheme \<Rightarrow> 'c provider_storage \<Rightarrow> archive_key \<Rightarrow> platform_metadata \<Rightarrow>
     (('u, 'z) storage_state_scheme, storage_error, string) oper" where
  "unlocked_load env st key md =
     op_bind (op_result (archive_request env key md)) (\<lambda>expected.
     op_bind (cached_archive env st key expected (archive_path st key)) (\<lambda>hit. case hit of
       Some path \<Rightarrow> op_ok path
     | None \<Rightarrow>
         op_bind (cached_archive env st key expected (archive_path st key)) (\<lambda>hit. case hit of
           Some path \<Rightarrow> op_ok path
         | None \<Rightarrow> op_bind (download env st key md expected (archive_path st key)) (\<lambda>_. op_ok (archive_path st key)))))"

text \<open>An operation that does the same in a state updated by \<open>u\<close>.\<close>

definition indifferent :: "('s \<Rightarrow> 's) \<Rightarrow> ('s, 'e, 'a) oper \<Rightarrow> bool" where
  "indifferent u f \<longleftrightarrow> (\<forall>s. f (u s) = map_prod id u (f s))"

abbreviation put_locks :: "archive_key lock_table \<Rightarrow> ('u, 'z) storage_state_scheme \<Rightarrow> ('u, 'z) storage_state_scheme" where
  "put_locks L s \<equiv> s\<lparr>ss_locks := L\<rparr>"

section \<open>Lemmas\<close>

lemma indifferent_pure:
  "indifferent u (op_ok a)" "indifferent u (op_err e)" "indifferent u (op_result r)"
  by (simp_all add: indifferent_def op_defs)

lemma indifferent_get: "(\<And>s. g (u s) = g s) \<Longrightarrow> indifferent u (op_get g)"
  by (simp add: indifferent_def op_get_def)

lemma indifferent_modify: "(\<And>s. h (u s) = u (h s)) \<Longrightarrow> indifferent u (op_modify h)"
  by (simp add: indifferent_def op_modify_def)

lemma indifferent_bind: "indifferent u f \<Longrightarrow> (\<And>a. indifferent u (g a)) \<Longrightarrow> indifferent u (op_bind f g)"
  unfolding indifferent_def op_bind_def by (fastforce split: prod.splits sum.splits)

lemma indifferent_catch: "indifferent u f \<Longrightarrow> (\<And>r. indifferent u (g r)) \<Longrightarrow> indifferent u (op_catch f g)"
  unfolding indifferent_def op_catch_def by (fastforce split: prod.splits)

lemma indifferent_map_err: "indifferent u f \<Longrightarrow> indifferent u (op_map_err h f)"
  unfolding indifferent_def op_map_err_def by (fastforce split: prod.splits)

lemma indifferent_cases:
  "indifferent u f \<Longrightarrow> indifferent u g \<Longrightarrow> indifferent u (if b then f else g)"
  "indifferent u f \<Longrightarrow> (\<And>x. indifferent u (h x)) \<Longrightarrow> indifferent u (case opt of None \<Rightarrow> f | Some x \<Rightarrow> h x)"
  "(\<And>y. indifferent u (k y)) \<Longrightarrow> (\<And>x. indifferent u (h x)) \<Longrightarrow> indifferent u (case res of Inl y \<Rightarrow> k y | Inr x \<Rightarrow> h x)"
  "indifferent u f \<Longrightarrow> (\<And>x. indifferent u (j x)) \<Longrightarrow> indifferent u (case io of IoNotFound \<Rightarrow> f | IoOther x \<Rightarrow> j x)"
  "(\<And>b stamp. indifferent u (l b stamp)) \<Longrightarrow> indifferent u f \<Longrightarrow> indifferent u (case node of File b stamp \<Rightarrow> l b stamp | _ \<Rightarrow> f)"
  "(\<And>x y. indifferent u (p x y)) \<Longrightarrow> indifferent u (case pair of (x, y) \<Rightarrow> p x y)"
  by (auto split: option.splits sum.splits io_error.splits node.splits prod.splits)

lemma indifferent_world:
  "indifferent (put_locks L) (io_op env act)" "indifferent (put_locks L) (http_get env client url timeout)"
  "indifferent (put_locks L) next_storage_sequence"
  by (auto simp: indifferent_def io_op_def http_get_def next_storage_sequence_def split: option.splits sum.splits prod.splits)

lemma indifferent_hash_loop:
  fixes env :: "('u, 'c, 'v, 'h, 'y) storage_env_scheme"
  shows "indifferent (put_locks L) (hash_loop env max_bytes hasher count rest :: (('u, 'z) storage_state_scheme, _, _) oper)"
proof -
  have read: "read_chunk env rest (put_locks L s) = map_prod id (put_locks L) (read_chunk env rest s)"
    for env :: "('u, 'c, 'v, 'h, 'y) storage_env_scheme" and rest and s :: "('u, 'z) storage_state_scheme"
    using indifferent_world(1) unfolding indifferent_def read_chunk_def by blast
  have "hash_loop env max_bytes hasher count rest (put_locks L s) = map_prod id (put_locks L) (hash_loop env max_bytes hasher count rest s)"
    for s :: "('u, 'z) storage_state_scheme"
  proof (induction env max_bytes hasher count rest s rule: hash_loop.induct)
    case (1 env max_bytes hasher count rest s)
    obtain r s' where r: "read_chunk env rest s = (r, s')" by fastforce
    then have "read_chunk env rest (put_locks L s) = (r, put_locks L s')" by (simp add: read)
    with r 1 show ?case by (subst (1 2) hash_loop.simps) (cases r; simp add: Let_def id_def)
  qed
  then show ?thesis by (simp add: indifferent_def)
qed

lemmas indifferent_rules = indifferent_pure indifferent_bind indifferent_catch indifferent_map_err indifferent_cases
  indifferent_world indifferent_hash_loop

lemma indifferent_verified:
  "indifferent (put_locks L) (record_verified path identity expected)" "indifferent (put_locks L) (forget_verified path)"
  "indifferent (put_locks L) (op_get (is_verified path identity expected))"
  unfolding record_verified_def forget_verified_def
  by (auto intro!: indifferent_modify indifferent_get simp: is_verified_def)

lemma indifferent_cached_archive: "indifferent (put_locks L) (cached_archive env st key expected destination)"
proof -
  have "indifferent (put_locks L) (archive_matches_checksum env st path expected)" for path
    unfolding archive_matches_checksum_def symlink_metadata_def hash_file_def open_file_def file_step_def
    by (intro indifferent_rules indifferent_verified)
  then show ?thesis unfolding cached_archive_def by (intro indifferent_rules)
qed

lemma indifferent_receive: "indifferent (put_locks L) (receive env temp max_bytes hasher count chunks)"
  by (induction env temp max_bytes hasher count chunks rule: receive.induct)
    (auto simp: Let_def append_file_def intro!: indifferent_rules)

lemma indifferent_permit:
  assumes "indifferent (put_locks L) body"
  shows "indifferent (put_locks L) (with_permit body)"
  unfolding indifferent_def
proof
  fix s :: "('a, 'b) storage_state_scheme"
  have "(put_locks L s)\<lparr>ss_permits := n\<rparr> = put_locks L (s\<lparr>ss_permits := n\<rparr>)" for n by simp
  then have "body ((put_locks L s)\<lparr>ss_permits := n\<rparr>) = map_prod id (put_locks L) (body (s\<lparr>ss_permits := n\<rparr>))" for n
    using assms unfolding indifferent_def by metis
  then show "with_permit body (put_locks L s) = map_prod id (put_locks L) (with_permit body s)"
    by (simp add: with_permit_unfold split: prod.splits)
qed

lemma indifferent_download: "indifferent (put_locks L) (download env st key md expected destination)"
proof -
  have "indifferent (put_locks L) (download_with_permit env st key url expected destination)" for url
    unfolding download_with_permit_def with_temp_cleanup_def fetch_to_def sync_parent_def create_new_file_def create_dir_all_def
      remove_file_def rename_file_def open_file_def file_step_def record_downloaded_def symlink_metadata_def Let_def
    by (intro indifferent_rules indifferent_receive indifferent_verified)
  then have "indifferent (put_locks L) (with_permit (download_with_permit env st key url expected destination))" for url
    by (rule indifferent_permit)
  then show ?thesis unfolding download_def by (intro indifferent_rules)
qed

text \<open>The lock changes the lock table only.\<close>

lemma load_or_fetch_unlocked:
  fixes s :: "('u, 'z) storage_state_scheme"
  shows "fst (load_or_fetch env st key md s) = fst (unlocked_load env st key md s) \<and>
   put_locks L (snd (load_or_fetch env st key md s)) = put_locks L (snd (unlocked_load env st key md s))"
proof (cases "archive_request env key md")
  case (Inr expected)
  define look where "look = (cached_archive env st key expected (archive_path st key) :: (('u, 'z) storage_state_scheme, _, _) oper)"
  define body where "body = op_bind look (\<lambda>hit. case hit of
      Some path \<Rightarrow> op_ok path
    | None \<Rightarrow> op_bind (download env st key md expected (archive_path st key)) (\<lambda>_. op_ok (archive_path st key)))"
  have "indifferent (put_locks table) body" for table
    unfolding body_def look_def by (intro indifferent_rules indifferent_cached_archive indifferent_download)
  then have body: "body (put_locks table s1) = map_prod id (put_locks table) (body s1)" for table s1
    by (simp add: indifferent_def)
  have load: "load_or_fetch env st key md = op_bind look (\<lambda>hit. case hit of Some path \<Rightarrow> op_ok path | None \<Rightarrow> with_archive_lock key body)"
    unfolding load_or_fetch_request body_def look_def using Inr by (simp add: locked_load_or_fetch_def)
  have unlocked: "unlocked_load env st key md = op_bind look (\<lambda>hit. case hit of Some path \<Rightarrow> op_ok path | None \<Rightarrow> body)"
    unfolding unlocked_load_def body_def look_def using Inr by simp
  have lock: "fst (with_archive_lock key body s1) = fst (body s1) \<and> put_locks L (snd (with_archive_lock key body s1)) = put_locks L (snd (body s1))" for s1
    by (cases "body s1") (simp add: with_archive_lock_def body split: prod.splits)
  obtain r s1 where "look s = (r, s1)" by fastforce
  then show ?thesis unfolding load unlocked using lock [of s1] by (simp add: op_bind_def op_ok_def split: sum.splits option.splits)
qed (simp add: load_or_fetch_request unlocked_load_def)

subsection \<open>Runs\<close>

text \<open>What the only task has done so far.\<close>

definition lone_load ::
  "('u, 'c, 'v, 'h, 'y) storage_env_scheme \<Rightarrow> 'c provider_storage \<Rightarrow> archive_key \<Rightarrow> platform_metadata \<Rightarrow> 'u storage_state \<Rightarrow>
     load_phase \<Rightarrow> 'u storage_state \<Rightarrow> bool" where
  "lone_load env st key md s0 phase s \<longleftrightarrow>
     (let look = (\<lambda>expected. cached_archive env st key expected (archive_path st key)) in
      case phase of
        Entering \<Rightarrow> s = s0
      | Missed \<Rightarrow> \<exists>expected. archive_request env key md = Inr expected \<and> look expected s0 = (Inr None, s)
      | Locking \<Rightarrow> \<exists>expected. archive_request env key md = Inr expected \<and> look expected s0 = (Inr None, s)
      | Fetching \<Rightarrow> \<exists>expected s1. archive_request env key md = Inr expected \<and> look expected s0 = (Inr None, s1) \<and>
          look expected s1 = (Inr None, s)
      | Leaving r \<Rightarrow> unlocked_load env st key md s0 = (r, s)
      | Done r \<Rightarrow> unlocked_load env st key md s0 = (r, s))"

lemma lone_load_step:
  assumes inv: "lone_load env st key md s0 (fl_phase s ()) (fl_storage s)"
    and step: "flight_step env st (\<lambda>_. (key, md)) s s'"
  shows "lone_load env st key md s0 (fl_phase s' ()) (fl_storage s')"
  using step
proof cases
  case (refuse t key' md' e)
  then show ?thesis using inv by (simp add: lone_load_def unlocked_load_def op_err_def)
next
  case (look t key' md' expected r storage)
  then have "cached_archive env st key expected (archive_path st key) s0 = (r, storage)" using inv by (simp add: lone_load_def)
  then show ?thesis using look
    by (cases r) (auto simp: lone_load_def unlocked_load_def after_look_def op_run op_ok_def split: option.splits)
next
  case (look_again t key' m md' expected r storage)
  then obtain "cached_archive env st key expected (archive_path st key) s0 = (Inr None, fl_storage s)"
    using inv by (auto simp: lone_load_def)
  then show ?thesis using look_again
    by (cases r) (auto simp: lone_load_def unlocked_load_def after_look_def op_run op_ok_def split: option.splits)
next
  case (fetch t key' md' expected r storage)
  then obtain s1 where "cached_archive env st key expected (archive_path st key) s0 = (Inr None, s1)"
    "cached_archive env st key expected (archive_path st key) s1 = (Inr None, fl_storage s)"
    using inv by (auto simp: lone_load_def)
  then show ?thesis using fetch by (cases r) (auto simp: lone_load_def unlocked_load_def op_run op_ok_def)
qed (use inv in \<open>auto simp: lone_load_def\<close>)

lemma lone_load_run:
  assumes "(flight_step env st (\<lambda>_. (key, md)))\<^sup>*\<^sup>* s0 s" and "fl_phase s0 () = Entering"
  shows "lone_load env st key md (fl_storage s0) (fl_phase s ()) (fl_storage s)"
  using assms(1)
proof (induction rule: rtranclp_induct)
  case base
  then show ?case using assms(2) by (simp add: lone_load_def)
qed (rule lone_load_step)

section \<open>Property\<close>

text \<open>C14: a load without contention is \<open>load_or_fetch\<close>. Every run of the steps of a single load that cannot go on has ended with the
  result of \<open>load_or_fetch\<close> on the initial storage, and has left the files, the sent requests, the verified files, the permits and
  the clock as that operation leaves them.\<close>

theorem lone_load_refines_load_or_fetch:
  fixes s0 s :: "('u, unit) flight_state"
  assumes "flight_init s0" and "(flight_step env st (\<lambda>_. (key, md)))\<^sup>*\<^sup>* s0 s"
    and "\<And>s'. \<not> flight_step env st (\<lambda>_. (key, md)) s s'"
    and "load_or_fetch env st key md (fl_storage s0) = (r, storage)"
  shows "fl_phase s () = Done r \<and> fl_storage s = storage\<lparr>ss_locks := ss_locks (fl_storage s)\<rparr>"
proof -
  have "flight_phases env (\<lambda>_. (key, md)) s"
    using flight_phases.steps_inv [OF flight_phases_init [OF assms(1)] assms(2)] .
  from flight_progress [OF this, of "()" st] assms(3) obtain res where res: "fl_phase s () = Done res" by blast
  have "fl_phase s0 () = Entering" using assms(1) by (simp add: flight_init_def)
  from lone_load_run [OF assms(2) this] have "unlocked_load env st key md (fl_storage s0) = (res, fl_storage s)"
    by (simp add: lone_load_def res)
  with load_or_fetch_unlocked [of env st key md "fl_storage s0" "ss_locks (fl_storage s)"] assms(4) res show ?thesis by simp
qed

theorem lone_load_refines_load_or_fetch_witness:
  "\<exists>s0 s. flight_init s0 \<and> fl_storage s0 = toy_storage_state \<and>
     (flight_step toy_storage_env toy_storage (\<lambda>_. (toy_key, toy_platform)))\<^sup>*\<^sup>* s0 (s :: (_, unit) flight_state) \<and>
     fl_phase s () = Done (Inr (archive_path toy_storage toy_key))"
proof -
  let ?step = "flight_step toy_storage_env toy_storage (\<lambda>_. (toy_key, toy_platform))"
  let ?look = "cached_archive toy_storage_env toy_storage toy_key (toy_digest []) (archive_path toy_storage toy_key)"
  define s0 :: "(string \<times> string \<times> string, unit) flight_state" where
    "s0 = \<lparr>fl_storage = toy_storage_state, fl_locks = \<lparr>ls_table = empty_lock_table, ls_owner = (\<lambda>_. None), ls_task = (\<lambda>_. Idle)\<rparr>,
       fl_phase = (\<lambda>_. Entering), fl_downloaded = []\<rparr>"
  have init: "flight_init s0" by (simp add: s0_def flight_init_def lock_init_def)
  obtain r storage where look: "?look toy_storage_state = (r, storage)" by fastforce
  have "w_fs toy_storage_state (archive_path toy_storage toy_key) = Some (File [] \<lparr>st_modified = None, st_dev = 0, st_ino = 0\<rparr>)"
    by (simp add: toy_storage_state_def initial_storage_state_def metadata_state.defs)
  then have "sound_file toy_digest (ps_max_archive_bytes toy_storage) (toy_digest []) (w_fs toy_storage_state) (archive_path toy_storage toy_key)"
    by (simp add: sound_file_def)
  then have "r \<noteq> Inr None" using cached_archive_miss [OF flight_settingD(1) [OF toy_flight_setting] toy_bound toy_sha_laws] look by blast
  then obtain res where res: "after_look r Missed Done = Done res"
    by (cases rule: after_look_cases [OF refl, of r Missed Done]) auto
  define s where "s = set_phase () (Done res) (s0\<lparr>fl_storage := storage\<rparr>)"
  have "?step s0 (set_phase () (after_look r Missed Done) (s0\<lparr>fl_storage := storage\<rparr>))"
    by (rule flight_step.look [where key = toy_key and md = toy_platform and expected = "toy_digest []"])
      (simp_all add: s0_def look toy_archive_request)
  then have run: "?step\<^sup>*\<^sup>* s0 s" by (simp add: res s_def)
  have stop: "\<not> ?step s s'" for s' by (rule flight_done) (simp add: s_def)
  obtain s' where load: "load_or_fetch toy_storage_env toy_storage toy_key toy_platform (fl_storage s0) =
      (Inr (archive_path toy_storage toy_key), s')" using toy_load by (auto simp: s0_def)
  from lone_load_refines_load_or_fetch [OF init run stop load] init run show ?thesis by (auto simp: s0_def)
qed

end
