(* ===== verification/Stale_Files.thy ===== *)
theory Stale_Files
  imports Archive_Storage
begin

text \<open>
  The removal of temporary files that a crash left behind (\<^verbatim>\<open>storage.rs\<close>: \<open>remove_stale_temp_files\<close>), run
  before the server starts. What the directories hold is a tree, the parameter that stands for what
  \<open>read_dir\<close> lists; listing, inspecting and removing take a tick each and may fail.
\<close>

section \<open>Definitions\<close>

datatype disk = DiskFile | DiskOther | DiskDir "(string \<times> disk) list"

definition read_dir_at ::
  "('u, 'c, 'y) env_scheme \<Rightarrow> disk option \<Rightarrow> (('u, 'z) world_scheme, io_error, (string \<times> disk) list) oper" where
  "read_dir_at env tree = io_op env (\<lambda>_ fs. case tree of
     None \<Rightarrow> Inl IoNotFound
   | Some (DiskDir entries) \<Rightarrow> Inr (entries, fs)
   | Some _ \<Rightarrow> Inl (IoOther ''not a directory''))"

definition is_temp_name :: "string \<Rightarrow> bool" where
  "is_temp_name name \<longleftrightarrow> strip_prefix ''.'' name \<noteq> None \<and> strip_suffix ''.tmp'' name \<noteq> None"

text \<open>The inner function \<open>walk\<close>, on the entries of a directory and on one entry.\<close>

fun walk_entries ::
  "('u, 'c, 'y) env_scheme \<Rightarrow> string \<Rightarrow> (string \<times> disk) list \<Rightarrow> nat \<Rightarrow> (('u, 'z) world_scheme, io_error, nat) oper"
and walk_entry ::
  "('u, 'c, 'y) env_scheme \<Rightarrow> string \<Rightarrow> string \<Rightarrow> disk \<Rightarrow> nat \<Rightarrow> (('u, 'z) world_scheme, io_error, nat) oper" where
  "walk_entries env directory [] removed = op_ok removed"
| "walk_entries env directory ((name, node) # entries) removed =
     op_bind (file_step env) (\<lambda>_.
     op_bind (file_step env) (\<lambda>_.
     op_bind (walk_entry env directory name node removed) (walk_entries env directory entries)))"
| "walk_entry env directory name DiskFile removed =
     (if is_temp_name name then op_bind (remove_file env (path_join directory name)) (\<lambda>_. op_ok (removed + 1))
      else op_ok removed)"
| "walk_entry env directory name DiskOther removed = op_ok removed"
| "walk_entry env directory name (DiskDir entries) removed =
     op_catch (read_dir_at env (Some (DiskDir entries))) (\<lambda>r. case r of
       Inr found \<Rightarrow> walk_entries env (path_join directory name) entries removed
     | Inl IoNotFound \<Rightarrow> op_ok removed
     | Inl e \<Rightarrow> op_err e)"

definition walk ::
  "('u, 'c, 'y) env_scheme \<Rightarrow> string \<Rightarrow> disk option \<Rightarrow> nat \<Rightarrow> (('u, 'z) world_scheme, io_error, nat) oper" where
  "walk env directory tree removed =
     op_catch (read_dir_at env tree) (\<lambda>r. case r of
       Inr entries \<Rightarrow> walk_entries env directory entries removed
     | Inl IoNotFound \<Rightarrow> op_ok removed
     | Inl e \<Rightarrow> op_err e)"

definition remove_stale_temp_files ::
  "('u, 'c, 'y) env_scheme \<Rightarrow> string \<Rightarrow> disk option \<Rightarrow> disk option \<Rightarrow> (('u, 'z) world_scheme, io_error, nat) oper" where
  "remove_stale_temp_files env data_dir providers metadata =
     op_bind (walk env (path_join data_dir ''providers'') providers 0) (\<lambda>removed.
     walk env (path_join data_dir ''metadata'') metadata removed)"

section \<open>Specification\<close>

text \<open>The paths of the temporary files in a tree, in the order of the walk.\<close>

fun stale_in :: "string \<Rightarrow> (string \<times> disk) list \<Rightarrow> string list" and stale_at :: "string \<Rightarrow> string \<Rightarrow> disk \<Rightarrow> string list" where
  "stale_in directory [] = []"
| "stale_in directory ((name, node) # entries) = stale_at directory name node @ stale_in directory entries"
| "stale_at directory name DiskFile = (if is_temp_name name then [path_join directory name] else [])"
| "stale_at directory name DiskOther = []"
| "stale_at directory name (DiskDir entries) = stale_in (path_join directory name) entries"

definition stale_paths :: "string \<Rightarrow> disk option \<Rightarrow> string list" where
  "stale_paths directory tree = (case tree of Some (DiskDir entries) \<Rightarrow> stale_in directory entries | _ \<Rightarrow> [])"

definition without :: "string set \<Rightarrow> file_system \<Rightarrow> file_system" where
  "without paths fs = (\<lambda>p. if p \<in> paths then None else fs p)"

text \<open>The operation removes some of the files at \<open>paths\<close> and adds their number to its argument.\<close>

definition removes :: "string list \<Rightarrow> (nat \<Rightarrow> (('u, 'z) world_scheme, io_error, nat) oper) \<Rightarrow> bool" where
  "removes paths f \<longleftrightarrow>
     (\<forall>n s r s'. f n s = (r, s') \<longrightarrow>
        (\<exists>gone. set gone \<subseteq> set paths \<and> w_fs s' = without (set gone) (w_fs s) \<and> (\<forall>m. r = Inr m \<longrightarrow> m = n + length gone)))"

text \<open>The operation removes all of them, if they are regular files.\<close>

definition clears :: "string list \<Rightarrow> (nat \<Rightarrow> (('u, 'z) world_scheme, io_error, nat) oper) \<Rightarrow> bool" where
  "clears paths f \<longleftrightarrow>
     (\<forall>n s. distinct paths \<and> (\<forall>p \<in> set paths. \<exists>bytes st. w_fs s p = Some (File bytes st)) \<longrightarrow>
        (\<exists>s'. f n s = (Inr (n + length paths), s') \<and> w_fs s' = without (set paths) (w_fs s)))"

section \<open>Lemmas\<close>

lemma without_simps [simp]: "without {} fs = fs" "without A (without B fs) = without (A \<union> B) fs"
  by (auto simp: without_def)

lemma removes_ok: "removes [] op_ok"
  by (auto simp: removes_def op_ok_def)

lemma removes_bind:
  assumes "removes paths f" "removes paths' g"
  shows "removes (paths @ paths') (\<lambda>n. op_bind (f n) g)"
  unfolding removes_def
proof (intro allI impI)
  fix n s r s' assume run: "op_bind (f n) g s = (r, s')"
  obtain r1 s1 where f: "f n s = (r1, s1)" by fastforce
  with assms(1) obtain gone where gone: "set gone \<subseteq> set paths" "w_fs s1 = without (set gone) (w_fs s)" "\<And>m. r1 = Inr m \<Longrightarrow> m = n + length gone"
    unfolding removes_def by metis
  show "\<exists>gone. set gone \<subseteq> set (paths @ paths') \<and> w_fs s' = without (set gone) (w_fs s) \<and> (\<forall>m. r = Inr m \<longrightarrow> m = n + length gone)"
  proof (cases r1)
    case (Inl e)
    then show ?thesis using run f gone by (auto simp: op_bind_def)
  next
    case (Inr k)
    then have "g k s1 = (r, s')" using run f by (simp add: op_bind_def)
    with assms(2) obtain gone' where "set gone' \<subseteq> set paths'" "w_fs s' = without (set gone') (w_fs s1)" "\<And>m. r = Inr m \<Longrightarrow> m = k + length gone'"
      unfolding removes_def by metis
    with gone Inr show ?thesis by (intro exI [of _ "gone @ gone'"]) (auto simp: Un_commute)
  qed
qed

lemma clears_bind:
  assumes "clears paths f" "clears paths' g"
  shows "clears (paths @ paths') (\<lambda>n. op_bind (f n) g)"
  unfolding clears_def
proof (intro allI impI)
  fix n and s :: "('a, 'b) world_scheme"
  assume *: "distinct (paths @ paths') \<and> (\<forall>p \<in> set (paths @ paths'). \<exists>bytes st. w_fs s p = Some (File bytes st))"
  then obtain s1 where f: "f n s = (Inr (n + length paths), s1)" and s1: "w_fs s1 = without (set paths) (w_fs s)"
    using assms(1) unfolding clears_def by (metis Un_iff distinct_append set_append)
  have "\<forall>p \<in> set paths'. \<exists>bytes st. w_fs s1 p = Some (File bytes st)" using * s1 by (auto simp: without_def)
  with assms(2) * obtain s2 where "g (n + length paths) s1 = (Inr (n + length paths + length paths'), s2)"
    "w_fs s2 = without (set paths') (w_fs s1)" unfolding clears_def by (metis distinct_append)
  with f s1 show "\<exists>s'. op_bind (f n) g s = (Inr (n + length (paths @ paths')), s') \<and> w_fs s' = without (set (paths @ paths')) (w_fs s)"
    by (auto simp: op_bind_def Un_commute)
qed

lemma file_step_run: "file_step env s = (r, s') \<Longrightarrow> w_fs s' = w_fs s"
  by (auto simp: file_step_def io_op_def split: option.splits)

lemma removes_step:
  assumes "removes paths f"
  shows "removes paths (\<lambda>n. op_bind (file_step env) (\<lambda>_. f n))"
  unfolding removes_def
proof (intro allI impI)
  fix n s r s' assume run: "op_bind (file_step env) (\<lambda>_. f n) s = (r, s')"
  obtain r1 s1 where step: "file_step env s = (r1, s1)" by fastforce
  have fs: "w_fs s1 = w_fs s" using file_step_run [OF step] .
  show "\<exists>gone. set gone \<subseteq> set paths \<and> w_fs s' = without (set gone) (w_fs s) \<and> (\<forall>m. r = Inr m \<longrightarrow> m = n + length gone)"
  proof (cases r1)
    case (Inl e)
    then show ?thesis using run step fs by (auto simp: op_bind_def intro!: exI [of _ "[]"])
  next
    case (Inr u)
    then have "f n s1 = (r, s')" using run step by (simp add: op_bind_def)
    with assms fs show ?thesis unfolding removes_def by metis
  qed
qed

lemma removes_remove_file: "removes [path] (\<lambda>n. op_bind (remove_file env path) (\<lambda>_. op_ok (n + 1)))"
  unfolding removes_def
proof (intro allI impI)
  fix n :: nat and s r s' assume run: "op_bind (remove_file env path) (\<lambda>_. op_ok (n + 1)) s = (r, s')"
  obtain r1 s1 where step: "remove_file env path s = (r1, s1)" by fastforce
  have fs: "w_fs s1 = (if r1 = Inr () then without {path} (w_fs s) else w_fs s)"
    using step by (auto simp: remove_file_def io_op_def without_def split: option.splits node.splits)
  have "s' = s1" "r = map_sum id (\<lambda>_. n + 1) r1" using run step by (cases r1; auto simp: op_bind_def op_ok_def)+
  with fs show "\<exists>gone. set gone \<subseteq> set [path] \<and> w_fs s' = without (set gone) (w_fs s) \<and> (\<forall>m. r = Inr m \<longrightarrow> m = n + length gone)"
    by (cases r1) (auto intro: exI [of _ "[]"] exI [of _ "[path]"])
qed

lemma removes_listing:
  assumes "\<And>entries. tree = Some (DiskDir entries) \<Longrightarrow> removes paths (f entries)"
  shows "removes paths (\<lambda>n. op_catch (read_dir_at env tree) (\<lambda>r. case r of
       Inr entries \<Rightarrow> f entries n | Inl IoNotFound \<Rightarrow> op_ok n | Inl e \<Rightarrow> op_err e))"
  unfolding removes_def
proof (intro allI impI)
  fix n s r s' assume run: "op_catch (read_dir_at env tree) (\<lambda>r. case r of
       Inr entries \<Rightarrow> f entries n | Inl IoNotFound \<Rightarrow> op_ok n | Inl e \<Rightarrow> op_err e) s = (r, s')"
  obtain r1 s1 where step: "read_dir_at env tree s = (r1, s1)" by fastforce
  have fs: "w_fs s1 = w_fs s" and listed: "\<And>entries. r1 = Inr entries \<Longrightarrow> tree = Some (DiskDir entries)"
    using step by (auto simp: read_dir_at_def io_op_def split: option.splits disk.splits)
  show "\<exists>gone. set gone \<subseteq> set paths \<and> w_fs s' = without (set gone) (w_fs s) \<and> (\<forall>m. r = Inr m \<longrightarrow> m = n + length gone)"
  proof (cases r1)
    case (Inl e)
    then have "w_fs s' = w_fs s \<and> (\<forall>m. r = Inr m \<longrightarrow> m = n)"
      using run step fs by (cases e) (auto simp: op_catch_def op_ok_def op_err_def)
    then show ?thesis by (intro exI [of _ "[]"]) simp
  next
    case (Inr entries)
    then have "f entries n s1 = (r, s')" using run step by (simp add: op_catch_def)
    with assms [OF listed [OF Inr]] fs show ?thesis unfolding removes_def by metis
  qed
qed

lemma removes_walk_entries:
  "removes (stale_in directory entries) (walk_entries env directory entries :: nat \<Rightarrow> (('u, 'z) world_scheme, _, _) oper)"
  "removes (stale_at directory name node) (walk_entry env directory name node :: nat \<Rightarrow> (('u, 'z) world_scheme, _, _) oper)"
proof (induction directory entries and directory name node rule: stale_in_stale_at.induct)
  case (1 directory)
  have "(walk_entries env directory [] :: nat \<Rightarrow> (('u, 'z) world_scheme, io_error, nat) oper) = op_ok" by auto
  then show ?case using removes_ok by simp
next
  case (2 directory name node entries)
  then show ?case using removes_step [OF removes_step [OF removes_bind [OF 2]]] by simp
next
  case (3 directory name)
  have "(walk_entry env directory name DiskFile :: nat \<Rightarrow> (('u, 'z) world_scheme, io_error, nat) oper) =
      (if is_temp_name name then \<lambda>n. op_bind (remove_file env (path_join directory name)) (\<lambda>_. op_ok (n + 1)) else op_ok)" by auto
  then show ?case using removes_remove_file [of "path_join directory name" env] removes_ok by auto
next
  case (4 directory name)
  then show ?case using removes_ok by (simp add: removes_def)
next
  case (5 directory name entries)
  show ?case using removes_listing [of "Some (DiskDir entries)" _ "\<lambda>_. walk_entries env (path_join directory name) entries"] 5 by simp
qed

lemma removes_walk: "removes (stale_paths directory tree) (walk env directory tree :: nat \<Rightarrow> (('u, 'z) world_scheme, io_error, nat) oper)"
proof -
  have eq: "(walk env directory tree :: nat \<Rightarrow> (('u, 'z) world_scheme, io_error, nat) oper) = (\<lambda>n. op_catch (read_dir_at env tree) (\<lambda>r. case r of
       Inr entries \<Rightarrow> walk_entries env directory entries n | Inl IoNotFound \<Rightarrow> op_ok n | Inl e \<Rightarrow> op_err e))"
    by (simp add: walk_def fun_eq_iff)
  show ?thesis unfolding eq
    by (rule removes_listing) (simp add: stale_paths_def removes_walk_entries(1))
qed

subsection \<open>Without failures\<close>

lemma clears_ok: "clears [] op_ok"
  by (simp add: clears_def op_ok_def)

lemma file_step_ok: "env_io env (w_tick s) = None \<Longrightarrow> file_step env s = (Inr (), s\<lparr>w_tick := w_tick s + 1\<rparr>)"
  by (simp add: file_step_def io_op_def)

lemma clears_step:
  assumes "\<And>tick. env_io env tick = None" "clears paths f"
  shows "clears paths (\<lambda>n. op_bind (file_step env) (\<lambda>_. f n))"
  unfolding clears_def
proof (intro allI impI)
  fix n and s :: "('a, 'd) world_scheme"
  assume "distinct paths \<and> (\<forall>p \<in> set paths. \<exists>bytes st. w_fs s p = Some (File bytes st))"
  then show "\<exists>s'. op_bind (file_step env) (\<lambda>_. f n) s = (Inr (n + length paths), s') \<and> w_fs s' = without (set paths) (w_fs s)"
    using assms(2) [unfolded clears_def, rule_format, of "s\<lparr>w_tick := w_tick s + 1\<rparr>" n]
    by (simp add: op_bind_def file_step_ok [OF assms(1)])
qed

lemma clears_remove_file:
  assumes "\<And>tick. env_io env tick = None"
  shows "clears [path] (\<lambda>n. op_bind (remove_file env path) (\<lambda>_. op_ok (n + 1)))"
  using assms by (auto simp: clears_def op_bind_def op_ok_def remove_file_def io_op_def without_def fun_eq_iff)

lemma clears_listing:
  assumes "\<And>tick. env_io env tick = None" "clears paths (f entries)"
  shows "clears paths (\<lambda>n. op_catch (read_dir_at env (Some (DiskDir entries))) (\<lambda>r. case r of
       Inr entries \<Rightarrow> f entries n | Inl IoNotFound \<Rightarrow> op_ok n | Inl e \<Rightarrow> op_err e))"
  unfolding clears_def
proof (intro allI impI)
  fix n and s :: "('a, 'd) world_scheme"
  assume "distinct paths \<and> (\<forall>p \<in> set paths. \<exists>bytes st. w_fs s p = Some (File bytes st))"
  then show "\<exists>s'. op_catch (read_dir_at env (Some (DiskDir entries))) (\<lambda>r. case r of
       Inr entries \<Rightarrow> f entries n | Inl IoNotFound \<Rightarrow> op_ok n | Inl e \<Rightarrow> op_err e) s = (Inr (n + length paths), s') \<and>
       w_fs s' = without (set paths) (w_fs s)"
    using assms(2) [unfolded clears_def, rule_format, of "s\<lparr>w_tick := w_tick s + 1\<rparr>" n] assms(1)
    by (simp add: op_catch_def read_dir_at_def io_op_def)
qed

lemma clears_walk_entries:
  assumes io: "\<And>tick. env_io env tick = None"
  shows "clears (stale_in directory entries) (walk_entries env directory entries :: nat \<Rightarrow> (('u, 'z) world_scheme, _, _) oper)"
    "clears (stale_at directory name node) (walk_entry env directory name node :: nat \<Rightarrow> (('u, 'z) world_scheme, _, _) oper)"
proof (induction directory entries and directory name node rule: stale_in_stale_at.induct)
  case (1 directory)
  have "(walk_entries env directory [] :: nat \<Rightarrow> (('u, 'z) world_scheme, io_error, nat) oper) = op_ok" by auto
  then show ?case using clears_ok by simp
next
  case (2 directory name node entries)
  then show ?case using clears_step [OF io clears_step [OF io clears_bind [OF 2]]] by simp
next
  case (3 directory name)
  have "(walk_entry env directory name DiskFile :: nat \<Rightarrow> (('u, 'z) world_scheme, io_error, nat) oper) =
      (if is_temp_name name then \<lambda>n. op_bind (remove_file env (path_join directory name)) (\<lambda>_. op_ok (n + 1)) else op_ok)" by auto
  then show ?case using clears_remove_file [OF io, of "path_join directory name"] clears_ok by auto
next
  case (4 directory name)
  have "(walk_entry env directory name DiskOther :: nat \<Rightarrow> (('u, 'z) world_scheme, io_error, nat) oper) = op_ok" by auto
  then show ?case using clears_ok by simp
next
  case (5 directory name entries)
  show ?case using clears_listing [OF io, of _ "\<lambda>_. walk_entries env (path_join directory name) entries" entries] 5 by simp
qed

lemma clears_walk:
  assumes io: "\<And>tick. env_io env tick = None" and "tree = None \<or> tree = Some (DiskDir entries)"
  shows "clears (stale_paths directory tree) (walk env directory tree :: nat \<Rightarrow> (('u, 'z) world_scheme, io_error, nat) oper)"
proof (cases tree)
  case None
  then show ?thesis using io by (simp add: clears_def walk_def op_catch_def read_dir_at_def io_op_def stale_paths_def op_ok_def)
next
  case (Some t)
  then have tree: "tree = Some (DiskDir entries)" using assms(2) by simp
  have eq: "(walk env directory tree :: nat \<Rightarrow> (('u, 'z) world_scheme, io_error, nat) oper) = (\<lambda>n. op_catch (read_dir_at env (Some (DiskDir entries))) (\<lambda>r. case r of
       Inr entries \<Rightarrow> walk_entries env directory entries n | Inl IoNotFound \<Rightarrow> op_ok n | Inl e \<Rightarrow> op_err e))"
    by (simp add: walk_def fun_eq_iff tree)
  show ?thesis unfolding eq
    by (rule clears_listing [OF io]) (simp add: stale_paths_def tree clears_walk_entries(1) [OF io])
qed

section \<open>Properties\<close>

text \<open>C39: the removal of stale temporary files takes away temporary files and nothing else. Whatever fails,
  the only change to the file system is that some of the regular files under \<open>providers\<close> and \<open>metadata\<close>
  whose names start with a dot and end in \<open>.tmp\<close> are gone, and the number returned is that of the files
  removed; and if nothing fails and the listed files are there, all of them are removed.\<close>

theorem stale_temp_files_removed:
  assumes "remove_stale_temp_files env data_dir providers metadata s = (r, s')"
    and "paths = stale_paths (path_join data_dir ''providers'') providers @ stale_paths (path_join data_dir ''metadata'') metadata"
  shows "(\<exists>gone. set gone \<subseteq> set paths \<and> w_fs s' = without (set gone) (w_fs s) \<and> (\<forall>n. r = Inr n \<longrightarrow> n = length gone)) \<and>
    ((\<forall>tick. env_io env tick = None) \<and> providers \<in> insert None (range (\<lambda>entries. Some (DiskDir entries))) \<and>
       metadata \<in> insert None (range (\<lambda>entries. Some (DiskDir entries))) \<and> distinct paths \<and>
       (\<forall>p \<in> set paths. \<exists>bytes st. w_fs s p = Some (File bytes st)) \<longrightarrow>
     r = Inr (length paths) \<and> w_fs s' = without (set paths) (w_fs s))"
proof (intro conjI impI)
  let ?run = "\<lambda>n. op_bind (walk env (path_join data_dir ''providers'') providers n) (walk env (path_join data_dir ''metadata'') metadata)"
  have run: "?run 0 s = (r, s')" using assms(1) by (simp add: remove_stale_temp_files_def)
  have "removes paths ?run" unfolding assms(2) by (intro removes_bind removes_walk)
  from this [unfolded removes_def, rule_format, OF run]
  show "\<exists>gone. set gone \<subseteq> set paths \<and> w_fs s' = without (set gone) (w_fs s) \<and> (\<forall>n. r = Inr n \<longrightarrow> n = length gone)" by simp
  assume *: "(\<forall>tick. env_io env tick = None) \<and> providers \<in> insert None (range (\<lambda>entries. Some (DiskDir entries))) \<and>
       metadata \<in> insert None (range (\<lambda>entries. Some (DiskDir entries))) \<and> distinct paths \<and>
       (\<forall>p \<in> set paths. \<exists>bytes st. w_fs s p = Some (File bytes st))"
  then have "clears paths ?run" unfolding assms(2) by (intro clears_bind) (auto intro: clears_walk)
  then have "\<exists>s''. ?run 0 s = (Inr (0 + length paths), s'') \<and> w_fs s'' = without (set paths) (w_fs s)"
    using * unfolding clears_def by blast
  with run show "r = Inr (length paths)" "w_fs s' = without (set paths) (w_fs s)" by auto
qed

text \<open>A cache directory with one archive and one temporary file beside it.\<close>

theorem stale_temp_files_removed_witness:
  "w_fs (snd (remove_stale_temp_files toy_env ''d'' (Some (DiskDir [(''a.zip'', DiskFile), (''.a-1-0.tmp'', DiskFile)])) None
     (toy_registry_state\<lparr>w_fs := \<lambda>_. Some (File [] \<lparr>st_modified = None, st_dev = 0, st_ino = 0\<rparr>)\<rparr>))) =
   without {''d/providers/.a-1-0.tmp''} (\<lambda>_. Some (File [] \<lparr>st_modified = None, st_dev = 0, st_ino = 0\<rparr>))"
proof -
  let ?s = "toy_registry_state\<lparr>w_fs := \<lambda>_. Some (File [] \<lparr>st_modified = None, st_dev = 0, st_ino = 0\<rparr>)\<rparr>"
  let ?tree = "Some (DiskDir [(''a.zip'', DiskFile), (''.a-1-0.tmp'', DiskFile)])"
  obtain r s' where run: "remove_stale_temp_files toy_env ''d'' ?tree None ?s = (r, s')" by fastforce
  have temp: "is_temp_name ''.a-1-0.tmp''" "\<not> is_temp_name ''a.zip''" by (simp_all add: is_temp_name_def strip_suffix_def)
  have paths: "stale_paths (path_join ''d'' ''providers'') ?tree @ stale_paths (path_join ''d'' ''metadata'') None = [''d/providers/.a-1-0.tmp'']"
    by (simp add: stale_paths_def temp) (simp add: path_join_def)
  have "env_io toy_env tick = None" for tick by (simp add: toy_env_def)
  with stale_temp_files_removed [OF run refl] have "w_fs s' = without {''d/providers/.a-1-0.tmp''} (w_fs ?s)"
    unfolding paths by (auto simp: image_iff)
  then show ?thesis using run by simp
qed

end
