(* ===== verification/Rate_Limit.thy ===== *)
theory Rate_Limit
  imports Complex_Main Mirror_Prelude
begin

text \<open>
  The token bucket that limits the rate of requests (\<^verbatim>\<open>http_api.rs\<close>: \<open>TokenBucket\<close>). Instants are
  nanoseconds. The \<open>f64\<close> arithmetic is exact arithmetic on reals followed by a rounding \<open>rnd\<close>, a
  parameter: what is used of IEEE 754 is that rounding is monotone, exact on integers of at most 53
  bits and of small error. All operands are far from the range where it overflows.
\<close>

section \<open>Definitions\<close>

record token_bucket =
  tk_qps :: real
  tk_burst :: real

record bucket_state =
  bs_tokens :: real
  bs_last_refill :: nat

text \<open>\<open>Duration::as_secs_f64\<close> of a number of nanoseconds.\<close>

definition as_secs_f64 :: "(real \<Rightarrow> real) \<Rightarrow> nat \<Rightarrow> real" where
  "as_secs_f64 rnd ns = rnd (rnd (real (ns div 10 ^ 9)) + rnd (real (ns mod 10 ^ 9) / 10 ^ 9))"

definition token_bucket_new :: "nat \<Rightarrow> nat \<Rightarrow> nat \<Rightarrow> token_bucket \<times> bucket_state" where
  "token_bucket_new qps burst now =
     (let burst = real (max burst 1)
      in (\<lparr>tk_qps = real (max qps 1), tk_burst = burst\<rparr>, \<lparr>bs_tokens = burst, bs_last_refill = now\<rparr>))"

definition refill :: "(real \<Rightarrow> real) \<Rightarrow> token_bucket \<Rightarrow> nat \<Rightarrow> bucket_state \<Rightarrow> bucket_state" where
  "refill rnd tb now st =
     (let elapsed = as_secs_f64 rnd (now - bs_last_refill st)
      in st\<lparr>bs_tokens := min (rnd (bs_tokens st + rnd (elapsed * tk_qps tb))) (tk_burst tb), bs_last_refill := now\<rparr>)"

definition try_acquire :: "(real \<Rightarrow> real) \<Rightarrow> token_bucket \<Rightarrow> nat \<Rightarrow> bucket_state \<Rightarrow> bool \<times> bucket_state" where
  "try_acquire rnd tb now st =
     (let st = refill rnd tb now st
      in if bs_tokens st < 1 then (False, st) else (True, st\<lparr>bs_tokens := rnd (bs_tokens st - 1)\<rparr>))"

text \<open>The number of calls that get a token, for calls with these clock readings in this order.\<close>

fun acquired :: "(real \<Rightarrow> real) \<Rightarrow> token_bucket \<Rightarrow> nat list \<Rightarrow> bucket_state \<Rightarrow> nat" where
  "acquired rnd tb [] st = 0"
| "acquired rnd tb (now # later) st =
     (case try_acquire rnd tb now st of (ok, st') \<Rightarrow> (if ok then 1 else 0) + acquired rnd tb later st')"

section \<open>The rounding\<close>

definition float_laws :: "(real \<Rightarrow> real) \<Rightarrow> real \<Rightarrow> real \<Rightarrow> bool" where
  "float_laws rnd u tiny \<longleftrightarrow>
     mono rnd \<and> (\<forall>n. n \<le> 2 ^ 53 \<longrightarrow> rnd (real n) = real n) \<and>
     (\<forall>x. \<bar>rnd x - x\<bar> \<le> u * \<bar>x\<bar> + tiny) \<and> 0 \<le> u \<and> u \<le> 1 \<and> 0 \<le> tiny"

lemma float_nonneg:
  assumes "float_laws rnd u tiny" "0 \<le> x"
  shows "0 \<le> rnd x"
proof -
  have "rnd (real 0) = real 0" using assms(1) unfolding float_laws_def by blast
  moreover have "rnd (real 0) \<le> rnd x" using assms unfolding float_laws_def by (intro monoD [of rnd]) auto
  ultimately show ?thesis by simp
qed

lemma float_upper:
  assumes "float_laws rnd u tiny" "0 \<le> x"
  shows "rnd x \<le> (1 + u) * x + tiny"
proof -
  have "\<bar>rnd x - x\<bar> \<le> u * \<bar>x\<bar> + tiny" using assms(1) unfolding float_laws_def by blast
  then show ?thesis using assms(2) by (simp add: distrib_right)
qed

lemma float_int: "float_laws rnd u tiny \<Longrightarrow> n \<le> 2 ^ 53 \<Longrightarrow> rnd (real n) = real n"
  by (simp add: float_laws_def)

lemma float_mono: "float_laws rnd u tiny \<Longrightarrow> x \<le> y \<Longrightarrow> rnd x \<le> rnd y"
  by (simp add: float_laws_def monoD)

section \<open>Lemmas\<close>

abbreviation seconds :: "nat \<Rightarrow> real" where
  "seconds ns \<equiv> real ns / 10 ^ 9"

lemma seconds_split: "real (ns div 10 ^ 9) + real (ns mod 10 ^ 9) / 10 ^ 9 = seconds ns"
proof -
  have "real ns = real (ns div 10 ^ 9 * 10 ^ 9 + ns mod 10 ^ 9)" by simp
  then have "real ns = real (ns div 10 ^ 9) * 10 ^ 9 + real (ns mod 10 ^ 9)" unfolding of_nat_add of_nat_mult by simp
  then show ?thesis by (simp add: field_simps)
qed

lemma power_splits:
  fixes a :: real
  shows "a * (a * b + c) = a ^ 2 * b + a * c" "a * ((a ^ 2 * b + c) * q) = a ^ 3 * q * b + a * (c * q)"
    "a * (a ^ 3 * b * c + d) = a ^ 4 * b * c + a * d"
  by (simp_all add: power2_eq_square power3_eq_cube power4_eq_xxxx algebra_simps)

lemma as_secs_f64_bounds:
  assumes laws: "float_laws rnd u tiny"
  shows "0 \<le> as_secs_f64 rnd ns" "as_secs_f64 rnd ns \<le> (1 + u) ^ 2 * seconds ns + 5 * tiny"
proof -
  have u: "0 \<le> u" "u \<le> 1" "0 \<le> tiny" using laws by (simp_all add: float_laws_def)
  let ?s = "real (ns div 10 ^ 9)" and ?n = "real (ns mod 10 ^ 9) / 10 ^ 9"
  have nn: "0 \<le> rnd ?s" "0 \<le> rnd ?n" using laws by (auto intro: float_nonneg)
  then show "0 \<le> as_secs_f64 rnd ns" unfolding as_secs_f64_def by (intro float_nonneg [OF laws]) simp
  have "rnd ?s + rnd ?n \<le> ((1 + u) * ?s + tiny) + ((1 + u) * ?n + tiny)"
    by (intro add_mono float_upper [OF laws]) simp_all
  also have "\<dots> = (1 + u) * (?s + ?n) + 2 * tiny" by (simp add: algebra_simps)
  also have "\<dots> = (1 + u) * seconds ns + 2 * tiny" using seconds_split [of ns] by simp
  finally have "rnd ?s + rnd ?n \<le> (1 + u) * seconds ns + 2 * tiny" .
  then have "(1 + u) * (rnd ?s + rnd ?n) \<le> (1 + u) * ((1 + u) * seconds ns + 2 * tiny)" using u by (intro mult_left_mono) simp_all
  moreover have "as_secs_f64 rnd ns \<le> (1 + u) * (rnd ?s + rnd ?n) + tiny"
    unfolding as_secs_f64_def using nn by (intro float_upper [OF laws]) simp
  moreover have "(1 + u) * (2 * tiny) \<le> 4 * tiny" using u mult_right_mono [of "1 + u" 2 "2 * tiny"] by simp
  moreover have "(1 + u) * ((1 + u) * seconds ns + 2 * tiny) = (1 + u) ^ 2 * seconds ns + (1 + u) * (2 * tiny)"
    by (rule power_splits)
  ultimately show "as_secs_f64 rnd ns \<le> (1 + u) ^ 2 * seconds ns + 5 * tiny" by linarith
qed

text \<open>The credit for the time since the last refill.\<close>

lemma credit_bounds:
  assumes laws: "float_laws rnd u tiny" and q: "0 \<le> q"
  shows "0 \<le> rnd (as_secs_f64 rnd ns * q)"
    and "rnd (as_secs_f64 rnd ns * q) \<le> (1 + u) ^ 3 * q * seconds ns + (10 * q + 1) * tiny"
proof -
  have u: "0 \<le> u" "u \<le> 1" "0 \<le> tiny" using laws by (simp_all add: float_laws_def)
  note secs = as_secs_f64_bounds [OF laws, of ns]
  show "0 \<le> rnd (as_secs_f64 rnd ns * q)" using secs(1) q by (intro float_nonneg [OF laws]) simp
  have "as_secs_f64 rnd ns * q \<le> ((1 + u) ^ 2 * seconds ns + 5 * tiny) * q" using secs(2) q by (rule mult_right_mono)
  then have "(1 + u) * (as_secs_f64 rnd ns * q) \<le> (1 + u) * (((1 + u) ^ 2 * seconds ns + 5 * tiny) * q)" using u by (intro mult_left_mono) simp_all
  moreover have "(1 + u) * (((1 + u) ^ 2 * seconds ns + 5 * tiny) * q) = (1 + u) ^ 3 * q * seconds ns + (1 + u) * (5 * tiny * q)"
    by (rule power_splits)
  moreover have "(1 + u) * (5 * tiny * q) \<le> 10 * q * tiny"
    using u q mult_right_mono [of "1 + u" 2 "5 * tiny * q"] by (simp add: mult.commute mult.left_commute)
  moreover have "rnd (as_secs_f64 rnd ns * q) \<le> (1 + u) * (as_secs_f64 rnd ns * q) + tiny"
    using secs(1) q by (intro float_upper [OF laws]) simp
  moreover have "(10 * q + 1) * tiny = 10 * q * tiny + tiny" by (simp add: distrib_right)
  ultimately show "rnd (as_secs_f64 rnd ns * q) \<le> (1 + u) ^ 3 * q * seconds ns + (10 * q + 1) * tiny" by linarith
qed

definition bucket_ok :: "token_bucket \<Rightarrow> bucket_state \<Rightarrow> bool" where
  "bucket_ok tb st \<longleftrightarrow> (\<exists>n. tk_burst tb = real n \<and> 1 \<le> n \<and> n \<le> 2 ^ 53) \<and> 0 \<le> tk_qps tb \<and> 0 \<le> bs_tokens st \<and> bs_tokens st \<le> tk_burst tb"

text \<open>What the rounding can add to the tokens in one call.\<close>

definition slack :: "real \<Rightarrow> real \<Rightarrow> token_bucket \<Rightarrow> real" where
  "slack u tiny tb = 2 * u * tk_burst tb + (20 * tk_qps tb + 4) * tiny"

lemma refill_bounds:
  assumes laws: "float_laws rnd u tiny" and ok: "bucket_ok tb st"
  shows "0 \<le> bs_tokens (refill rnd tb now st)" "bs_tokens (refill rnd tb now st) \<le> tk_burst tb"
    "bs_tokens (refill rnd tb now st) \<le> bs_tokens st + (1 + u) ^ 4 * tk_qps tb * seconds (now - bs_last_refill st) +
       u * tk_burst tb + (20 * tk_qps tb + 3) * tiny"
proof -
  have u: "0 \<le> u" "u \<le> 1" "0 \<le> tiny" using laws by (simp_all add: float_laws_def)
  have st: "0 \<le> tk_qps tb" "0 \<le> bs_tokens st" "bs_tokens st \<le> tk_burst tb" "0 \<le> tk_burst tb" using ok by (auto simp: bucket_ok_def)
  define c where "c = rnd (as_secs_f64 rnd (now - bs_last_refill st) * tk_qps tb)"
  have tokens: "bs_tokens (refill rnd tb now st) = min (rnd (bs_tokens st + c)) (tk_burst tb)" by (simp add: refill_def c_def Let_def)
  note c = credit_bounds [OF laws st(1), of "now - bs_last_refill st", folded c_def]
  have nn: "0 \<le> bs_tokens st + c" using c(1) st by simp
  show "0 \<le> bs_tokens (refill rnd tb now st)" "bs_tokens (refill rnd tb now st) \<le> tk_burst tb"
    using float_nonneg [OF laws nn] st by (simp_all add: tokens)
  have bounds: "(1 + u) * c \<le> (1 + u) * ((1 + u) ^ 3 * tk_qps tb * seconds (now - bs_last_refill st) + (10 * tk_qps tb + 1) * tiny)"
    "(1 + u) * ((1 + u) ^ 3 * tk_qps tb * seconds (now - bs_last_refill st) + (10 * tk_qps tb + 1) * tiny) =
       (1 + u) ^ 4 * tk_qps tb * seconds (now - bs_last_refill st) + (1 + u) * ((10 * tk_qps tb + 1) * tiny)"
    "(1 + u) * ((10 * tk_qps tb + 1) * tiny) \<le> 2 * ((10 * tk_qps tb + 1) * tiny)"
    "u * bs_tokens st \<le> u * tk_burst tb" "rnd (bs_tokens st + c) \<le> (1 + u) * (bs_tokens st + c) + tiny"
  proof -
    show "(1 + u) * c \<le> (1 + u) * ((1 + u) ^ 3 * tk_qps tb * seconds (now - bs_last_refill st) + (10 * tk_qps tb + 1) * tiny)"
      using c(2) u by (intro mult_left_mono) simp_all
    show "(1 + u) * ((10 * tk_qps tb + 1) * tiny) \<le> 2 * ((10 * tk_qps tb + 1) * tiny)" using u st(1) by (intro mult_right_mono) simp_all
    show "u * bs_tokens st \<le> u * tk_burst tb" using st u by (intro mult_left_mono) simp_all
    show "rnd (bs_tokens st + c) \<le> (1 + u) * (bs_tokens st + c) + tiny" using nn by (rule float_upper [OF laws])
  qed (rule power_splits)
  show "bs_tokens (refill rnd tb now st) \<le> bs_tokens st + (1 + u) ^ 4 * tk_qps tb * seconds (now - bs_last_refill st) +
       u * tk_burst tb + (20 * tk_qps tb + 3) * tiny"
  proof -
    have "(1 + u) * (bs_tokens st + c) = bs_tokens st + u * bs_tokens st + (1 + u) * c"
      "(20 * tk_qps tb + 3) * tiny = 2 * ((10 * tk_qps tb + 1) * tiny) + tiny" by (simp_all add: algebra_simps)
    moreover have "bs_tokens (refill rnd tb now st) \<le> rnd (bs_tokens st + c)" by (simp add: tokens)
    ultimately show ?thesis using bounds by linarith
  qed
qed

lemma try_acquire_step:
  assumes laws: "float_laws rnd u tiny" and ok: "bucket_ok tb st" and run: "try_acquire rnd tb now st = (got, st')"
  shows "bucket_ok tb st'" "bs_last_refill st' = now"
    "(if got then 1 else 0) + bs_tokens st' \<le>
       bs_tokens st + (1 + u) ^ 4 * tk_qps tb * seconds (now - bs_last_refill st) + slack u tiny tb"
proof -
  let ?r = "refill rnd tb now st"
  have u: "0 \<le> u" "0 \<le> tiny" using laws by (simp_all add: float_laws_def)
  note r = refill_bounds [OF laws ok, of now]
  obtain n where n: "tk_burst tb = real n" "1 \<le> n" "n \<le> 2 ^ 53" using ok by (auto simp: bucket_ok_def)
  have "rnd (bs_tokens ?r - 1) \<le> rnd (real n)" using r(2) n by (intro float_mono [OF laws]) simp
  then have le: "rnd (bs_tokens ?r - 1) \<le> tk_burst tb" using float_int [OF laws n(3)] n(1) by simp
  have taken: "0 \<le> rnd (bs_tokens ?r - 1)" "rnd (bs_tokens ?r - 1) + 1 \<le> bs_tokens ?r + u * tk_burst tb + tiny" if "1 \<le> bs_tokens ?r"
  proof -
    have "u * (bs_tokens ?r - 1) \<le> u * tk_burst tb" using r(2) u by (intro mult_left_mono) simp_all
    then show "rnd (bs_tokens ?r - 1) + 1 \<le> bs_tokens ?r + u * tk_burst tb + tiny"
      using float_upper [OF laws, of "bs_tokens ?r - 1"] that by (simp add: distrib_right)
    show "0 \<le> rnd (bs_tokens ?r - 1)" using that by (intro float_nonneg [OF laws]) simp
  qed
  have slack: "0 \<le> u * tk_burst tb" "0 \<le> tiny" "slack u tiny tb = u * tk_burst tb + u * tk_burst tb + (20 * tk_qps tb + 3) * tiny + tiny"
    using u n by (simp_all add: slack_def algebra_simps)
  have last: "bs_last_refill ?r = now" by (simp add: refill_def Let_def)
  show "bucket_ok tb st'" "bs_last_refill st' = now"
    using run r le taken(1) ok last by (auto simp: try_acquire_def bucket_ok_def Let_def not_less split: if_splits)
  show "(if got then 1 else 0) + bs_tokens st' \<le>
       bs_tokens st + (1 + u) ^ 4 * tk_qps tb * seconds (now - bs_last_refill st) + slack u tiny tb"
  proof (cases got)
    case True
    then have "1 \<le> bs_tokens ?r" "bs_tokens st' = rnd (bs_tokens ?r - 1)" using run by (auto simp: try_acquire_def Let_def split: if_splits)
    then show ?thesis using taken(2) r(3) slack True by simp
  next
    case False
    then have "bs_tokens st' = bs_tokens ?r" using run by (auto simp: try_acquire_def Let_def split: if_splits)
    then show ?thesis using r(3) slack False by simp
  qed
qed

text \<open>How far the clock readings of a list go back, one after the other, in total.\<close>

fun set_back :: "nat \<Rightarrow> nat list \<Rightarrow> nat" where
  "set_back before [] = 0"
| "set_back before (now # later) = (before - now) + set_back now later"

lemma set_back_sorted: "sorted_wrt (\<le>) (before # calls) \<Longrightarrow> set_back before calls = 0"
  by (induction calls arbitrary: before) auto

text \<open>The time that is credited: what the clock goes forward over the calls, which is how far the last reading
  is from the first and all that was set back in between.\<close>

definition credited :: "nat \<Rightarrow> nat list \<Rightarrow> nat" where
  "credited before calls = last (before # calls) + set_back before calls - before"

lemma credited_Cons: "credited before (now # calls) = (now - before) + credited now calls"
proof -
  have "before \<le> last (before # calls) + set_back before calls" for before :: nat and calls
  proof (induction calls arbitrary: before)
    case (Cons now calls)
    show ?case using Cons [of now] by simp
  qed simp
  from this [of now calls] show ?thesis by (simp add: credited_def)
qed

lemma acquired_bound:
  assumes laws: "float_laws rnd u tiny"
  shows "bucket_ok tb st \<Longrightarrow>
    real (acquired rnd tb calls st) \<le>
      bs_tokens st + (1 + u) ^ 4 * tk_qps tb * seconds (credited (bs_last_refill st) calls) + real (length calls) * slack u tiny tb"
proof (induction calls arbitrary: st)
  case Nil
  then show ?case by (simp add: bucket_ok_def credited_def)
next
  case (Cons now calls)
  obtain got st' where step: "try_acquire rnd tb now st = (got, st')" by fastforce
  note s = try_acquire_step [OF laws Cons.prems step]
  note IH = Cons.IH [OF s(1)]
  have "seconds (credited now calls) + seconds (now - bs_last_refill st) = seconds (credited (bs_last_refill st) (now # calls))"
    by (simp add: credited_Cons field_simps)
  then have "(1 + u) ^ 4 * tk_qps tb * seconds (credited now calls) + (1 + u) ^ 4 * tk_qps tb * seconds (now - bs_last_refill st) =
      (1 + u) ^ 4 * tk_qps tb * seconds (credited (bs_last_refill st) (now # calls))"
    by (simp only: distrib_left [symmetric])
  moreover have "real (acquired rnd tb (now # calls) st) = (if got then 1 else 0) + real (acquired rnd tb calls st')"
    "real (length (now # calls)) * slack u tiny tb = real (length calls) * slack u tiny tb + slack u tiny tb"
    using step by (simp_all add: distrib_right)
  ultimately show ?case using IH [unfolded s(2)] s(3) by (simp only:)
qed

text \<open>The state after some calls.\<close>

definition bucket_after :: "(real \<Rightarrow> real) \<Rightarrow> token_bucket \<Rightarrow> bucket_state \<Rightarrow> nat list \<Rightarrow> bucket_state" where
  "bucket_after rnd tb = foldl (\<lambda>st now. snd (try_acquire rnd tb now st))"

lemma bucket_after_ok: "float_laws rnd u tiny \<Longrightarrow> bucket_ok tb st \<Longrightarrow> bucket_ok tb (bucket_after rnd tb st calls)"
  unfolding bucket_after_def
  by (induction calls arbitrary: st) (auto intro: try_acquire_step(1) [OF _ _ prod.collapse [symmetric]])

lemma token_bucket_new_ok: "token_bucket_new qps burst now = (tb, st) \<Longrightarrow> burst < 2 ^ 32 \<Longrightarrow> bucket_ok tb st"
  by (auto simp: token_bucket_new_def Let_def bucket_ok_def intro!: exI [of _ "max burst 1"])

text \<open>The clock is read before the lock is taken, so a call can bring an older reading than the last one: it
  sets the time of the last refill back, and the time in between is credited once more.\<close>

lemma late_clock_reading_credits_twice:
  assumes "token_bucket_new 1 1 0 = (tb, st)"
  shows "acquired id tb [0, 10 ^ 9, 0, 10 ^ 9] st = 3" "acquired id tb [0, 0, 10 ^ 9, 10 ^ 9] st = 2"
proof -
  have new: "tb = \<lparr>tk_qps = 1, tk_burst = 1\<rparr>" "st = \<lparr>bs_tokens = 1, bs_last_refill = 0\<rparr>"
    using assms by (simp_all add: token_bucket_new_def Let_def)
  have step: "try_acquire id \<lparr>tk_qps = 1, tk_burst = 1\<rparr> now \<lparr>bs_tokens = t, bs_last_refill = before\<rparr> =
      (let t' = min (t + seconds (now - before)) 1
       in if t' < 1 then (False, \<lparr>bs_tokens = t', bs_last_refill = now\<rparr>) else (True, \<lparr>bs_tokens = t' - 1, bs_last_refill = now\<rparr>))"
    for now t before
  proof -
    have "as_secs_f64 id (now - before) = seconds (now - before)" unfolding as_secs_f64_def using seconds_split by simp
    then show ?thesis by (simp add: try_acquire_def refill_def Let_def)
  qed
  show "acquired id tb [0, 10 ^ 9, 0, 10 ^ 9] st = 3" "acquired id tb [0, 0, 10 ^ 9, 10 ^ 9] st = 2"
    unfolding new by (simp_all add: step Let_def)
qed

section \<open>Properties\<close>

text \<open>C20: requests are limited to the burst and the rate. After any earlier calls, calls with any clock
  readings get at most as many tokens as the burst plus the rate times the time from the last refill to the
  last call, to which the time counts again by which a reading lies before the one it follows (it is read before
  the lock is taken, so it can); readings in order set nothing back. The bound is up to the rounding: a
  factor of four roundings on the time and a slack per call that is twice the relative error of one rounding
  on the burst. At all times the number of tokens is between zero and the burst.\<close>

theorem request_rate_bounded:
  assumes "float_laws rnd u tiny" and "token_bucket_new qps burst start = (tb, st0)" and "burst < 2 ^ 32"
    and "st = bucket_after rnd tb st0 earlier"
  shows "real (acquired rnd tb calls st) \<le>
      real (max burst 1) + (1 + u) ^ 4 * real (max qps 1) *
        (real (last (bs_last_refill st # calls) + set_back (bs_last_refill st) calls - bs_last_refill st) / 10 ^ 9) +
      real (length calls) * (2 * u * real (max burst 1) + (20 * real (max qps 1) + 4) * tiny) \<and>
    (sorted_wrt (\<le>) (bs_last_refill st # calls) \<longrightarrow> set_back (bs_last_refill st) calls = 0) \<and>
    0 \<le> bs_tokens st \<and> bs_tokens st \<le> real (max burst 1)"
proof -
  have tb: "tk_burst tb = real (max burst 1)" "tk_qps tb = real (max qps 1)" using assms(2) by (auto simp: token_bucket_new_def Let_def)
  have ok: "bucket_ok tb st" unfolding assms(4) by (rule bucket_after_ok [OF assms(1) token_bucket_new_ok [OF assms(2,3)]])
  then have tokens: "0 \<le> bs_tokens st" "bs_tokens st \<le> real (max burst 1)" using tb by (simp_all add: bucket_ok_def)
  have "real (acquired rnd tb calls st) \<le>
      real (max burst 1) + (1 + u) ^ 4 * real (max qps 1) *
        (real (last (bs_last_refill st # calls) + set_back (bs_last_refill st) calls - bs_last_refill st) / 10 ^ 9) +
      real (length calls) * (2 * u * real (max burst 1) + (20 * real (max qps 1) + 4) * tiny)"
    using acquired_bound [OF assms(1) ok, of calls] tokens unfolding slack_def credited_def tb by linarith
  then show ?thesis using tokens set_back_sorted by blast
qed

text \<open>A reading that goes back by a second: the bound counts that second twice.\<close>

theorem request_rate_bounded_witness:
  "\<exists>tb st. token_bucket_new 100 200 0 = (tb, st) \<and> real (acquired id tb [0, 10 ^ 9] st) \<le> 300 \<and>
     real (acquired id tb [10 ^ 9, 0, 10 ^ 9] st) \<le> 400"
proof -
  obtain tb st where new: "token_bucket_new 100 200 0 = (tb, st)" by fastforce
  have laws: "float_laws id 0 0" by (auto simp: float_laws_def mono_def)
  have st: "st = bucket_after id tb st []" by (simp add: bucket_after_def)
  have last: "bs_last_refill st = 0" using new by (auto simp: token_bucket_new_def Let_def)
  note bound = request_rate_bounded [OF laws new _ st, unfolded last]
  show ?thesis using new bound [of "[0, 10 ^ 9]"] bound [of "[10 ^ 9, 0, 10 ^ 9]"] by simp
qed

end
