(* ===== verification/Http_Api.thy ===== *)
theory Http_Api
  imports Archive_Keys Metadata_Properties Rate_Limit
begin

text \<open>
  The HTTP interface (\<^verbatim>\<open>src/src/http_api.rs\<close>): the handlers, the rate limit in front of the provider
  routes, the readiness probe and the mapping of errors to status codes.

  The router of \<^verbatim>\<open>axum\<close> is not modelled: a request is one of the routes of \<open>build_router_with_options\<close>
  with its path parameters. An early return of a handler is an error of the operation; \<open>respond\<close>
  turns both outcomes into the response. The rounding of \<open>f64\<close> and the check of
  \<open>HeaderValue::from_str\<close> are parameters.
\<close>

section \<open>Definitions\<close>

record ('u, 'c) app =
  ap_metadata :: "('u, 'c) metadata_service"
  ap_storage :: "'c provider_storage"
  ap_data_dir :: string
  ap_limiter :: token_bucket

record 'u app_state = "'u storage_state" +
  ap_ready_sequence :: nat
  ap_bucket :: bucket_state

record ('u, 'c, 'v, 'h) app_env = "('u, 'c, 'v, 'h) storage_env" +
  env_round :: "real \<Rightarrow> real"
  env_header_ok :: "string \<Rightarrow> bool"

record archive_response =
  ar_url :: string
  ar_hashes :: "string list"

datatype http_body =
    EmptyBody
  | TextBody string
  | VersionsBody "string set"
  | ArchivesBody "string \<rightharpoonup> archive_response"
  | FileBody "octet list"

record http_response =
  hr_status :: nat
  hr_headers :: "(string \<times> string) list"
  hr_body :: http_body

datatype api_request =
    Livez
  | Readyz
  | ProviderMetadata string string string string
  | ProviderDownload string string string string
  | SyncProviders

definition status_response :: "nat \<Rightarrow> http_response" where
  "status_response status = \<lparr>hr_status = status, hr_headers = [], hr_body = EmptyBody\<rparr>"

definition text_response :: "nat \<Rightarrow> string \<Rightarrow> http_response" where
  "text_response status text = \<lparr>hr_status = status, hr_headers = [(''content-type'', ''text/plain; charset=utf-8'')], hr_body = TextBody text\<rparr>"

definition json_response :: "http_body \<Rightarrow> http_response" where
  "json_response body = \<lparr>hr_status = 200, hr_headers = [(''content-type'', ''application/json'')], hr_body = body\<rparr>"

definition respond :: "('s, 'r, 'r) oper \<Rightarrow> 's \<Rightarrow> 'r \<times> 's" where
  "respond f s = (case f s of (Inl r, s') \<Rightarrow> (r, s') | (Inr r, s') \<Rightarrow> (r, s'))"

definition metadata_error_response :: "metadata_error \<Rightarrow> http_response" where
  "metadata_error_response error = (case error of
     MdNotFound \<Rightarrow> status_response 404
   | MdInvalidAddress _ \<Rightarrow> status_response 400
   | MdRegistryNotAllowed _ \<Rightarrow> status_response 400
   | MdSyncInProgress \<Rightarrow> status_response 409
   | _ \<Rightarrow> status_response 502)"

subsection \<open>Probes\<close>

definition livez :: "('s, http_response, http_response) oper" where
  "livez = op_ok (text_response 200 ''ok'')"

definition next_ready_sequence :: "(('u, 'z) app_state_scheme, 'e, nat) oper" where
  "next_ready_sequence =
     (\<lambda>s. (Inr (ap_ready_sequence s), s\<lparr>ap_ready_sequence := wrapping_inc64 (ap_ready_sequence s)\<rparr>))"

definition ready_probe_name :: "nat \<Rightarrow> nat \<Rightarrow> string" where
  "ready_probe_name pid sequence = ''.readyz-'' @ dec_digits pid @ ''-'' @ dec_digits sequence"

definition probe_write :: "('u, 'c, 'y) env_scheme \<Rightarrow> string \<Rightarrow> (('u, 'z) world_scheme, io_error, unit) oper" where
  "probe_write env probe =
     op_bind (create_new_file env probe) (\<lambda>_.
     op_bind (file_step env) (\<lambda>_.
     remove_file env probe))"

definition readyz ::
  "('u, 'c, 'v, 'h, 'y) app_env_scheme \<Rightarrow> ('u, 'c) app \<Rightarrow> (('u, 'z) app_state_scheme, http_response, http_response) oper" where
  "readyz env app =
     op_bind next_ready_sequence (\<lambda>sequence.
     op_catch (probe_write env (path_join (ap_data_dir app) (ready_probe_name (env_pid env) sequence))) (\<lambda>r. case r of
       Inr _ \<Rightarrow> op_ok (text_response 200 ''ok'')
     | Inl _ \<Rightarrow> op_ok (text_response 503 ''cache unavailable'')))"

subsection \<open>Provider routes\<close>

definition archives_of :: "version_metadata \<Rightarrow> string \<rightharpoonup> archive_response" where
  "archives_of metadata = map_of (rev (map (\<lambda>platform.
     (pm_os platform @ ''_'' @ pm_arch platform,
      \<lparr>ar_url = ''download/'' @ pm_filename platform,
       ar_hashes = (case pm_shasum platform of Some shasum \<Rightarrow> [''zh:'' @ shasum] | None \<Rightarrow> [])\<rparr>)) (vm_platforms metadata)))"

definition get_provider_metadata ::
  "('u, 'c, 'v, 'h, 'y) app_env_scheme \<Rightarrow> ('u, 'c) app \<Rightarrow> string \<Rightarrow> string \<Rightarrow> string \<Rightarrow> string \<Rightarrow>
     (('u, 'z) app_state_scheme, http_response, http_response) oper" where
  "get_provider_metadata env app hostname namespace provider_type action =
     (case map_option str_trim (strip_suffix ''.json'' action) of
        None \<Rightarrow> op_err (status_response 400)
      | Some version \<Rightarrow>
          (let version = trim_start_matches CHR ''v'' version in
           if version = ''index''
           then op_bind (op_map_err metadata_error_response (list_versions env (ap_metadata app) hostname namespace provider_type)) (\<lambda>versions.
             op_ok (json_response (VersionsBody (set versions))))
           else op_bind (op_map_err metadata_error_response (get_version env (ap_metadata app) hostname namespace provider_type version)) (\<lambda>found.
             case found of
               None \<Rightarrow> op_err (status_response 404)
             | Some metadata \<Rightarrow> op_ok (json_response (ArchivesBody (archives_of metadata))))))"

definition node_bytes :: "node \<Rightarrow> octet list" where
  "node_bytes n = (case n of File bytes _ \<Rightarrow> bytes | _ \<Rightarrow> [])"

text \<open>From the opened file to the response.\<close>

definition send_archive ::
  "('u, 'c, 'v, 'h, 'y) app_env_scheme \<Rightarrow> string \<Rightarrow> string \<Rightarrow> (('u, 'z) app_state_scheme, http_response, http_response) oper" where
  "send_archive env archive path =
     op_catch (open_file env path) (\<lambda>r. case r of
       Inl IoNotFound \<Rightarrow> op_err (status_response 404)
     | Inl _ \<Rightarrow> op_err (status_response 500)
     | Inr file \<Rightarrow>
         op_bind (op_map_err (\<lambda>_. status_response 500) (file_step env)) (\<lambda>_.
           let disposition = ''attachment; filename='' @ [CHR 0x22] @ archive @ [CHR 0x22] in
           if env_header_ok env disposition
           then op_ok \<lparr>hr_status = 200, hr_headers = [(''content-length'', dec_digits (length (node_bytes file))),
             (''content-type'', ''application/zip''), (''content-disposition'', disposition)], hr_body = FileBody (node_bytes file)\<rparr>
           else op_err (status_response 500)))"

definition download_provider_archive ::
  "('u, 'c, 'v, 'h, 'y) app_env_scheme \<Rightarrow> ('u, 'c) app \<Rightarrow> string \<Rightarrow> string \<Rightarrow> string \<Rightarrow> string \<Rightarrow>
     (('u, 'z) app_state_scheme, http_response, http_response) oper" where
  "download_provider_archive env app hostname namespace provider_type archive =
     (if is_err (parse_archive (sv_parse (env_semver env)) provider_type archive) then op_err (status_response 400)
      else
        op_bind (op_map_err metadata_error_response
          (get_platform_by_archive env (ap_metadata app) hostname namespace provider_type archive)) (\<lambda>found. case found of
          None \<Rightarrow> op_err (status_response 404)
        | Some platform \<Rightarrow>
            (if pm_filename platform \<noteq> archive then op_err (status_response 404)
             else
               op_bind (op_map_err (\<lambda>_. status_response 502) (load_or_fetch env (ap_storage app)
                 \<lparr>ak_hostname = hostname, ak_namespace = namespace, ak_provider_type = provider_type, ak_filename = archive\<rparr> platform))
                 (send_archive env archive))))"

definition sync_providers ::
  "('u, 'c, 'v, 'h, 'y) app_env_scheme \<Rightarrow> ('u, 'c) app \<Rightarrow> (('u, 'z) app_state_scheme, http_response, http_response) oper" where
  "sync_providers env app =
     op_catch (sync_known env (ap_metadata app)) (\<lambda>r. op_ok (status_response (case r of
       Inr _ \<Rightarrow> 204 | Inl MdSyncInProgress \<Rightarrow> 409 | Inl _ \<Rightarrow> 502)))"

subsection \<open>The router\<close>

definition acquire_token ::
  "('u, 'c, 'v, 'h, 'y) app_env_scheme \<Rightarrow> ('u, 'c) app \<Rightarrow> (('u, 'z) app_state_scheme, http_response, bool) oper" where
  "acquire_token env app =
     op_bind (instant_now env) (\<lambda>now.
       (\<lambda>s. case try_acquire (env_round env) (ap_limiter app) now (ap_bucket s) of
          (ok, bucket) \<Rightarrow> (Inr ok, s\<lparr>ap_bucket := bucket\<rparr>)))"

definition enforce_rate_limit ::
  "('u, 'c, 'v, 'h, 'y) app_env_scheme \<Rightarrow> ('u, 'c) app \<Rightarrow> (('u, 'z) app_state_scheme, http_response, http_response) oper \<Rightarrow>
     (('u, 'z) app_state_scheme, http_response, http_response) oper" where
  "enforce_rate_limit env app handler =
     op_bind (acquire_token env app) (\<lambda>ok.
       if ok then handler
       else op_err \<lparr>hr_status = 429, hr_headers = [(''retry-after'', ''1'')], hr_body = EmptyBody\<rparr>)"

definition route ::
  "('u, 'c, 'v, 'h, 'y) app_env_scheme \<Rightarrow> ('u, 'c) app \<Rightarrow> api_request \<Rightarrow> (('u, 'z) app_state_scheme, http_response, http_response) oper" where
  "route env app request = (case request of
     Livez \<Rightarrow> livez
   | Readyz \<Rightarrow> readyz env app
   | ProviderMetadata hostname namespace provider_type action \<Rightarrow>
       enforce_rate_limit env app (get_provider_metadata env app hostname namespace provider_type action)
   | ProviderDownload hostname namespace provider_type archive \<Rightarrow>
       enforce_rate_limit env app (download_provider_archive env app hostname namespace provider_type archive)
   | SyncProviders \<Rightarrow> enforce_rate_limit env app (sync_providers env app))"

definition handle_request ::
  "('u, 'c, 'v, 'h, 'y) app_env_scheme \<Rightarrow> ('u, 'c) app \<Rightarrow> api_request \<Rightarrow> ('u, 'z) app_state_scheme \<Rightarrow> http_response \<times> ('u, 'z) app_state_scheme" where
  "handle_request env app request = respond (route env app request)"

text \<open>\<open>build_router_with_options\<close> and the initial state.\<close>

definition build_app ::
  "('u, 'c) metadata_service \<Rightarrow> 'c provider_storage \<Rightarrow> string \<Rightarrow> nat \<Rightarrow> nat \<Rightarrow> nat \<Rightarrow> ('u, 'c) app \<times> bucket_state" where
  "build_app svc st data_dir conn_qps conn_burst now =
     (case token_bucket_new conn_qps conn_burst now of
        (limiter, bucket) \<Rightarrow> (\<lparr>ap_metadata = svc, ap_storage = st, ap_data_dir = data_dir, ap_limiter = limiter\<rparr>, bucket))"

definition build_router ::
  "('u, 'c) metadata_service \<Rightarrow> 'c provider_storage \<Rightarrow> string \<Rightarrow> nat \<Rightarrow> ('u, 'c) app \<times> bucket_state" where
  "build_router svc st data_dir now = build_app svc st data_dir 100 200 now"

definition initial_app_state :: "'u storage_state \<Rightarrow> bucket_state \<Rightarrow> 'u app_state" where
  "initial_app_state s bucket = storage_state.extend s \<lparr>ap_ready_sequence = 0, ap_bucket = bucket\<rparr>"

end
