(* ===== verification/Server.thy ===== *)
theory Server
  imports Http_Api Stale_Files Cert_Reload
begin

text \<open>
  The binary (\<^verbatim>\<open>src/src/main.rs\<close>): the start of the server up to its listeners, the redirect from the plain
  listener to HTTPS.

  Command line parsing, logging and the installation of the crypto provider are not modelled; the
  operating system's answers (environment variables, directory listings, binding a socket), the HTTP
  crate's parsing of an authority and of header values, and the TLS library are parameters.
\<close>

section \<open>Definitions\<close>

type_synonym port = "16 word"

record args =
  ag_bind_address :: string
  ag_http_port :: port
  ag_https_port :: port
  ag_https_redirect_port :: "port option"
  ag_enable_tls :: bool
  ag_tls_cert_file :: "string option"
  ag_tls_private_key_file :: "string option"
  ag_tls_auto_cert_domains :: "string list"
  ag_data_source_dir :: string
  ag_allowed_registries :: "string list"
  ag_metadata_ttl_seconds :: nat
  ag_outbound_mode :: outbound_mode
  ag_upstream_ca_file :: "string option"
  ag_log_debug :: bool
  ag_log_verbosity :: nat
  ag_conn_qps :: nat
  ag_conn_burst :: nat
  ag_max_connections :: nat

text \<open>The arguments when nothing is given on the command line or in the environment.\<close>

definition default_args :: args where
  "default_args = \<lparr>ag_bind_address = ''0.0.0.0'', ag_http_port = 8080, ag_https_port = 8443, ag_https_redirect_port = None,
     ag_enable_tls = True, ag_tls_cert_file = None, ag_tls_private_key_file = None, ag_tls_auto_cert_domains = [],
     ag_data_source_dir = ''/var/run/open-tf-mirror'', ag_allowed_registries = [''registry.terraform.io''],
     ag_metadata_ttl_seconds = 30 * 60, ag_outbound_mode = Direct, ag_upstream_ca_file = None, ag_log_debug = False,
     ag_log_verbosity = 0, ag_conn_qps = 100, ag_conn_burst = 200, ag_max_connections = 4096\<rparr>"

definition default_log_level :: "bool \<Rightarrow> nat \<Rightarrow> string" where
  "default_log_level debug verbosity = (if debug \<or> verbosity > 0 then ''debug'' else ''info'')"

subsection \<open>Bind addresses\<close>

text \<open>\<open>SocketAddr::from_str\<close> of \<open>std::net\<close>, with the scope of an IPv6 address.\<close>

datatype socket_addr = SocketV4 ipv4 port | SocketV6 ipv6 nat port

definition read_port :: "string \<Rightarrow> (port \<times> string) option" where
  "read_port s = (case read_given_char CHR '':'' s of
     None \<Rightarrow> None
   | Some s \<Rightarrow> map_option (map_prod of_nat id) (read_number 10 (length s) 65535 True s))"

definition read_scope_id :: "string \<Rightarrow> (nat \<times> string) option" where
  "read_scope_id s = (case read_given_char CHR 0x25 s of
     None \<Rightarrow> None
   | Some s \<Rightarrow> read_number 10 (length s) (2 ^ 32 - 1) True s)"

definition read_socket_addr_v4 :: "string \<Rightarrow> (socket_addr \<times> string) option" where
  "read_socket_addr_v4 s = (case read_ipv4_addr s of
     None \<Rightarrow> None
   | Some (ip, s) \<Rightarrow> map_option (map_prod (SocketV4 ip) id) (read_port s))"

definition read_socket_addr_v6 :: "string \<Rightarrow> (socket_addr \<times> string) option" where
  "read_socket_addr_v6 s = (case read_given_char CHR ''['' s of
     None \<Rightarrow> None
   | Some s \<Rightarrow>
  (case read_ipv6_addr s of
     None \<Rightarrow> None
   | Some (ip, s) \<Rightarrow>
  (let (scope, s) = (case read_scope_id s of Some r \<Rightarrow> r | None \<Rightarrow> (0, s)) in
   case read_given_char CHR '']'' s of
     None \<Rightarrow> None
   | Some s \<Rightarrow> map_option (map_prod (SocketV6 ip scope) id) (read_port s))))"

definition parse_socket_addr :: "string \<Rightarrow> socket_addr option" where
  "parse_socket_addr s =
     (case (case read_socket_addr_v4 s of Some r \<Rightarrow> Some r | None \<Rightarrow> read_socket_addr_v6 s) of
        Some (addr, []) \<Rightarrow> Some addr
      | _ \<Rightarrow> None)"

datatype startup_error =
    TtlTooShort
  | OutboundConfig outbound_error
  | DataDir io_error
  | MetadataConfig metadata_error
  | BindAddress string
  | AutoCertUnsupported
  | CertFileRequired
  | KeyFileRequired
  | TlsConfig tls_error
  | BindFailed string

definition bind_addr :: "string \<Rightarrow> port \<Rightarrow> string \<Rightarrow> (startup_error, socket_addr) result" where
  "bind_addr bind_address port label =
     ok_or (parse_socket_addr (bind_address @ '':'' @ dec_digits (unat port))) (BindAddress label)"

subsection \<open>Start\<close>

record ('u, 'c, 'v, 'h, 'k, 's) server_env = "('u, 'c, 'v, 'h) app_env" +
  env_var :: "string \<Rightarrow> string option"
  env_builder_error :: "'c client_config \<Rightarrow> string option"
  env_ca_file :: "string \<Rightarrow> (string, octet list) result"
  env_pem_bundle :: "octet list \<Rightarrow> (string, 'c list) result"
  env_read_dir :: read_dir
  env_read_index :: "string \<Rightarrow> (io_error, octet list) result"
  env_providers_tree :: "disk option"
  env_metadata_tree :: "disk option"
  env_tls :: "('k, 's) tls_env"
  env_bind :: "socket_addr \<Rightarrow> string option"

fun create_directories :: "('u, 'c, 'y) env_scheme \<Rightarrow> string list \<Rightarrow> (('u, 'z) world_scheme, startup_error, unit) oper" where
  "create_directories env [] = op_ok ()"
| "create_directories env (directory # directories) =
     op_bind (op_map_err DataDir (create_dir_all env directory)) (\<lambda>_. create_directories env directories)"

text \<open>\<open>tokio::fs::write\<close>: open the file, which creates or truncates it, and write.\<close>

fun fs_target :: "nat \<Rightarrow> file_system \<Rightarrow> string \<Rightarrow> (io_error, string) result" where
  "fs_target fuel fs p =
     (case fs p of
        Some (Symlink target) \<Rightarrow>
          (case fuel of 0 \<Rightarrow> Inl (IoOther ''too many levels of symbolic links'')
           | Suc fuel' \<Rightarrow> fs_target fuel' fs (path_join (path_parent p) target))
      | _ \<Rightarrow> Inr p)"

declare fs_target.simps [simp del]

definition create_file :: "('u, 'c, 'y) env_scheme \<Rightarrow> string \<Rightarrow> (('u, 'z) world_scheme, io_error, string) oper" where
  "create_file env p = io_op env (\<lambda>tick fs. case fs_target 40 fs p of
     Inl e \<Rightarrow> Inl e
   | Inr q \<Rightarrow> if fs q = Some Directory then Inl (IoOther ''is a directory'')
              else Inr (q, if fs q = Some Special then fs else fs(q \<mapsto> File [] (env_stamp env tick))))"

definition write_file :: "('u, 'c, 'y) env_scheme \<Rightarrow> string \<Rightarrow> octet list \<Rightarrow> (('u, 'z) world_scheme, io_error, unit) oper" where
  "write_file env p bytes = op_bind (create_file env p) (\<lambda>q. append_file env q bytes)"

definition startup_probe_name :: "nat \<Rightarrow> string" where
  "startup_probe_name pid = ''.startup-write-test-'' @ dec_digits pid"

definition prepare_data_dir ::
  "('u, 'c, 'v, 'h, 'k, 's, 'y) server_env_scheme \<Rightarrow> string \<Rightarrow> (('u, 'z) world_scheme, startup_error, unit) oper" where
  "prepare_data_dir env data_dir =
     op_bind (create_directories env [data_dir, path_join data_dir ''metadata'', path_join data_dir ''providers'']) (\<lambda>_.
     op_catch (remove_stale_temp_files env data_dir (env_providers_tree env) (env_metadata_tree env)) (\<lambda>_.
     let probe = path_join data_dir (startup_probe_name (env_pid env)) in
     op_bind (op_map_err DataDir (write_file env probe [111, 107])) (\<lambda>_.
     op_map_err DataDir (remove_file env probe))))"

text \<open>A listener: its address, the certificate resolver of HTTPS, the port the plain one redirects to and the
  limit of its connections.\<close>

record 's listener_config =
  lc_addr :: socket_addr
  lc_tls :: "'s resolver option"
  lc_redirect :: "port option"
  lc_max_connections :: nat

record ('u, 'c, 's) server_plan =
  sp_app :: "('u, 'c) app"
  sp_bucket :: bucket_state
  sp_indices :: "(provider_key, index_entry) hashmap"
  sp_listeners :: "'s listener_config list"

definition bind_listener ::
  "('u, 'c, 'v, 'h, 'k, 's, 'y) server_env_scheme \<Rightarrow> socket_addr \<Rightarrow> (startup_error, unit) result" where
  "bind_listener env addr = (case env_bind env addr of Some e \<Rightarrow> Inl (BindFailed e) | None \<Rightarrow> Inr ())"

definition build_tls_acceptor ::
  "('u, 'c, 'v, 'h, 'k, 's, 'y) server_env_scheme \<Rightarrow> string \<Rightarrow> string \<Rightarrow> (('u, 'z) world_scheme, startup_error, 's resolver) oper" where
  "build_tls_acceptor env cert_path key_path =
     op_bind (now_epoch env) (\<lambda>load_epoch.
     op_bind (instant_now env) (\<lambda>now.
     op_result (map_err TlsConfig (new_resolver (env_tls env) cert_path key_path (5 * second) (int load_epoch) now))))"

definition tls_listeners ::
  "('u, 'c, 'v, 'h, 'k, 's, 'y) server_env_scheme \<Rightarrow> args \<Rightarrow> socket_addr \<Rightarrow>
     (('u, 'z) world_scheme, startup_error, 's listener_config list) oper" where
  "tls_listeners env args http_addr =
     (if ag_tls_auto_cert_domains args \<noteq> [] \<and> (ag_tls_cert_file args = None \<or> ag_tls_private_key_file args = None)
      then op_err AutoCertUnsupported
      else
        op_bind (op_result (ok_or (ag_tls_cert_file args) CertFileRequired)) (\<lambda>cert.
        op_bind (op_result (ok_or (ag_tls_private_key_file args) KeyFileRequired)) (\<lambda>key.
        op_bind (op_result (bind_addr (ag_bind_address args) (ag_https_port args) ''HTTPS'')) (\<lambda>https_addr.
        op_bind (build_tls_acceptor env cert key) (\<lambda>resolver.
        op_bind (op_result (bind_listener env https_addr)) (\<lambda>_.
        op_bind (op_result (bind_listener env http_addr)) (\<lambda>_.
        op_ok
          [\<lparr>lc_addr = http_addr, lc_tls = None,
            lc_redirect = Some (case ag_https_redirect_port args of Some port \<Rightarrow> port | None \<Rightarrow> ag_https_port args),
            lc_max_connections = ag_max_connections args\<rparr>,
           \<lparr>lc_addr = https_addr, lc_tls = Some resolver, lc_redirect = None, lc_max_connections = ag_max_connections args\<rparr>])))))))"

definition plain_listeners ::
  "('u, 'c, 'v, 'h, 'k, 's, 'y) server_env_scheme \<Rightarrow> args \<Rightarrow> socket_addr \<Rightarrow>
     (('u, 'z) world_scheme, startup_error, 's listener_config list) oper" where
  "plain_listeners env args http_addr =
     op_bind (op_result (bind_listener env http_addr)) (\<lambda>_.
     op_ok [\<lparr>lc_addr = http_addr, lc_tls = None, lc_redirect = None, lc_max_connections = ag_max_connections args\<rparr>])"

text \<open>\<open>main\<close> up to \<open>serve_listener\<close>.\<close>

definition start_server ::
  "('u, 'c, 'v, 'h, 'k, 's, 'y) server_env_scheme \<Rightarrow> args \<Rightarrow> (('u, 'z) world_scheme, startup_error, ('u, 'c, 's) server_plan) oper" where
  "start_server env args =
     (if ag_metadata_ttl_seconds args < 30 then op_err TtlTooShort
      else
        op_bind (op_result (map_err OutboundConfig (new_client (env_builder_error env) (env_var env) (env_ca_file env)
          (env_pem_bundle env) (ag_outbound_mode args) (ag_upstream_ca_file args)))) (\<lambda>outbound.
        op_bind (prepare_data_dir env (ag_data_source_dir args)) (\<lambda>_.
        op_bind (op_result (map_err MetadataConfig (with_registry_client (env_read_dir env) (env_read_index env) (env_index_of_json env)
          (ag_data_source_dir args) (env_hash_order env (ag_allowed_registries args)) (ag_metadata_ttl_seconds args * second)
          (with_outbound outbound)))) (\<lambda>(metadata, indices).
        let storage = with_bundled_mirror_and_outbound (ag_data_source_dir args) (env_var env ''TF_PLUGIN_MIRROR_DIR'') outbound in
        op_bind (instant_now env) (\<lambda>now.
        let (app, bucket) = build_app metadata storage (ag_data_source_dir args) (ag_conn_qps args) (ag_conn_burst args) now in
        op_bind (op_result (bind_addr (ag_bind_address args) (ag_http_port args) ''HTTP'')) (\<lambda>http_addr.
        op_bind ((if ag_enable_tls args then tls_listeners else plain_listeners) env args http_addr) (\<lambda>listeners.
        op_ok \<lparr>sp_app = app, sp_bucket = bucket, sp_indices = indices, sp_listeners = listeners\<rparr>)))))))"

subsection \<open>The redirect to HTTPS\<close>

datatype http_method = Get | Head | OtherMethod string

record 'x http_request =
  rq_method :: http_method
  rq_path :: string
  rq_path_and_query :: "string option"
  rq_host :: "'x option"

text \<open>The host of an authority, the text of a header value and the check of a new header value.\<close>

record 'x http_crate =
  hc_authority_host :: "string \<Rightarrow> string option"
  hc_to_str :: "'x \<Rightarrow> string option"
  hc_from_str_ok :: "string \<Rightarrow> bool"

definition redirect_location :: "'x http_crate \<Rightarrow> string \<Rightarrow> string \<Rightarrow> port \<Rightarrow> string option" where
  "redirect_location http host path_and_query https_port =
     Option.bind (hc_authority_host http host) (\<lambda>hostname.
     let hostname = (if CHR '':'' \<in> set hostname \<and> \<not> (hostname \<noteq> [] \<and> hd hostname = CHR ''['')
                     then ''['' @ hostname @ '']'' else hostname);
         authority = (if https_port = 443 then hostname else hostname @ '':'' @ dec_digits (unat https_port));
         location = ''https://'' @ authority @ path_and_query
     in if hc_from_str_ok http location then Some location else None)"

definition redirect_http_to_https ::
  "'x http_crate \<Rightarrow> port \<Rightarrow> 'x http_request \<Rightarrow> ('s, http_response, http_response) oper \<Rightarrow> ('s, http_response, http_response) oper" where
  "redirect_http_to_https http https_port request next_handler =
     (if rq_path request \<in> {''/readyz'', ''/livez''} then next_handler
      else if rq_method request \<notin> {Get, Head} then op_err (text_response 400 ''Use HTTPS'')
      else case Option.bind (rq_host request) (hc_to_str http) of
        None \<Rightarrow> op_err (status_response 400)
      | Some host \<Rightarrow>
     (case redirect_location http host (case rq_path_and_query request of None \<Rightarrow> ''/'' | Some v \<Rightarrow> v) https_port of
        None \<Rightarrow> op_err (status_response 400)
      | Some location \<Rightarrow> op_ok \<lparr>hr_status = 302, hr_headers = [(''location'', location)], hr_body = EmptyBody\<rparr>))"

end
