(* ===== verification/App_Frame.thy ===== *)
theory App_Frame
  imports Http_Api
begin

text \<open>
  How the components share the state: the operations of the metadata service leave the part of the
  storage alone, and those of the storage leave the caches of the metadata service alone.
\<close>

section \<open>The metadata service leaves the storage alone\<close>

definition same_storage :: "('u, 'z) metadata_state_scheme \<Rightarrow> ('u, 'z) metadata_state_scheme \<Rightarrow> bool" where
  "same_storage s s' \<longleftrightarrow> metadata_state.more s' = metadata_state.more s"

interpretation storage_part: state_preorder same_storage
  by unfold_locales (simp_all add: same_storage_def)

lemma same_storage_registry:
  fixes f :: "(('u, 'z) metadata_state_scheme, 'e, 'a) oper"
  assumes "op_respects same_more f"
  shows "op_respects same_storage f"
  unfolding op_respects_def
proof (intro allI impI)
  fix s r s' assume "f s = (r, s')"
  then have "registry_state.more s' = registry_state.more s" using assms by (auto simp: op_respects_def same_more_def)
  then show "same_storage s s'" by (cases s; cases s') (simp add: same_storage_def)
qed

lemma same_storage_modify: "(\<And>s. metadata_state.more (f s) = metadata_state.more s) \<Longrightarrow> op_respects same_storage (op_modify f)"
  by (rule storage_part.respects_modify) (simp add: same_storage_def)

lemmas same_storage_basic = same_metadata_basic [THEN same_storage_registry]

lemma same_storage_store:
  "op_respects same_storage (read_json env from_slice path)"
  "op_respects same_storage (write_json_atomic env path encoded)"
proof -
  have io_case: "op_respects same_storage f \<Longrightarrow> (\<And>e. op_respects same_storage (j e)) \<Longrightarrow>
      op_respects same_storage (case io of IoNotFound \<Rightarrow> f | IoOther e \<Rightarrow> j e)" for f j io
    by (cases io) auto
  show "op_respects same_storage (read_json env from_slice path)"
    unfolding read_json_def read_file_def by (intro storage_part.respects_rules same_storage_basic io_case)
  show "op_respects same_storage (write_json_atomic env path encoded)"
    unfolding write_json_atomic_def Let_def sync_parent_def or_remove_def open_file_def file_step_def
      create_dir_all_def create_new_file_def append_file_def rename_file_def remove_file_def
    by (intro storage_part.respects_rules same_storage_basic)
qed

lemma same_storage_locks:
  assumes "op_respects same_storage body"
  shows "op_respects same_storage (with_index_lock key body)" "op_respects same_storage (with_version_lock vkey body)"
  using assms unfolding op_respects_def same_storage_def with_index_lock_def with_version_lock_def
  by (fastforce split: prod.splits)+

lemma same_storage_checks:
  "op_respects same_storage (fresh_entry env svc lookup)" "op_respects same_storage (refresh_allowed_now env svc table k)"
  "op_respects same_storage (record_index_failure env svc key)" "op_respects same_storage (clear_index_failure key)"
  "op_respects same_storage (record_version_failure env svc vkey)" "op_respects same_storage (clear_version_failure vkey)"
  "op_respects same_storage (record_missing_version_refresh env svc key)"
  unfolding fresh_entry_def entry_fresh_def refresh_allowed_now_def record_index_failure_def clear_index_failure_def Let_def
    record_version_failure_def clear_version_failure_def record_missing_version_refresh_def
  by (intro storage_part.respects_rules same_storage_basic same_storage_modify; simp)+

lemma same_storage_load_entry_locked:
  assumes "op_respects same_storage persisted" "op_respects same_storage allowed" "op_respects same_storage refresh"
    "op_respects same_storage clear" "op_respects same_storage record_failure"
  shows "op_respects same_storage (load_entry_locked env svc lookup persisted allowed refresh clear record_failure)"
  unfolding load_entry_locked_def by (intro storage_part.respects_rules same_storage_checks(1) assms)

lemma same_storage_index:
  "op_respects same_storage (refresh_index_unlocked env svc key)" "op_respects same_storage (read_persisted_index env svc key)"
  unfolding refresh_index_unlocked_def read_persisted_index_def Let_def
  by (intro storage_part.respects_rules same_storage_store same_storage_basic same_storage_modify
      same_storage_registry [OF same_metadata_registry(1)]; simp)+

lemma same_storage_load_index: "op_respects same_storage (load_index env svc key)"
  unfolding load_index_def load_index_locked_def index_refresh_allowed_def
  by (intro storage_part.respects_rules same_storage_checks same_storage_locks same_storage_load_entry_locked same_storage_index)

lemma same_storage_fetch_packages:
  "op_respects same_storage (fetch_packages env svc key platforms :: (('u, 'z) metadata_state_scheme, metadata_error, _) oper)"
  by (induction platforms) (auto intro!: storage_part.respects_rules same_storage_registry [OF same_metadata_registry(2)])

lemma same_storage_version:
  "op_respects same_storage (refresh_version env svc key)" "op_respects same_storage (read_persisted_version env svc key)"
proof -
  have index: "op_respects same_storage (index_for_version env svc key)"
    unfolding index_for_version_def missing_refresh_wanted_def missing_version_refresh_allowed_def index_refresh_allowed_def
    by (intro storage_part.respects_rules same_storage_load_index same_storage_checks same_storage_locks same_storage_index)
  show "op_respects same_storage (refresh_version env svc key)" "op_respects same_storage (read_persisted_version env svc key)"
    unfolding refresh_version_def read_persisted_version_def Let_def case_prod_beta
    by (intro storage_part.respects_rules index same_storage_fetch_packages same_storage_store same_storage_basic same_storage_modify; simp)+
qed

lemma same_storage_load_version: "op_respects same_storage (load_version env svc key)"
  unfolding load_version_def load_version_locked_def version_refresh_allowed_def
  by (intro storage_part.respects_rules same_storage_checks same_storage_locks same_storage_load_entry_locked same_storage_version)

lemma same_storage_sync_indices:
  "op_respects same_storage (sync_indices env svc keys failures :: (('u, 'z) metadata_state_scheme, _, _) oper)"
  by (induction keys arbitrary: failures)
    (auto simp: sync_index_def intro!: storage_part.respects_rules same_storage_checks same_storage_locks same_storage_index)

lemma same_storage_queries:
  "op_respects same_storage (list_versions env svc h n t)" "op_respects same_storage (get_version env svc h n t v)"
  "op_respects same_storage (get_platform_by_archive env svc h n t f)" "op_respects same_storage (sync_known env svc)"
proof -
  have entry: "op_respects same_storage (get_version_entry env svc h n t v)" for v
    unfolding get_version_entry_def
    by (intro storage_part.respects_rules same_storage_load_version) (auto intro!: storage_part.respects_pure split: metadata_error.split)
  show "op_respects same_storage (list_versions env svc h n t)" "op_respects same_storage (get_version env svc h n t v)"
    "op_respects same_storage (get_platform_by_archive env svc h n t f)" "op_respects same_storage (sync_known env svc)"
    unfolding list_versions_def get_version_def get_platform_by_archive_def sync_known_def
    by (intro storage_part.respects_rules same_storage_load_index entry same_storage_sync_indices same_storage_modify; simp)+
qed

lemma same_storage_fields:
  fixes s s' :: "('u, 'z) storage_state_scheme"
  assumes "same_storage s s'"
  shows "ss_verified s' = ss_verified s \<and> ss_locks s' = ss_locks s \<and> ss_permits s' = ss_permits s"
  using assms by (cases s; cases s') (simp add: same_storage_def)

section \<open>The storage leaves the metadata alone\<close>

lemma caches_ok_storage [simp]:
  "caches_ok env (s\<lparr>ss_verified := v\<rparr>) = caches_ok env s" "caches_ok env (s\<lparr>ss_locks := l\<rparr>) = caches_ok env s"
  "caches_ok env (s\<lparr>ss_permits := p\<rparr>) = caches_ok env s"
  by (simp_all add: caches_ok_def)

lemma caches_ok_world [simp]:
  "caches_ok env (s\<lparr>w_tick := n\<rparr>) = caches_ok env s" "caches_ok env (s\<lparr>w_fs := fs\<rparr>) = caches_ok env s"
  "caches_ok env (s\<lparr>w_storage_sequence := q\<rparr>) = caches_ok env s"
  by (simp_all add: caches_ok_def)

lemmas keeps_caches_basic = same_metadata_basic [THEN keeps_same_metadata]

lemma keeps_caches_sequence: "keeps (caches_ok env) next_storage_sequence"
  by (simp add: triple_def next_storage_sequence_def)

lemma keeps_node_case:
  "(\<And>b st. keeps I (f b st)) \<Longrightarrow> keeps I d \<Longrightarrow> keeps I (case node of File b st \<Rightarrow> f b st | _ \<Rightarrow> d)"
  by (cases node) auto

lemma keeps_io_case: "keeps I f \<Longrightarrow> (\<And>e. keeps I (j e)) \<Longrightarrow> keeps I (case io of IoNotFound \<Rightarrow> f | IoOther e \<Rightarrow> j e)"
  by (cases io) auto

lemma keeps_caches_verified:
  "keeps (caches_ok env) (record_verified path identity checksum)" "keeps (caches_ok env) (forget_verified path)"
  unfolding record_verified_def forget_verified_def by (intro keeps_modify; simp)+

lemma keeps_caches_hash_file:
  "keeps (caches_ok env) (hash_file env' path max_bytes :: (('u, 'z) metadata_state_scheme, _, _) oper)"
proof -
  have "keeps (caches_ok env) (\<lambda>s :: ('u, 'z) metadata_state_scheme. hash_loop env' max_bytes hasher count bytes s)" for hasher count bytes
    by (auto simp: triple_iff dest!: hash_loop_spec split: sum.splits)
  then show ?thesis
    unfolding hash_file_def open_file_def file_step_def
    by (intro keeps_catch keeps_caches_basic keeps_cases keeps_io_case keeps_bind keeps_node_case keeps_ok keeps_err)
qed

lemma keeps_caches_cached_archive: "keeps (caches_ok env) (cached_archive env' st key expected destination)"
proof -
  have "keeps (caches_ok env) (archive_matches_checksum env' st path expected)" for path
    unfolding archive_matches_checksum_def symlink_metadata_def
    by (intro keeps_catch keeps_caches_basic keeps_cases keeps_io_case keeps_node_case keeps_bind keeps_get keeps_map_err keeps_ok keeps_err
        keeps_caches_hash_file) (auto intro!: keeps_bind keeps_caches_verified keeps_ok)
  then show ?thesis unfolding cached_archive_def by (intro keeps_bind keeps_cases keeps_ok)
qed

lemma keeps_caches_receive:
  "keeps (caches_ok env) (receive env' temp max_bytes hasher count chunks :: (('u, 'z) metadata_state_scheme, _, _) oper)"
  by (induction env' temp max_bytes hasher count chunks rule: receive.induct)
    (auto simp: Let_def append_file_def intro!: keeps_bind keeps_map_err keeps_ok keeps_err keeps_caches_basic)

lemma keeps_caches_wrappers:
  assumes "keeps (caches_ok env) body"
  shows "keeps (caches_ok env) (with_permit body)" "keeps (caches_ok env) (with_archive_lock key body)"
proof -
  have body: "caches_ok env s' = True" if "body s = (r, s')" "caches_ok env s" for s r s'
    using keeps_run [OF assms that(2,1)] by simp
  show "keeps (caches_ok env) (with_permit body)" "keeps (caches_ok env) (with_archive_lock key body)"
    by (auto simp: triple_iff with_permit_unfold with_archive_lock_def split: prod.splits sum.splits dest!: body)
qed

lemma keeps_caches_download: "keeps (caches_ok env) (download env' st key md expected destination)"
  unfolding download_def download_with_permit_def with_temp_cleanup_def fetch_to_def sync_parent_def record_downloaded_def symlink_metadata_def
    create_dir_all_def create_new_file_def remove_file_def rename_file_def open_file_def file_step_def Let_def
  by (intro keeps_bind keeps_result keeps_caches_wrappers keeps_map_err keeps_caches_basic keeps_caches_sequence keeps_catch keeps_cases
      keeps_node_case keeps_ok keeps_err keeps_caches_receive keeps_caches_verified)

lemma keeps_caches_load: "keeps (caches_ok env) (load_or_fetch env' st key md)"
  unfolding load_or_fetch_def locked_load_or_fetch_def
  by (intro keeps_bind keeps_result keeps_cases keeps_err keeps_ok keeps_caches_cached_archive keeps_caches_wrappers keeps_caches_download)

end
