(* ===== verification/Http_Properties.thy ===== *)
theory Http_Properties
  imports App_Frame
begin

text \<open>
  What a client of the HTTP interface can rely on: archives are authentic from the registry's metadata
  to the response body, error statuses mean what they say, and refused requests have no effect.
\<close>

section \<open>Runs of the server\<close>

text \<open>Requests one after the other, between which others change the files. As for the storage, file
  identities are assumed to determine contents whenever the program looks at them: after the metadata of
  an archive was looked up and after the request.\<close>

definition app_init ::
  "('u, 'c, 'v, 'h, 'y) app_env_scheme \<Rightarrow> ('u, 'c) app \<Rightarrow> (file_identity \<Rightarrow> octet list) \<Rightarrow> 'u app_state \<Rightarrow> bool" where
  "app_init env app contents s \<longleftrightarrow>
     (\<exists>m bucket. service_init env (ap_metadata app) m \<and> s = initial_app_state (initial_storage_state m) bucket) \<and>
     fs_faithful contents (w_fs s)"

definition archive_lookup ::
  "('u, 'c, 'v, 'h, 'y) app_env_scheme \<Rightarrow> ('u, 'c) app \<Rightarrow> api_request \<Rightarrow> ('u, 'z) app_state_scheme \<Rightarrow> ('u, 'z) app_state_scheme" where
  "archive_lookup env app request s = (case request of
     ProviderDownload hostname namespace provider_type archive \<Rightarrow>
       snd (get_platform_by_archive env (ap_metadata app) hostname namespace provider_type archive (snd (acquire_token env app s)))
   | _ \<Rightarrow> s)"

inductive app_step ::
  "('u, 'c, 'v, 'h, 'y) app_env_scheme \<Rightarrow> ('u, 'c) app \<Rightarrow> (file_identity \<Rightarrow> octet list) \<Rightarrow> 'u app_state \<Rightarrow> 'u app_state \<Rightarrow> bool"
  for env app contents where
  request: "handle_request env app request s = (response, s') \<Longrightarrow> fs_faithful contents (w_fs (archive_lookup env app request s)) \<Longrightarrow>
    fs_faithful contents (w_fs s') \<Longrightarrow> app_step env app contents s s'"
| disk_change: "fs_faithful contents fs \<Longrightarrow> app_step env app contents s (s\<lparr>w_fs := fs\<rparr>)"

definition app_inv ::
  "('u, 'c, 'v, 'h, 'y) app_env_scheme \<Rightarrow> (octet list \<Rightarrow> string) \<Rightarrow> (file_identity \<Rightarrow> octet list) \<Rightarrow> ('u, 'z) app_state_scheme \<Rightarrow> bool" where
  "app_inv env digest contents s \<longleftrightarrow> caches_ok env s \<and> storage_inv digest contents s"

section \<open>Lemmas\<close>

lemma handle_request_run:
  "handle_request env app request s = (response, s') \<longleftrightarrow>
     (\<exists>r. route env app request s = (r, s') \<and> response = (case r of Inl x \<Rightarrow> x | Inr x \<Rightarrow> x))"
  by (auto simp: handle_request_def respond_def split: prod.splits sum.splits)

lemma acquire_token_run:
  obtains ok tick bucket where "acquire_token env app s = (Inr ok, s\<lparr>w_tick := tick, ap_bucket := bucket\<rparr>)"
proof -
  obtain ok bucket where "try_acquire (env_round env) (ap_limiter app) (env_instant env (w_tick s)) (ap_bucket s) = (ok, bucket)" by fastforce
  then have "acquire_token env app s = (Inr ok, s\<lparr>w_tick := w_tick s + 1, ap_bucket := bucket\<rparr>)"
    by (simp add: acquire_token_def op_bind_def instant_now_def)
  then show ?thesis by (rule that)
qed

lemma enforce_run:
  fixes s :: "('u, 'z) app_state_scheme"
  assumes "enforce_rate_limit env app handler s = (r, s')"
  obtains ok tick bucket where "snd (acquire_token env app s) = s\<lparr>w_tick := tick, ap_bucket := bucket\<rparr>"
    "if ok then handler (s\<lparr>w_tick := tick, ap_bucket := bucket\<rparr>) = (r, s')
     else s' = s\<lparr>w_tick := tick, ap_bucket := bucket\<rparr> \<and> r = Inl \<lparr>hr_status = 429, hr_headers = [(''retry-after'', ''1'')], hr_body = EmptyBody\<rparr>"
proof -
  obtain ok tick bucket where token: "acquire_token env app s = (Inr ok, s\<lparr>w_tick := tick, ap_bucket := bucket\<rparr>)"
    by (rule acquire_token_run)
  show ?thesis
  proof (rule that)
    show "snd (acquire_token env app s) = s\<lparr>w_tick := tick, ap_bucket := bucket\<rparr>" using token by simp
    show "if ok then handler (s\<lparr>w_tick := tick, ap_bucket := bucket\<rparr>) = (r, s')
     else s' = s\<lparr>w_tick := tick, ap_bucket := bucket\<rparr> \<and> r = Inl \<lparr>hr_status = 429, hr_headers = [(''retry-after'', ''1'')], hr_body = EmptyBody\<rparr>"
      using assms token by (auto simp: enforce_rate_limit_def op_bind_def op_err_def)
  qed
qed

lemma app_inv_simps [simp]:
  "app_inv env digest contents (s\<lparr>ap_bucket := b\<rparr>) = app_inv env digest contents s"
  "app_inv env digest contents (s\<lparr>w_tick := n\<rparr>) = app_inv env digest contents s"
  "app_inv env digest contents (s\<lparr>ap_ready_sequence := q\<rparr>) = app_inv env digest contents s"
  by (simp_all add: app_inv_def caches_ok_def storage_inv_def)

lemma app_inv_metadata:
  assumes "app_inv env digest contents s" and "keeps (caches_ok env) f" "op_respects same_storage f"
    and "f s = (r, s')" "fs_faithful contents (w_fs s')"
  shows "app_inv env digest contents s'"
  using assms keeps_run [OF assms(2) _ assms(4)] same_storage_fields [OF respectsD [OF assms(3,4)]]
  by (simp add: app_inv_def storage_inv_def)

lemma app_inv_load:
  assumes "sha_laws (env_sha env) digest" "ps_max_archive_bytes st < 2 ^ 64 - 1" "app_inv env digest contents s"
    and "load_or_fetch env st key md s = (r, s')" "fs_faithful contents (w_fs s')"
  shows "app_inv env digest contents s'"
  using load_storage_inv [OF assms(1,2) _ assms(4,5)] keeps_run [OF keeps_caches_load [of env] _ assms(4)] assms(3) by (simp add: app_inv_def)

lemma send_archive_run:
  assumes "send_archive env archive path s = (r, s')"
  shows "(\<exists>tick. s' = s\<lparr>w_tick := tick\<rparr>) \<and>
    (case r of
       Inr response \<Rightarrow> hr_status response = 200 \<and> (\<exists>q. fs_resolve 40 (w_fs s) path = Inr q \<and>
         hr_body response = FileBody (node_bytes (the (w_fs s q))) \<and>
         (''content-length'', dec_digits (length (node_bytes (the (w_fs s q))))) \<in> set (hr_headers response))
     | Inl response \<Rightarrow> hr_status response \<in> {404, 500})"
proof -
  obtain r1 s1 where opened: "open_file env path s = (r1, s1)" by fastforce
  then have tick: "s1 = s\<lparr>w_tick := Suc (w_tick s)\<rparr>"
    unfolding open_file_def by (rule read_only_tick [rotated]) (auto split: sum.splits)
  show ?thesis
  proof (cases r1)
    case (Inl e)
    then have "s' = s1 \<and> (r = Inl (status_response 404) \<or> r = Inl (status_response 500))"
      using assms opened by (cases e) (auto simp: send_archive_def op_catch_def op_err_def)
    then show ?thesis using tick by (auto simp: status_response_def)
  next
    case (Inr node)
    then obtain q where q: "fs_resolve 40 (w_fs s) path = Inr q" "node = the (w_fs s q)"
      using opened by (auto simp: open_file_def io_op_def split: option.splits sum.splits)
    obtain r2 s2 where step: "file_step env s1 = (r2, s2)" by fastforce
    then have tick2: "s2 = s1\<lparr>w_tick := Suc (w_tick s1)\<rparr>" unfolding file_step_def by (rule io_op_tick)
    have "s' = s2" using assms opened step Inr
      by (cases r2) (auto simp: send_archive_def op_catch_def op_bind_def op_map_err_def op_err_def op_ok_def Let_def split: if_splits)
    moreover have "case r of
       Inr response \<Rightarrow> hr_status response = 200 \<and> hr_body response = FileBody (node_bytes node) \<and>
         (''content-length'', dec_digits (length (node_bytes node))) \<in> set (hr_headers response)
     | Inl response \<Rightarrow> hr_status response \<in> {404, 500}"
      using assms opened step Inr
      by (cases r2) (auto simp: send_archive_def op_catch_def op_bind_def op_map_err_def op_err_def op_ok_def Let_def status_response_def split: if_splits)
    ultimately show ?thesis using q tick tick2 by (auto split: sum.splits)
  qed
qed

abbreviation archive_key_of :: "string \<Rightarrow> string \<Rightarrow> string \<Rightarrow> string \<Rightarrow> archive_key" where
  "archive_key_of hostname namespace provider_type archive \<equiv>
     \<lparr>ak_hostname = hostname, ak_namespace = namespace, ak_provider_type = provider_type, ak_filename = archive\<rparr>"

lemma metadata_error_status: "hr_status (metadata_error_response e) \<in> {400, 404, 409, 502}"
  by (cases e) (simp_all add: metadata_error_response_def status_response_def)

lemma download_cases:
  assumes run: "download_provider_archive env app h n t f s = (r, s')"
  obtains (refused) "s' = s" "r = Inl (status_response 400)"
  | (unknown) r1 response where "get_platform_by_archive env (ap_metadata app) h n t f s = (r1, s')" "r = Inl response"
      "hr_status response \<in> {400, 404, 409, 502}"
  | (unavailable) platform s1 e where "get_platform_by_archive env (ap_metadata app) h n t f s = (Inr (Some platform), s1)"
      "load_or_fetch env (ap_storage app) (archive_key_of h n t f) platform s1 = (Inl e, s')" "r = Inl (status_response 502)"
  | (found) platform s1 path s2 where "get_platform_by_archive env (ap_metadata app) h n t f s = (Inr (Some platform), s1)"
      "load_or_fetch env (ap_storage app) (archive_key_of h n t f) platform s1 = (Inr path, s2)" "send_archive env f path s2 = (r, s')"
proof (cases "is_err (parse_archive (sv_parse (env_semver env)) t f)")
  case True
  then show thesis using run refused by (simp add: download_provider_archive_def op_err_def)
next
  case False
  obtain r1 s1 where get: "get_platform_by_archive env (ap_metadata app) h n t f s = (r1, s1)" by fastforce
  note run = run [unfolded download_provider_archive_def if_not_P [OF False, simplified]]
  show thesis
  proof (cases "\<exists>platform. r1 = Inr (Some platform) \<and> pm_filename platform = f")
    case False
    have "s' = s1 \<and> ((\<exists>e. r = Inl (metadata_error_response e)) \<or> r = Inl (status_response 404))"
    proof (cases r1)
      case (Inl e)
      then show ?thesis using run get \<open>\<not> is_err _\<close> by (auto simp: op_bind_def op_map_err_def)
    next
      case (Inr found)
      then show ?thesis using run get False \<open>\<not> is_err _\<close>
        by (cases found) (simp_all add: op_bind_def op_map_err_def op_err_def)
    qed
    then show thesis using unknown [of r1] get metadata_error_status by (auto simp: status_response_def)
  next
    case True
    then obtain platform where p: "r1 = Inr (Some platform)" "pm_filename platform = f" by blast
    obtain r2 s2 where load: "load_or_fetch env (ap_storage app) (archive_key_of h n t f) platform s1 = (r2, s2)" by fastforce
    have "op_map_err metadata_error_response (get_platform_by_archive env (ap_metadata app) h n t f) s = (Inr (Some platform), s1)"
      using get p by (simp add: op_map_err_def)
    note rest = run [unfolded op_run(1) [of "op_map_err metadata_error_response (get_platform_by_archive env (ap_metadata app) h n t f)", OF this]]
    have rest: "op_bind (op_map_err (\<lambda>_. status_response 502) (load_or_fetch env (ap_storage app) (archive_key_of h n t f) platform))
        (send_archive env f) s1 = (r, s')"
      using rest p(2) \<open>\<not> is_err _\<close> by simp
    show thesis
    proof (cases r2)
      case (Inl e)
      then show thesis using rest load get p unavailable by (simp add: op_bind_def op_map_err_def)
    next
      case (Inr path)
      then show thesis using rest load get p found by (simp add: op_bind_def op_map_err_def)
    qed
  qed
qed

lemma app_inv_download:
  assumes laws: "sha_laws (env_sha env) digest" "ps_max_archive_bytes (ap_storage app) < 2 ^ 64 - 1"
    and inv: "app_inv env digest contents s" and run: "download_provider_archive env app h n t f s = (r, s')"
    and lookup: "fs_faithful contents (w_fs (snd (get_platform_by_archive env (ap_metadata app) h n t f s)))"
    and final: "fs_faithful contents (w_fs s')"
  shows "app_inv env digest contents s'"
proof -
  have looked_up: "app_inv env digest contents s1" if "get_platform_by_archive env (ap_metadata app) h n t f s = (r1, s1)" for r1 s1
    using app_inv_metadata [OF inv keeps_queries(3) same_storage_queries(3) that] lookup that by simp
  from run show ?thesis
  proof (cases rule: download_cases)
    case refused
    then show ?thesis using inv by simp
  next
    case (unknown r1 response)
    then show ?thesis using looked_up by blast
  next
    case (unavailable platform s1 e)
    then show ?thesis using app_inv_load [OF laws looked_up _ final] by blast
  next
    case (found platform s1 path s2)
    obtain tick where s': "s' = s2\<lparr>w_tick := tick\<rparr>" using send_archive_run [OF found(3)] by blast
    then have "app_inv env digest contents s2" using app_inv_load [OF laws looked_up [OF found(1)] found(2)] final by simp
    then show ?thesis unfolding s' by simp
  qed
qed

lemma metadata_route_frame:
  "keeps (caches_ok env) (get_provider_metadata env app h n t a)" "op_respects same_storage (get_provider_metadata env app h n t a)"
  "keeps (caches_ok env) (sync_providers env app)" "op_respects same_storage (sync_providers env app)"
  unfolding get_provider_metadata_def sync_providers_def Let_def
  by (intro keeps_bind keeps_map_err keeps_queries keeps_catch keeps_sync_known keeps_cases keeps_ok keeps_err
      storage_part.respects_rules same_storage_queries)+

lemma probe_frame:
  "keeps (caches_ok env) (probe_write env' probe)" "op_respects same_storage (probe_write env' probe)"
  unfolding probe_write_def create_new_file_def file_step_def remove_file_def
  by (intro keeps_bind keeps_caches_basic storage_part.respects_rules same_storage_basic)+

lemma app_inv_readyz:
  assumes inv: "app_inv env digest contents s" and run: "readyz env app s = (r, s')" and final: "fs_faithful contents (w_fs s')"
  shows "app_inv env digest contents s'"
proof -
  define s0 where "s0 = s\<lparr>ap_ready_sequence := wrapping_inc64 (ap_ready_sequence s)\<rparr>"
  define probe where "probe = path_join (ap_data_dir app) (ready_probe_name (env_pid env) (ap_ready_sequence s))"
  obtain r1 s1 where probed: "probe_write env probe s0 = (r1, s1)" by fastforce
  have "s' = s1" using run probed
    by (cases r1) (simp_all add: readyz_def op_bind_def op_catch_def next_ready_sequence_def s0_def probe_def op_ok_def)
  moreover have "app_inv env digest contents s0" using inv by (simp add: s0_def)
  ultimately show ?thesis using app_inv_metadata [OF _ probe_frame [of env] probed] final by blast
qed

lemma app_inv_route:
  assumes laws: "sha_laws (env_sha env) digest" "ps_max_archive_bytes (ap_storage app) < 2 ^ 64 - 1"
    and inv: "app_inv env digest contents s" and run: "route env app request s = (r, s')"
    and lookup: "fs_faithful contents (w_fs (archive_lookup env app request s))" and final: "fs_faithful contents (w_fs s')"
  shows "app_inv env digest contents s'"
proof -
  have limited: "app_inv env digest contents s'" if limit: "enforce_rate_limit env app handler s = (r, s')"
    and step: "\<And>s0. app_inv env digest contents s0 \<Longrightarrow> s0 = snd (acquire_token env app s) \<Longrightarrow> handler s0 = (r, s') \<Longrightarrow> app_inv env digest contents s'"
    for handler
    using limit
  proof (rule enforce_run)
    fix ok tick bucket
    assume token: "snd (acquire_token env app s) = s\<lparr>w_tick := tick, ap_bucket := bucket\<rparr>"
      and "if ok then handler (s\<lparr>w_tick := tick, ap_bucket := bucket\<rparr>) = (r, s')
       else s' = s\<lparr>w_tick := tick, ap_bucket := bucket\<rparr> \<and> r = Inl \<lparr>hr_status = 429, hr_headers = [(''retry-after'', ''1'')], hr_body = EmptyBody\<rparr>"
    then show ?thesis using step [OF _ token [symmetric]] inv by (simp split: if_splits)
  qed
  show ?thesis
  proof (cases request)
    case Livez
    then show ?thesis using run inv by (simp add: route_def livez_def op_ok_def)
  next
    case Readyz
    then show ?thesis using run inv final by (auto simp: route_def intro: app_inv_readyz)
  next
    case (ProviderMetadata h n t a)
    then have "enforce_rate_limit env app (get_provider_metadata env app h n t a) s = (r, s')" using run by (simp add: route_def)
    then show ?thesis by (rule limited) (rule app_inv_metadata [OF _ metadata_route_frame(1,2) _ final])
  next
    case (ProviderDownload h n t f)
    then have "enforce_rate_limit env app (download_provider_archive env app h n t f) s = (r, s')" using run by (simp add: route_def)
    then show ?thesis
      by (rule limited) (rule app_inv_download [OF laws _ _ _ final], use lookup ProviderDownload in \<open>simp_all add: archive_lookup_def\<close>)
  next
    case SyncProviders
    then have "enforce_rate_limit env app (sync_providers env app) s = (r, s')" using run by (simp add: route_def)
    then show ?thesis by (rule limited) (rule app_inv_metadata [OF _ metadata_route_frame(3,4) _ final])
  qed
qed

lemma app_init_inv:
  assumes "app_init env app contents s"
  shows "app_inv env digest contents s"
proof -
  obtain m bucket where s: "service_init env (ap_metadata app) m" "s = initial_app_state (initial_storage_state m) bucket"
    and "fs_faithful contents (w_fs s)" using assms by (auto simp: app_init_def)
  then show ?thesis using service_init_caches_ok [OF s(1)]
    by (simp add: app_inv_def caches_ok_def storage_inv_def initial_app_state_def initial_storage_state_def storage_state.defs
        metadata_state.defs empty_lock_table_def verified_ok_def)
qed

lemma app_invariant:
  fixes env :: "('u, 'c, 'v, 'h, 'y) app_env_scheme"
  assumes "sha_laws (env_sha env) digest" "ps_max_archive_bytes (ap_storage app) < 2 ^ 64 - 1"
  shows "inductive_invariant (app_init env app contents) (app_step env app contents) (app_inv env digest contents)"
proof
  fix s s' :: "'u app_state"
  show "app_inv env digest contents s" if "app_init env app contents s" using that by (rule app_init_inv)
  assume inv: "app_inv env digest contents s" and step: "app_step env app contents s s'"
  from step show "app_inv env digest contents s'"
  proof cases
    case (request request response)
    then obtain r where "route env app request s = (r, s')" by (auto simp: handle_request_run)
    then show ?thesis using app_inv_route [OF assms inv] request by blast
  next
    case (disk_change fs)
    then show ?thesis using inv by (simp add: app_inv_def storage_inv_def)
  qed
qed

lemmas app_reach_inv = inductive_invariant.reach_inv [OF app_invariant]

abbreviation refuses :: "('s, metadata_error, 'a) oper \<Rightarrow> 's \<Rightarrow> bool" where
  "refuses f s \<equiv> op_map_err metadata_error_response f s = (Inl (status_response 400), s)"

lemma refuses_bind: "refuses f s \<Longrightarrow> refuses (op_bind f g) s"
  by (auto simp: op_bind_def op_map_err_def map_err_def split: prod.splits sum.splits)

lemma refuses_err:
  "refuses (op_err (MdInvalidAddress what)) s" "refuses (op_err (MdRegistryNotAllowed what)) s"
  by (simp_all add: op_map_err_def op_err_def metadata_error_response_def)

lemma refused_key:
  assumes "h \<notin> set (sv_allowed_registries svc)"
  shows "refuses (op_bind (op_result (provider_key_of svc h n t)) k) s"
  using assms refuses_err
  by (auto simp: provider_key_of_def try_bind_def validate_hostname_def validate_component_def)

lemma refused_registry:
  assumes "h \<notin> set (sv_allowed_registries svc)"
  shows "refuses (list_versions env svc h n t) s" "refuses (get_version env svc h n t v) s"
    "refuses (get_platform_by_archive env svc h n t f) s"
proof -
  note key = refused_key [OF assms]
  have entry: "refuses (get_version_entry env svc h n t v) s" for v
    using key refuses_err by (auto simp: get_version_entry_def validate_version_def)
  show "refuses (list_versions env svc h n t) s" unfolding list_versions_def by (rule key)
  show "refuses (get_version env svc h n t v) s" unfolding get_version_def by (intro refuses_bind entry)
  show "refuses (get_platform_by_archive env svc h n t f) s" unfolding get_platform_by_archive_def
    by (cases "parse_archive (sv_parse (env_semver env)) t f") (simp_all add: refuses_bind entry refuses_err)
qed

lemma refused_handlers:
  assumes "h \<notin> set (sv_allowed_registries (ap_metadata app))"
  shows "get_provider_metadata env app h n t a s = (Inl (status_response 400), s)"
    and "download_provider_archive env app h n t f s = (Inl (status_response 400), s)"
  using op_run(2) [OF refused_registry(1) [OF assms]] op_run(2) [OF refused_registry(2) [OF assms]] op_run(2) [OF refused_registry(3) [OF assms]]
  by (auto simp: get_provider_metadata_def download_provider_archive_def Let_def op_err_def split: option.split)

lemma download_authentic:
  assumes laws: "sha_laws (env_sha env) digest" "ps_max_archive_bytes (ap_storage app) < 2 ^ 64 - 1"
    and inv: "app_inv env digest contents s"
    and faithful: "fs_faithful contents (w_fs (archive_lookup env app (ProviderDownload h n t f) s))"
    and run: "handle_request env app (ProviderDownload h n t f) s = (response, s')" and status: "hr_status response = 200"
  shows "h \<in> set (sv_allowed_registries (ap_metadata app)) \<and>
    (\<exists>platform checksum bytes.
       fst (get_platform_by_archive env (ap_metadata app) h n t f (snd (acquire_token env app s))) = Inr (Some platform) \<and>
       pm_filename platform = f \<and> pm_shasum platform = Some checksum \<and> checksum_ok checksum \<and>
       hr_body response = FileBody bytes \<and> digest bytes = to_ascii_lowercase checksum \<and>
       length bytes \<le> ps_max_archive_bytes (ap_storage app) \<and>
       (''content-length'', dec_digits (length bytes)) \<in> set (hr_headers response))"
proof -
  obtain r where limit: "enforce_rate_limit env app (download_provider_archive env app h n t f) s = (r, s')"
    and response: "response = (case r of Inl x \<Rightarrow> x | Inr x \<Rightarrow> x)"
    using run by (auto simp: handle_request_run route_def)
  define s0 where "s0 = snd (acquire_token env app s)"
  have inv0: "app_inv env digest contents s0" and down: "download_provider_archive env app h n t f s0 = (r, s')"
    using limit by (rule enforce_run; use inv response status in \<open>simp add: s0_def split: if_splits\<close>)+
  from down show ?thesis
  proof (cases rule: download_cases)
    case (found platform s1 path s2)
    then have s1: "s1 = archive_lookup env app (ProviderDownload h n t f) s" by (simp add: archive_lookup_def s0_def)
    have inv1: "app_inv env digest contents s1"
      using app_inv_metadata [OF inv0 keeps_queries(3) same_storage_queries(3) found(1)] faithful s1 by simp
    have valid: "h \<in> set (sv_allowed_registries (ap_metadata app))" "pm_filename platform = f"
        "\<exists>checksum. pm_shasum platform = Some checksum \<and> checksum_ok checksum"
      using found_platform_validated [OF _ found(1)] inv0 by (auto simp: app_inv_def)
    obtain checksum bytes stamp where sound: "pm_shasum platform = Some checksum" "w_fs s2 path = Some (File bytes stamp)"
        "digest bytes = to_ascii_lowercase checksum" "length bytes \<le> ps_max_archive_bytes (ap_storage app)"
      using load_sound [OF laws _ found(2), of contents] inv1 unfolding app_inv_def by blast
    have sent: "hr_body response = FileBody bytes \<and> (''content-length'', dec_digits (length bytes)) \<in> set (hr_headers response)"
    proof (cases r)
      case (Inl x)
      then show ?thesis using send_archive_run [OF found(3)] response status by auto
    next
      case (Inr x)
      then show ?thesis using send_archive_run [OF found(3)] response fs_resolve_file [of "w_fs s2", OF sound(2)] sound(2)
        by (auto simp: node_bytes_def)
    qed
    show ?thesis using valid sound sent found(1) by (auto simp: s0_def)
  qed (use response status in \<open>auto simp: status_response_def\<close>)
qed

text \<open>The status 429 comes from the rate limit alone.\<close>

abbreviation status_of :: "(http_response, http_response) result \<Rightarrow> nat" where
  "status_of r \<equiv> (case r of Inl x \<Rightarrow> hr_status x | Inr x \<Rightarrow> hr_status x)"

lemma download_status:
  assumes "download_provider_archive env app h n t f s = (r, s')"
  shows "status_of r \<in> {200, 400, 404, 409, 500, 502}"
  using assms
proof (cases rule: download_cases)
  case (found platform s1 path s2)
  then show ?thesis using send_archive_run [OF found(3)] by (cases r) auto
qed (auto simp: status_response_def)

lemma metadata_status:
  assumes "get_provider_metadata env app h n t a s = (r, s')"
  shows "status_of r \<in> {200, 400, 404, 409, 502}"
proof (cases "map_option str_trim (strip_suffix ''.json'' a)")
  case None
  then show ?thesis using assms by (auto simp: get_provider_metadata_def op_err_def status_response_def)
next
  case (Some v)
  obtain r1 s1 r2 s2 where queries: "list_versions env (ap_metadata app) h n t s = (r1, s1)"
      "get_version env (ap_metadata app) h n t (trim_start_matches CHR ''v'' v) s = (r2, s2)" by fastforce
  have error: "hr_status (metadata_error_response e) \<noteq> 200" "hr_status (metadata_error_response e) = 409 \<longleftrightarrow>
      hr_status (metadata_error_response e) \<noteq> 400 \<and> hr_status (metadata_error_response e) \<noteq> 404 \<and> hr_status (metadata_error_response e) \<noteq> 502" for e
    using metadata_error_status [of e] by auto
  show ?thesis
    using assms Some queries
    by (cases r1; cases r2)
      (auto simp: get_provider_metadata_def op_bind_def op_map_err_def op_err_def op_ok_def Let_def status_response_def json_response_def error split: if_splits option.splits)
qed

lemma readyz_status: "readyz env app s = (r, s') \<Longrightarrow> status_of r \<in> {200, 503}"
  by (auto simp: readyz_def op_bind_def op_catch_def next_ready_sequence_def op_ok_def text_response_def split: prod.splits sum.splits)

lemma sync_status: "sync_providers env app s = (r, s') \<Longrightarrow> status_of r \<in> {204, 409, 502}"
  by (auto simp: sync_providers_def op_catch_def op_ok_def status_response_def split: prod.splits sum.splits metadata_error.splits)

lemma enforce_429:
  assumes "enforce_rate_limit env app handler s = (r, s')" "status_of r = 429" "\<And>s0 r s1. handler s0 = (r, s1) \<Longrightarrow> status_of r \<noteq> 429"
  shows "r = Inl \<lparr>hr_status = 429, hr_headers = [(''retry-after'', ''1'')], hr_body = EmptyBody\<rparr> \<and>
    (\<exists>tick bucket. s' = s\<lparr>w_tick := tick, ap_bucket := bucket\<rparr>)"
  using assms(1)
proof (rule enforce_run)
  fix ok tick bucket
  assume "if ok then handler (s\<lparr>w_tick := tick, ap_bucket := bucket\<rparr>) = (r, s')
     else s' = s\<lparr>w_tick := tick, ap_bucket := bucket\<rparr> \<and> r = Inl \<lparr>hr_status = 429, hr_headers = [(''retry-after'', ''1'')], hr_body = EmptyBody\<rparr>"
  then show ?thesis using assms(2,3) by (cases ok) auto
qed

lemma route_429:
  assumes "route env app request s = (r, s')" "status_of r = 429"
  shows "r = Inl \<lparr>hr_status = 429, hr_headers = [(''retry-after'', ''1'')], hr_body = EmptyBody\<rparr> \<and>
    (\<exists>tick bucket. s' = s\<lparr>w_tick := tick, ap_bucket := bucket\<rparr>)"
proof (cases request)
  case Livez
  then show ?thesis using assms by (auto simp: route_def livez_def op_ok_def text_response_def)
next
  case Readyz
  then show ?thesis using assms readyz_status by (fastforce simp: route_def)
next
  case (ProviderMetadata h n t a)
  then have "enforce_rate_limit env app (get_provider_metadata env app h n t a) s = (r, s')" using assms by (simp add: route_def)
  then show ?thesis using assms(2) by (rule enforce_429) (fastforce dest: metadata_status)
next
  case (ProviderDownload h n t f)
  then have "enforce_rate_limit env app (download_provider_archive env app h n t f) s = (r, s')" using assms by (simp add: route_def)
  then show ?thesis using assms(2) by (rule enforce_429) (fastforce dest: download_status)
next
  case SyncProviders
  then have "enforce_rate_limit env app (sync_providers env app) s = (r, s')" using assms by (simp add: route_def)
  then show ?thesis using assms(2) by (rule enforce_429) (fastforce dest: sync_status)
qed

lemma refused_request:
  fixes s s' :: "('u, 'z) app_state_scheme"
  assumes "request = ProviderMetadata h n t a \<or> request = ProviderDownload h n t a" "h \<notin> set (sv_allowed_registries (ap_metadata app))"
    and "route env app request s = (r, s')"
  shows "status_of r \<in> {400, 429} \<and> (\<exists>tick bucket. s' = s\<lparr>w_tick := tick, ap_bucket := bucket\<rparr>)"
proof -
  have "get_provider_metadata env app h n t a = (\<lambda>s :: ('u, 'z) app_state_scheme. (Inl (status_response 400), s))"
      "download_provider_archive env app h n t a = (\<lambda>s :: ('u, 'z) app_state_scheme. (Inl (status_response 400), s))"
    by (intro ext refused_handlers [OF assms(2)])+
  then have "enforce_rate_limit env app (\<lambda>s. (Inl (status_response 400), s)) s = (r, s')"
    using assms(1,3) by (auto simp: route_def)
  then show ?thesis
  proof (rule enforce_run)
    fix ok tick bucket
    assume "if ok then (Inl (status_response 400), s\<lparr>w_tick := tick, ap_bucket := bucket\<rparr>) = (r, s')
     else s' = s\<lparr>w_tick := tick, ap_bucket := bucket\<rparr> \<and> r = Inl \<lparr>hr_status = 429, hr_headers = [(''retry-after'', ''1'')], hr_body = EmptyBody\<rparr>"
    then show ?thesis by (cases ok) (auto simp: status_response_def)
  qed
qed

text \<open>A namespace with a dot passes the checks of the metadata service, which is then asked for the archive,
  but not those of the storage.\<close>

lemma dotted_namespace:
  assumes "CHR ''.'' \<in> set n"
  shows "load_or_fetch env st (archive_key_of h n t f) platform s = (Inl (StInvalidKey ''invalid path component''), s)"
  using assms by (auto simp: load_or_fetch_def validate_key_def storage_valid_component_def list_all_iff char_defs op_bind_def op_result_def)

lemma dotted_namespace_is_never_served:
  assumes "CHR ''.'' \<in> set n" "download_provider_archive env app h n t f s = (r, s')"
  shows "status_of r \<noteq> 200"
  using assms(2)
  by (cases rule: download_cases) (auto simp: status_response_def dotted_namespace [OF assms(1)])

section \<open>An example\<close>

text \<open>The service and the storage of the earlier examples behind the default rate limit.\<close>

definition toy_app_env :: "(string \<times> string \<times> string, unit, string, octet list) app_env" where
  "toy_app_env = storage_env.extend toy_storage_env \<lparr>env_round = id, env_header_ok = (\<lambda>_. True)\<rparr>"

definition toy_app :: "(string \<times> string \<times> string, unit) app" where
  "toy_app = fst (build_app toy_service toy_storage ''d'' 100 200 0)"

definition toy_app_state :: "(string \<times> string \<times> string) app_state" where
  "toy_app_state = initial_app_state (initial_storage_state toy_metadata_state) (snd (build_app toy_service toy_storage ''d'' 100 200 0))"

lemmas toy_app_defs = toy_app_env_def toy_storage_env_def toy_metadata_env_def toy_env_def storage_env.defs metadata_env.defs registry_env.defs

lemma toy_app_fields:
  "ap_metadata toy_app = toy_service" "ap_storage toy_app = toy_storage"
  by (simp_all add: toy_app_def build_app_def split: prod.split)

lemma toy_app_init: "app_init toy_app_env toy_app (\<lambda>_. []) toy_app_state"
proof -
  have "with_registry_client (\<lambda>_. Inl IoNotFound) (\<lambda>_. Inl IoNotFound) (env_index_of_json toy_app_env) ''d'' [''h'']
      (1800 * second) (with_outbound toy_client) = Inr (toy_service, [])"
    by (simp add: with_registry_client_def validate_hostname_def valid_component_def char_defs discover_indices_def toy_service_def
        path_join_def Let_def)
  moreover have "sv_allowed_registries toy_service = [''h'']" by (simp add: toy_service_def)
  ultimately have "service_init toy_app_env toy_service toy_metadata_state"
    unfolding service_init_def toy_metadata_state_def by metis
  moreover have "fs_faithful (\<lambda>_. []) (w_fs toy_app_state)"
    by (simp add: toy_app_state_def initial_app_state_def initial_storage_state_def fs_faithful_def metadata_state.defs storage_state.defs
        toy_metadata_state_def initial_metadata_state_def registry_state.defs)
  ultimately show ?thesis unfolding app_init_def toy_app_fields toy_app_state_def by blast
qed

lemma toy_app_lookup:
  "\<exists>s1. get_platform_by_archive toy_app_env toy_service ''h'' ''n'' ''t'' ''terraform-provider-t_1_l_a.zip''
       (toy_app_state\<lparr>w_tick := n, ap_bucket := b\<rparr>) = (Inr (Some toy_platform), s1) \<and> w_fs s1 = w_fs toy_app_state"
  using toy_validated toy_fields
  by (simp add: get_platform_by_archive_def get_version_entry_def load_version_def load_version_locked_def load_entry_locked_def
      fresh_entry_def entry_fresh_def read_persisted_version_def read_json_def read_file_def io_op_def now_epoch_def op_defs
      toy_app_defs toy_service_def toy_app_state_def initial_app_state_def initial_storage_state_def
      toy_metadata_state_def initial_metadata_state_def toy_registry_state_def
      storage_state.defs metadata_state.defs registry_state.defs toy_parse validate_version_def valid_version_def char_defs strip_v_def second_def
      provider_key_of_def validate_hostname_def validate_component_def valid_component_def with_version_lock_def lock_for_def
      empty_lock_table_def version_of_def fs_resolve.simps Let_def)

lemma toy_app_token: "\<exists>n b. acquire_token toy_app_env toy_app toy_app_state = (Inr True, toy_app_state\<lparr>w_tick := n, ap_bucket := b\<rparr>)"
  by (simp add: acquire_token_def instant_now_def op_bind_def try_acquire_def refill_def toy_app_def toy_app_state_def build_app_def
      token_bucket_new_def toy_app_defs initial_app_state_def storage_state.defs Let_def
      as_secs_f64_def second_def)

definition toy_disk :: file_system where
  "toy_disk = (\<lambda>_. Some (File [] \<lparr>st_modified = None, st_dev = 0, st_ino = 0\<rparr>))"

text \<open>Any application whose storage is that of the example and that finds its platform serves it.\<close>

lemma toy_download:
  fixes env :: "('u, 'c, string, octet list, 'y) app_env_scheme" and s :: "('u, 'z) app_state_scheme"
  assumes env: "env_sha env = env_sha toy_storage_env" "env_semver env = env_semver toy_storage_env" "\<And>tick. env_io env tick = None"
      "\<And>d. env_header_ok env d"
    and app: "ap_storage app = with_bundled_mirror_and_outbound ''d'' None client"
    and token: "acquire_token env app s = (Inr True, s0)"
    and lookup: "get_platform_by_archive env (ap_metadata app) ''h'' ''n'' ''t'' ''terraform-provider-t_1_l_a.zip'' s0 = (Inr (Some toy_platform), s1)"
    and fs: "w_fs s1 = toy_disk"
  obtains response s' where "handle_request env app (ProviderDownload ''h'' ''n'' ''t'' ''terraform-provider-t_1_l_a.zip'') s = (response, s')"
    "hr_status response = 200" "w_fs (archive_lookup env app (ProviderDownload ''h'' ''n'' ''t'' ''terraform-provider-t_1_l_a.zip'') s) = toy_disk"
proof -
  let ?f = "''terraform-provider-t_1_l_a.zip''" and ?storage = "with_bundled_mirror_and_outbound ''d'' None client"
  have semver: "sv_parse (env_semver env) = Some" by (simp add: env toy_storage_env_def toy_app_defs)
  have "ps_bundled_mirror ?storage = None" "ps_max_archive_bytes ?storage < 2 ^ 64 - 1"
    by (simp_all add: with_bundled_mirror_and_outbound_def storage_build_def MAX_PROVIDER_ARCHIVE_BYTES_def)
  moreover have "pm_filename toy_platform = ak_filename toy_key" by (simp add: toy_platform_def toy_key_def)
  moreover have "w_fs s1 (archive_path ?storage toy_key) = Some (File [] \<lparr>st_modified = None, st_dev = 0, st_ino = 0\<rparr>)"
    by (simp add: fs toy_disk_def)
  ultimately obtain s2 where load: "load_or_fetch env ?storage toy_key toy_platform s1 = (Inr (archive_path ?storage toy_key), s2)"
      and fs2: "w_fs s2 = w_fs s1"
    using cached_load [OF env(3) _ toy_sha_laws [folded env(1)] toy_key_valid [folded env(2)] _ toy_checksum, of ?storage s1 "[]"] by auto
  obtain response s' where sent: "send_archive env ?f (archive_path ?storage toy_key) s2 = (Inr response, s')" "hr_status response = 200"
    using env(3,4) fs fs2
    by (simp add: send_archive_def open_file_def file_step_def io_op_def op_catch_def op_bind_def op_map_err_def op_ok_def fs_resolve.simps
        toy_disk_def Let_def)
  have "download_provider_archive env app ''h'' ''n'' ''t'' ?f s0 = (Inr response, s')"
    using lookup load sent semver toy_parse toy_fields(4)
    by (simp add: download_provider_archive_def op_bind_def op_map_err_def app toy_key_def)
  then have "handle_request env app (ProviderDownload ''h'' ''n'' ''t'' ?f) s = (response, s')"
    using token by (simp add: handle_request_run route_def enforce_rate_limit_def op_bind_def)
  moreover have "w_fs (archive_lookup env app (ProviderDownload ''h'' ''n'' ''t'' ?f) s) = toy_disk"
    using token lookup fs by (simp add: archive_lookup_def)
  ultimately show thesis using sent(2) that by blast
qed

lemma toy_app_download:
  obtains response s' where
    "handle_request toy_app_env toy_app (ProviderDownload ''h'' ''n'' ''t'' ''terraform-provider-t_1_l_a.zip'') toy_app_state = (response, s')"
    "hr_status response = 200"
    "fs_faithful (\<lambda>_. []) (w_fs (archive_lookup toy_app_env toy_app (ProviderDownload ''h'' ''n'' ''t'' ''terraform-provider-t_1_l_a.zip'') toy_app_state))"
proof -
  obtain n b where token: "acquire_token toy_app_env toy_app toy_app_state = (Inr True, toy_app_state\<lparr>w_tick := n, ap_bucket := b\<rparr>)"
    using toy_app_token by blast
  obtain s1 where lookup: "get_platform_by_archive toy_app_env (ap_metadata toy_app) ''h'' ''n'' ''t'' ''terraform-provider-t_1_l_a.zip''
      (toy_app_state\<lparr>w_tick := n, ap_bucket := b\<rparr>) = (Inr (Some toy_platform), s1)" and fs1: "w_fs s1 = w_fs toy_app_state"
    unfolding toy_app_fields using toy_app_lookup by blast
  have "w_fs s1 = toy_disk"
    by (simp add: fs1 toy_disk_def toy_app_state_def initial_app_state_def initial_storage_state_def metadata_state.defs storage_state.defs
        toy_metadata_state_def initial_metadata_state_def registry_state.defs)
  moreover have "env_sha toy_app_env = env_sha toy_storage_env" "env_semver toy_app_env = env_semver toy_storage_env"
    "env_io toy_app_env tick = None" "env_header_ok toy_app_env d" for tick d by (simp_all add: toy_app_defs)
  moreover have "fs_faithful (\<lambda>_. []) toy_disk" by (simp add: fs_faithful_def toy_disk_def)
  ultimately show thesis
    using toy_download [OF _ _ _ _ toy_app_fields(2) [unfolded toy_storage_def] token lookup] that by metis
qed

section \<open>Properties\<close>

text \<open>A client never receives anything but the archive that the registry's metadata describes. In every
  state the server can reach, a download that is answered with the status 200 is of a registry that is
  allowed, the metadata has a validated platform with the requested file name, and the body is a sequence of
  bytes whose SHA-256 digest is the checksum of that platform, with at most the permitted size and the
  length that the header announces. This composes the metadata service, the storage and the HTTP handlers.\<close>

theorem served_archive_is_authentic:
  assumes "sha_laws (env_sha env) digest" and "ps_max_archive_bytes (ap_storage app) < 2 ^ 64 - 1"
    and "reach (app_init env app contents) (app_step env app contents) s"
    and "fs_faithful contents (w_fs (archive_lookup env app (ProviderDownload hostname namespace provider_type archive) s))"
    and "handle_request env app (ProviderDownload hostname namespace provider_type archive) s = (response, s')"
    and "hr_status response = 200"
  shows "hostname \<in> set (sv_allowed_registries (ap_metadata app)) \<and>
    (\<exists>platform checksum bytes.
       fst (get_platform_by_archive env (ap_metadata app) hostname namespace provider_type archive (snd (acquire_token env app s))) =
         Inr (Some platform) \<and>
       pm_filename platform = archive \<and> pm_shasum platform = Some checksum \<and> checksum_ok checksum \<and>
       hr_body response = FileBody bytes \<and> digest bytes = to_ascii_lowercase checksum \<and>
       length bytes \<le> ps_max_archive_bytes (ap_storage app) \<and>
       (''content-length'', dec_digits (length bytes)) \<in> set (hr_headers response))"
  using download_authentic [OF assms(1,2) app_reach_inv [OF assms(1-3)] assms(4-6)] .

theorem served_archive_is_authentic_witness:
  "\<exists>response s' bytes. handle_request toy_app_env toy_app (ProviderDownload ''h'' ''n'' ''t'' ''terraform-provider-t_1_l_a.zip'') toy_app_state = (response, s') \<and>
     hr_status response = 200 \<and> hr_body response = FileBody bytes \<and> toy_digest bytes = replicate 64 (CHR ''0'')"
proof -
  have sha: "sha_laws (env_sha toy_app_env) toy_digest" using toy_sha_laws by (simp add: toy_app_defs)
  have bound: "ps_max_archive_bytes (ap_storage toy_app) < 2 ^ 64 - 1" unfolding toy_app_fields by (rule toy_bound)
  have start: "reach (app_init toy_app_env toy_app (\<lambda>_. [])) (app_step toy_app_env toy_app (\<lambda>_. [])) toy_app_state"
    using toy_app_init by (rule reach.start)
  obtain response s' where run: "handle_request toy_app_env toy_app (ProviderDownload ''h'' ''n'' ''t'' ''terraform-provider-t_1_l_a.zip'') toy_app_state = (response, s')"
    "hr_status response = 200"
    "fs_faithful (\<lambda>_. []) (w_fs (archive_lookup toy_app_env toy_app (ProviderDownload ''h'' ''n'' ''t'' ''terraform-provider-t_1_l_a.zip'') toy_app_state))"
    by (rule toy_app_download)
  obtain n b where token: "acquire_token toy_app_env toy_app toy_app_state = (Inr True, toy_app_state\<lparr>w_tick := n, ap_bucket := b\<rparr>)"
    using toy_app_token by blast
  obtain platform checksum bytes where
    "fst (get_platform_by_archive toy_app_env toy_service ''h'' ''n'' ''t'' ''terraform-provider-t_1_l_a.zip'' (toy_app_state\<lparr>w_tick := n, ap_bucket := b\<rparr>)) =
       Inr (Some platform)" and found: "pm_shasum platform = Some checksum" "hr_body response = FileBody bytes" "toy_digest bytes = to_ascii_lowercase checksum"
    using served_archive_is_authentic [OF sha bound start run(3,1,2)] token unfolding toy_app_fields by auto
  then have "platform = toy_platform" using toy_app_lookup [where n = n and b = b] by auto
  then have "to_ascii_lowercase checksum = replicate 64 (CHR ''0'')"
    using found(1) by (auto simp: toy_platform_def to_ascii_lowercase_def to_ascii_lower_char_def char_defs)
  then show ?thesis using run found by auto
qed

text \<open>C17: refused requests have no effect. A request for a registry that is not allowed is answered with 400
  or, as any request to the provider routes may be, with 429; and whenever the status is 429 the answer says
  when to retry. In both cases nothing but the clock reading and the token bucket changes: no request is
  sent, no file is touched and no cache entry is made.\<close>

theorem refused_requests_have_no_effect:
  assumes "handle_request env app request s = (response, s')"
    and "hr_status response = 429 \<or> hostname \<notin> set (sv_allowed_registries (ap_metadata app)) \<and>
      (request = ProviderMetadata hostname namespace provider_type action \<or> request = ProviderDownload hostname namespace provider_type action)"
  shows "hr_status response \<in> {400, 429} \<and> (\<exists>tick bucket. s' = s\<lparr>w_tick := tick, ap_bucket := bucket\<rparr>) \<and>
    (hr_status response = 429 \<longrightarrow> (''retry-after'', ''1'') \<in> set (hr_headers response))"
proof -
  obtain r where "route env app request s = (r, s')" "response = (case r of Inl x \<Rightarrow> x | Inr x \<Rightarrow> x)"
    using assms(1) by (auto simp: handle_request_run)
  then have r: "route env app request s = (r, s')" "hr_status response = status_of r" "response = (case r of Inl x \<Rightarrow> x | Inr x \<Rightarrow> x)"
    by (auto split: sum.splits)
  show ?thesis
  proof (cases "status_of r = 429")
    case True
    then show ?thesis using route_429 [OF r(1)] r(3) by auto
  next
    case False
    then show ?thesis using assms(2) r(2) refused_request [OF _ _ r(1)] by auto
  qed
qed

theorem refused_requests_have_no_effect_witness:
  "w_sent (snd (handle_request toy_app_env toy_app (ProviderMetadata ''x'' ''n'' ''t'' ''index.json'') toy_app_state)) = []"
proof -
  obtain response s' where run: "handle_request toy_app_env toy_app (ProviderMetadata ''x'' ''n'' ''t'' ''index.json'') toy_app_state = (response, s')"
    by fastforce
  have "''x'' \<notin> set (sv_allowed_registries (ap_metadata toy_app))" by (simp add: toy_app_fields toy_service_def)
  then obtain tick bucket where "s' = toy_app_state\<lparr>w_tick := tick, ap_bucket := bucket\<rparr>"
    using refused_requests_have_no_effect [OF run] by blast
  then show ?thesis using run
    by (simp add: toy_app_state_def initial_app_state_def initial_storage_state_def metadata_state.defs storage_state.defs
        toy_metadata_state_def initial_metadata_state_def registry_state.defs toy_registry_state_def)
qed

end
