(* ===== verification/Server_Properties.thy ===== *)
theory Server_Properties
  imports Server Http_Properties
begin

text \<open>
  What holds of a server that has started, and of what its plain listener answers.
\<close>

section \<open>Specification\<close>

text \<open>What the HTTP crate documents of the host of an authority (RFC 3986): none of the delimiters of a URL,
  and an IP literal is closed by its bracket.\<close>

definition authority_laws :: "'x http_crate \<Rightarrow> bool" where
  "authority_laws http \<longleftrightarrow> (\<forall>host h. hc_authority_host http host = Some h \<longrightarrow>
     list_all (\<lambda>c. c \<notin> {CHR ''/'', CHR ''?'', CHR 0x23, CHR ''@''}) h \<and> (h \<noteq> [] \<and> hd h = CHR ''['' \<longrightarrow> last h = CHR '']''))"

text \<open>How a client reads an HTTPS URL without user information: the host as it stands in the URL, the port,
  443 if there is none, and what follows the authority.\<close>

definition dec_value :: "string \<Rightarrow> nat" where
  "dec_value = foldl (\<lambda>v c. v * 10 + (of_char c - 48)) 0"

definition split_port :: "string \<Rightarrow> string \<times> nat" where
  "split_port authority = (case rsplit_once CHR '':'' authority of
     Some (host, digits) \<Rightarrow> if digits \<noteq> [] \<and> list_all is_ascii_digit digits then (host, dec_value digits) else (authority, 443)
   | None \<Rightarrow> (authority, 443))"

definition location_parts :: "string \<Rightarrow> (string \<times> nat \<times> string) option" where
  "location_parts location = map_option (\<lambda>rest.
     let delimiter = (\<lambda>c. c \<in> {CHR ''/'', CHR ''?'', CHR 0x23});
         (host, port) = split_port (takeWhile (Not \<circ> delimiter) rest)
     in (host, port, dropWhile (Not \<circ> delimiter) rest)) (strip_prefix ''https://'' location)"

definition url_host :: "string \<Rightarrow> string" where
  "url_host h = (if CHR '':'' \<in> set h \<and> \<not> (h \<noteq> [] \<and> hd h = CHR ''['') then ''['' @ h @ '']'' else h)"

text \<open>What the arguments say of the client of the upstream requests.\<close>

definition client_follows :: "('u, 'c, 'v, 'h, 'k, 's, 'y) server_env_scheme \<Rightarrow> args \<Rightarrow> 'c outbound_client \<Rightarrow> bool" where
  "client_follows env args client \<longleftrightarrow>
     oc_mode client = ag_outbound_mode args \<and> \<not> oc_allow_http client \<and> \<not> oc_allow_non_public_ips client \<and>
     (ag_outbound_mode args = TrustedProxy \<longrightarrow> proxy_configured (env_var env)) \<and>
     (case ag_upstream_ca_file args of
        None \<Rightarrow> cc_root_certificates (oc_client client) = []
      | Some path \<Rightarrow> \<exists>pem certificates. env_ca_file env path = Inr pem \<and> env_pem_bundle env pem = Inr certificates \<and>
          certificates \<noteq> [] \<and> cc_root_certificates (oc_client client) = certificates)"

text \<open>What they say of the application: the directories, the registries, how long metadata stays fresh, the limit of
  an archive (1 GiB), the rate and the burst.\<close>

definition app_follows ::
  "('u, 'c, 'v, 'h, 'k, 's, 'y) server_env_scheme \<Rightarrow> args \<Rightarrow> ('u, 'c) app \<Rightarrow> bucket_state \<Rightarrow> bool" where
  "app_follows env args app bucket \<longleftrightarrow>
     ap_data_dir app = ag_data_source_dir args \<and>
     sv_data_dir (ap_metadata app) = path_join (ag_data_source_dir args) ''metadata'' \<and>
     sv_allowed_registries (ap_metadata app) = env_hash_order env (ag_allowed_registries args) \<and>
     sv_freshness (ap_metadata app) = ag_metadata_ttl_seconds args * second \<and>
     rc_outbound (sv_registry (ap_metadata app)) = ps_outbound (ap_storage app) \<and>
     ps_root (ap_storage app) = ag_data_source_dir args \<and>
     ps_bundled_mirror (ap_storage app) = env_var env ''TF_PLUGIN_MIRROR_DIR'' \<and>
     ps_max_archive_bytes (ap_storage app) = 2 ^ 30 \<and>
     tk_qps (ap_limiter app) = real (max (ag_conn_qps args) 1) \<and>
     tk_burst (ap_limiter app) = real (max (ag_conn_burst args) 1) \<and> bs_tokens bucket = real (max (ag_conn_burst args) 1)"

text \<open>What they say of the listeners. An address in the usual notation of IPv4 is that address.\<close>

definition listens :: "('u, 'c, 'v, 'h, 'k, 's, 'y) server_env_scheme \<Rightarrow> args \<Rightarrow> string \<Rightarrow> port \<Rightarrow> socket_addr \<Rightarrow> bool" where
  "listens env args label port addr \<longleftrightarrow>
     bind_addr (ag_bind_address args) port label = Inr addr \<and> env_bind env addr = None \<and>
     (\<forall>ip. ag_bind_address args = show_ipv4 ip \<longrightarrow> addr = SocketV4 ip port)"

definition listeners_follow :: "('u, 'c, 'v, 'h, 'k, 's, 'y) server_env_scheme \<Rightarrow> args \<Rightarrow> 's listener_config list \<Rightarrow> bool" where
  "listeners_follow env args listeners \<longleftrightarrow>
     (\<exists>http_addr. listens env args ''HTTP'' (ag_http_port args) http_addr \<and>
       (if ag_enable_tls args
        then \<exists>https_addr cert key resolver tick tick'.
          listens env args ''HTTPS'' (ag_https_port args) https_addr \<and>
          ag_tls_cert_file args = Some cert \<and> ag_tls_private_key_file args = Some key \<and>
          new_resolver (env_tls env) cert key (5 * second) (int (env_epoch env tick)) (env_instant env tick') = Inr resolver \<and>
          resolver_ok resolver \<and>
          listeners =
            [\<lparr>lc_addr = http_addr, lc_tls = None,
              lc_redirect = Some (if ag_https_redirect_port args = None then ag_https_port args else the (ag_https_redirect_port args)),
              lc_max_connections = ag_max_connections args\<rparr>,
             \<lparr>lc_addr = https_addr, lc_tls = Some resolver, lc_redirect = None, lc_max_connections = ag_max_connections args\<rparr>]
        else listeners = [\<lparr>lc_addr = http_addr, lc_tls = None, lc_redirect = None, lc_max_connections = ag_max_connections args\<rparr>]))"

section \<open>Lemmas\<close>

lemma op_bind_succeeds: "op_bind f g s = (Inr b, s') \<longleftrightarrow> (\<exists>a s1. f s = (Inr a, s1) \<and> g a s1 = (Inr b, s'))"
  by (auto simp: op_bind_def split: prod.splits sum.splits)

lemma op_catch_succeeds: "op_catch f g s = (Inr b, s') \<longleftrightarrow> (\<exists>r s1. f s = (r, s1) \<and> g r s1 = (Inr b, s'))"
  by (auto simp: op_catch_def split: prod.splits)

lemma op_map_err_succeeds: "op_map_err h f s = (Inr a, s') \<longleftrightarrow> f s = (Inr a, s')"
  by (cases "f s"; cases "fst (f s)") (auto simp: op_map_err_def)

lemma op_result_succeeds: "op_result r s = (Inr a, s') \<longleftrightarrow> r = Inr a \<and> s' = s"
  by (auto simp: op_result_def)

lemma op_ok_succeeds: "op_ok a s = (Inr b, s') \<longleftrightarrow> b = a \<and> s' = s"
  by (auto simp: op_ok_def)

lemma op_err_succeeds: "\<not> op_err e s = (Inr b, s')"
  by (simp add: op_err_def)

lemmas op_succeeds = op_bind_succeeds op_catch_succeeds op_map_err_succeeds op_result_succeeds op_ok_succeeds op_err_succeeds
  map_err_eq_Inr ok_or_eq_Inr

lemma clock_succeeds:
  "instant_now env s = (Inr now, s') \<longleftrightarrow> now = env_instant env (w_tick s) \<and> s' = s\<lparr>w_tick := w_tick s + 1\<rparr>"
  "now_epoch env s = (Inr epoch, s') \<longleftrightarrow> epoch = env_epoch env (w_tick s) \<and> s' = s\<lparr>w_tick := w_tick s + 1\<rparr>"
  by (auto simp: instant_now_def now_epoch_def)

lemma remove_file_succeeds: "remove_file env p s = (Inr (), s') \<Longrightarrow> w_fs s' = (w_fs s)(p := None)"
  by (auto simp: remove_file_def io_op_def split: option.splits node.splits if_splits)

lemma prepare_data_dir_succeeds:
  assumes "prepare_data_dir env data_dir s = (Inr (), s')"
  shows "w_fs s' (path_join data_dir (startup_probe_name (env_pid env))) = None"
proof -
  obtain s1 where "remove_file env (path_join data_dir (startup_probe_name (env_pid env))) s1 = (Inr (), s')"
    using assms by (auto simp: prepare_data_dir_def op_succeeds Let_def)
  then show ?thesis using remove_file_succeeds by fastforce
qed

lemma new_resolver_at:
  "new_resolver env cert key interval epoch now = Inr r \<Longrightarrow> new_resolver env cert key interval epoch now' = Inr (r\<lparr>rs_loaded_at := now'\<rparr>)"
  by (auto simp: new_resolver_def try_bind_eq_Inr)

lemma new_resolver_ok: "new_resolver env cert key interval epoch now = Inr r \<Longrightarrow> resolver_ok r"
  by (auto simp: new_resolver_def try_bind_eq_Inr intro: resolver_ok_loaded)

lemma start_server_succeeds:
  assumes "start_server env args s = (Inr plan, s')"
  obtains outbound metadata indices bucket http_addr s1 s2 where
    "30 \<le> ag_metadata_ttl_seconds args"
    "new_client (env_builder_error env) (env_var env) (env_ca_file env) (env_pem_bundle env) (ag_outbound_mode args)
       (ag_upstream_ca_file args) = Inr outbound"
    "prepare_data_dir env (ag_data_source_dir args) s = (Inr (), s1)"
    "with_registry_client (env_read_dir env) (env_read_index env) (env_index_of_json env) (ag_data_source_dir args)
       (env_hash_order env (ag_allowed_registries args)) (ag_metadata_ttl_seconds args * second) (with_outbound outbound) =
       Inr (metadata, indices)"
    "ap_metadata (sp_app plan) = metadata" "sp_indices plan = indices"
    "ap_storage (sp_app plan) =
       with_bundled_mirror_and_outbound (ag_data_source_dir args) (env_var env ''TF_PLUGIN_MIRROR_DIR'') outbound"
    "w_fs s2 = w_fs s1"
    "bind_addr (ag_bind_address args) (ag_http_port args) ''HTTP'' = Inr http_addr"
    "(if ag_enable_tls args then tls_listeners else plain_listeners) env args http_addr s2 = (Inr (sp_listeners plan), s')"
    "ap_data_dir (sp_app plan) = ag_data_source_dir args"
    "ap_limiter (sp_app plan) = \<lparr>tk_qps = real (max (ag_conn_qps args) 1), tk_burst = real (max (ag_conn_burst args) 1)\<rparr>"
    "bs_tokens (sp_bucket plan) = real (max (ag_conn_burst args) 1)"
proof -
  obtain outbound s1 metadata indices http_addr listeners where run: "30 \<le> ag_metadata_ttl_seconds args"
    "new_client (env_builder_error env) (env_var env) (env_ca_file env) (env_pem_bundle env) (ag_outbound_mode args)
       (ag_upstream_ca_file args) = Inr outbound"
    "prepare_data_dir env (ag_data_source_dir args) s = (Inr (), s1)"
    "with_registry_client (env_read_dir env) (env_read_index env) (env_index_of_json env) (ag_data_source_dir args)
       (env_hash_order env (ag_allowed_registries args)) (ag_metadata_ttl_seconds args * second) (with_outbound outbound) =
       Inr (metadata, indices)"
    "bind_addr (ag_bind_address args) (ag_http_port args) ''HTTP'' = Inr http_addr"
    "(if ag_enable_tls args then tls_listeners else plain_listeners) env args http_addr (s1\<lparr>w_tick := w_tick s1 + 1\<rparr>) = (Inr listeners, s')"
    and plan: "plan = (let (app, bucket) = build_app metadata (with_bundled_mirror_and_outbound (ag_data_source_dir args)
         (env_var env ''TF_PLUGIN_MIRROR_DIR'') outbound) (ag_data_source_dir args) (ag_conn_qps args) (ag_conn_burst args)
         (env_instant env (w_tick s1)) in \<lparr>sp_app = app, sp_bucket = bucket, sp_indices = indices, sp_listeners = listeners\<rparr>)"
    using assms by (auto simp: start_server_def op_succeeds clock_succeeds build_app_def Let_def token_bucket_new_def split: if_splits)
  show thesis by (rule that [OF run(1-4) _ _ _ _ run(5), of "s1\<lparr>w_tick := w_tick s1 + 1\<rparr>"])
    (use run(6) in \<open>simp_all add: plan build_app_def token_bucket_new_def Let_def\<close>)
qed

text \<open>A server that starts is in an initial state of its runs.\<close>

lemma start_init:
  fixes env :: "('u, 'c, 'v, 'h, 'k, 's, 'y) server_env_scheme" and s s' :: "'u registry_state"
  assumes "start_server env args s = (Inr plan, s')" and "fs_faithful contents (w_fs s')"
  shows "app_init env (sp_app plan) contents
      (initial_app_state (initial_storage_state (initial_metadata_state s' (sp_indices plan))) (sp_bucket plan))"
    and "ps_max_archive_bytes (ap_storage (sp_app plan)) < 2 ^ 64 - 1"
    and "sv_allowed_registries (ap_metadata (sp_app plan)) = env_hash_order env (ag_allowed_registries args)"
    and "sv_freshness (ap_metadata (sp_app plan)) = ag_metadata_ttl_seconds args * second"
proof -
  obtain outbound metadata indices where run:
    "with_registry_client (env_read_dir env) (env_read_index env) (env_index_of_json env) (ag_data_source_dir args)
       (env_hash_order env (ag_allowed_registries args)) (ag_metadata_ttl_seconds args * second) (with_outbound outbound) =
       Inr (metadata, indices)"
    "ap_metadata (sp_app plan) = metadata" "sp_indices plan = indices"
    "ap_storage (sp_app plan) =
       with_bundled_mirror_and_outbound (ag_data_source_dir args) (env_var env ''TF_PLUGIN_MIRROR_DIR'') outbound"
    using assms(1) by (rule start_server_succeeds)
  have metadata: "sv_allowed_registries metadata = env_hash_order env (ag_allowed_registries args)"
      "sv_freshness metadata = ag_metadata_ttl_seconds args * second"
    using run(1) by (auto simp: with_registry_client_def try_bind_eq_Inr Let_def)
  have "service_init env metadata (initial_metadata_state s' indices)"
    unfolding service_init_def metadata(1) using run(1) by blast
  then show "app_init env (sp_app plan) contents
      (initial_app_state (initial_storage_state (initial_metadata_state s' (sp_indices plan))) (sp_bucket plan))"
    using assms(2) run(2,3) unfolding app_init_def
    by (auto simp: initial_app_state_def initial_storage_state_def initial_metadata_state_def storage_state.defs metadata_state.defs
        registry_state.defs)
  show "ps_max_archive_bytes (ap_storage (sp_app plan)) < 2 ^ 64 - 1"
    by (simp add: run(4) with_bundled_mirror_and_outbound_def storage_build_def MAX_PROVIDER_ARCHIVE_BYTES_def)
  show "sv_allowed_registries (ap_metadata (sp_app plan)) = env_hash_order env (ag_allowed_registries args)"
    "sv_freshness (ap_metadata (sp_app plan)) = ag_metadata_ttl_seconds args * second" by (simp_all add: run(2) metadata)
qed

subsection \<open>Decimal numbers and locations\<close>

lemma dec_digits_spec: "dec_digits n \<noteq> [] \<and> list_all is_ascii_digit (dec_digits n) \<and> dec_value (dec_digits n) = n"
proof (induction n rule: dec_digits.induct)
  case (1 n)
  have char: "of_char (char_of (48 + m :: nat)) = 48 + m \<and> is_ascii_digit (char_of (48 + m))" if "m < 10" for m
    using that by (auto simp: is_ascii_digit_def)
  show ?case
  proof (cases "n < 10")
    case True
    then show ?thesis using char [of n] by (simp add: dec_digits.simps [of n] dec_value_def)
  next
    case False
    have "dec_value (dec_digits n) = dec_value (dec_digits (n div 10)) * 10 + n mod 10"
      using False char [of "n mod 10"] by (simp add: dec_digits.simps [of n] dec_value_def)
    then show ?thesis using False 1 char [of "n mod 10"] by (simp add: dec_digits.simps [of n])
  qed
qed

lemma read_digits_all:
  assumes "list_all is_ascii_digit ds" "k + length ds \<le> m"
  shows "read_digits 10 m v k ds = Some (foldl (\<lambda>v c. v * 10 + (of_char c - 48)) v ds, k + length ds, [])"
  using assms
proof (induction ds arbitrary: v k)
  case (Cons c ds)
  have "to_digit 10 c = Some (of_char c - 48)"
    using Cons.prems(1) by (auto simp: to_digit_def hex_value_def is_ascii_digit_def Let_def)
  then show ?case using Cons by simp
qed simp

lemma read_port_dec_digits: "read_port ('':'' @ dec_digits (unat port)) = Some (port, [])"
proof -
  note digits = dec_digits_spec [of "unat port"]
  have "unat port \<le> 65535" using unsigned_less [where 'a = nat and w = port] by simp
  moreover have "read_digits 10 (length (dec_digits (unat port))) 0 0 (dec_digits (unat port)) =
      Some (unat port, length (dec_digits (unat port)), [])"
    using read_digits_all [of "dec_digits (unat port)" 0 _ 0] digits by (simp add: dec_value_def)
  ultimately show ?thesis using digits by (simp add: read_port_def read_number_def)
qed

lemma bind_addr_show_ipv4: "bind_addr (show_ipv4 ip) port label = Inr (SocketV4 ip port)"
proof (cases ip)
  case (Ipv4 a b c d)
  note oct = unat_octet [of a] unat_octet [of b] unat_octet [of c] unat_octet [of d]
  have colon: "\<not> starts_digit ('':'' @ s)" for s by (simp add: starts_digit_def to_digit_def hex_value_def)
  have "read_ipv4_addr (show_ipv4 ip @ '':'' @ s) = Some (ip, '':'' @ s)" for s
    using oct colon [of s]
    by (simp add: Ipv4 read_ipv4_addr_def read_octet_def read_separator_def read_number_dec_digits dot_not_digit)
  then show ?thesis using read_port_dec_digits [of port]
    by (simp add: bind_addr_def parse_socket_addr_def read_socket_addr_v4_def ok_or_def)
qed

lemma listens_iff:
  "listens env args label port addr \<longleftrightarrow> bind_addr (ag_bind_address args) port label = Inr addr \<and> env_bind env addr = None"
  using bind_addr_show_ipv4 by (auto simp: listens_def)

lemma bind_listener_succeeds: "bind_listener env addr = Inr u \<longleftrightarrow> env_bind env addr = None"
  by (simp add: bind_listener_def split: option.split)

lemma tls_listeners_succeed:
  assumes "tls_listeners env args http_addr s = (Inr listeners, s')" and "ag_enable_tls args"
    and "bind_addr (ag_bind_address args) (ag_http_port args) ''HTTP'' = Inr http_addr"
  shows "w_fs s' = w_fs s" "listeners_follow env args listeners"
proof -
  obtain https_addr cert key resolver where run: "ag_tls_cert_file args = Some cert" "ag_tls_private_key_file args = Some key"
      "bind_addr (ag_bind_address args) (ag_https_port args) ''HTTPS'' = Inr https_addr"
      "env_bind env https_addr = None" "env_bind env http_addr = None"
      "new_resolver (env_tls env) cert key (5 * second) (int (env_epoch env (w_tick s))) (env_instant env (w_tick s + 1)) = Inr resolver"
      "listeners = [\<lparr>lc_addr = http_addr, lc_tls = None,
          lc_redirect = Some (case ag_https_redirect_port args of Some port \<Rightarrow> port | None \<Rightarrow> ag_https_port args),
          lc_max_connections = ag_max_connections args\<rparr>,
        \<lparr>lc_addr = https_addr, lc_tls = Some resolver, lc_redirect = None, lc_max_connections = ag_max_connections args\<rparr>]"
    and "w_fs s' = w_fs s"
    using assms(1) by (auto simp: tls_listeners_def build_tls_acceptor_def op_succeeds clock_succeeds bind_listener_succeeds split: if_splits)
  then show "w_fs s' = w_fs s" by simp
  have "(case ag_https_redirect_port args of Some port \<Rightarrow> port | None \<Rightarrow> ag_https_port args) =
      (if ag_https_redirect_port args = None then ag_https_port args else the (ag_https_redirect_port args))"
    by (simp split: option.split)
  then show "listeners_follow env args listeners"
    unfolding listeners_follow_def listens_iff using assms(2,3) run new_resolver_ok [OF run(6)] by auto
qed

lemma plain_listeners_succeed:
  assumes "plain_listeners env args http_addr s = (Inr listeners, s')" and "\<not> ag_enable_tls args"
    and "bind_addr (ag_bind_address args) (ag_http_port args) ''HTTP'' = Inr http_addr"
  shows "w_fs s' = w_fs s" "listeners_follow env args listeners"
  using assms by (auto simp: plain_listeners_def op_succeeds bind_listener_succeeds listeners_follow_def listens_iff)

lemma new_client_follows:
  assumes "new_client (env_builder_error env) (env_var env) (env_ca_file env) (env_pem_bundle env) (ag_outbound_mode args)
       (ag_upstream_ca_file args) = Inr client"
  shows "client_follows env args client"
  using new_client_ok [OF assms] assms
  by (auto simp: client_follows_def new_client_def build_client_def Let_def split: if_splits option.splits sum.splits)

lemma digits_no_delimiter: "list_all is_ascii_digit ds \<Longrightarrow> c \<in> {CHR '':'', CHR ''/'', CHR ''?'', CHR 0x23} \<Longrightarrow> c \<notin> set ds"
  by (auto simp: list_all_iff is_ascii_digit_def char_defs)

lemma split_port_url_host:
  assumes "h \<noteq> [] \<and> hd h = CHR ''['' \<longrightarrow> last h = CHR '']''"
  shows "split_port (url_host h) = (url_host h, 443)"
    and "split_port (url_host h @ '':'' @ dec_digits n) = (url_host h, n)"
proof -
  note digits = dec_digits_spec [of n]
  have "rsplit_once CHR '':'' (url_host h @ '':'' @ dec_digits n) = Some (url_host h, dec_digits n)"
    using digits digits_no_delimiter by (auto simp: rsplit_once_eq_Some)
  then show "split_port (url_host h @ '':'' @ dec_digits n) = (url_host h, n)"
    using digits by (simp add: split_port_def)
  show "split_port (url_host h) = (url_host h, 443)"
  proof (cases "rsplit_once CHR '':'' (url_host h)")
    case (Some r)
    obtain host ds where r: "r = (host, ds)" by fastforce
    then have shape: "url_host h = host @ CHR '':'' # ds" using Some by (simp add: rsplit_once_eq_Some)
    have "\<not> (ds \<noteq> [] \<and> list_all is_ascii_digit ds)"
    proof
      assume ds: "ds \<noteq> [] \<and> list_all is_ascii_digit ds"
      have "CHR '':'' \<in> set (url_host h)" using shape by simp
      then have "last (url_host h) = CHR '']''" using assms by (auto simp: url_host_def split: if_splits)
      then have "last ds = CHR '']''" using shape ds by simp
      moreover have "is_ascii_digit (last ds)" using ds by (simp add: list_all_iff)
      ultimately show False by (simp add: is_ascii_digit_def)
    qed
    then show ?thesis using Some r by (auto simp: split_port_def)
  qed (simp add: split_port_def)
qed

lemma location_parts_append:
  assumes "list_all (\<lambda>c. c \<notin> {CHR ''/'', CHR ''?'', CHR 0x23}) authority" "target \<noteq> []" "hd target \<in> {CHR ''/'', CHR ''?''}"
  shows "location_parts (''https://'' @ authority @ target) = (case split_port authority of (host, port) \<Rightarrow> Some (host, port, target))"
proof -
  obtain c rest where target: "target = c # rest" "c \<in> {CHR ''/'', CHR ''?''}" using assms(2,3) by (cases target) auto
  have "takeWhile (Not \<circ> (\<lambda>c. c \<in> {CHR ''/'', CHR ''?'', CHR 0x23})) (authority @ target) = authority"
    using assms(1) target by (subst takeWhile_append2) (auto simp: list_all_iff)
  moreover have "dropWhile (Not \<circ> (\<lambda>c. c \<in> {CHR ''/'', CHR ''?'', CHR 0x23})) (authority @ target) = target"
    using assms(1) target by (subst dropWhile_append2) (auto simp: list_all_iff)
  moreover have "strip_prefix ''https://'' (''https://'' @ authority @ target) = Some (authority @ target)"
    by (simp add: strip_prefix_def)
  ultimately show ?thesis unfolding location_parts_def Let_def by (simp split: prod.split)
qed

text \<open>The authority of the location.\<close>

definition redirect_authority :: "string \<Rightarrow> port \<Rightarrow> string" where
  "redirect_authority h port = (if port = 443 then url_host h else url_host h @ '':'' @ dec_digits (unat port))"

lemma redirect_authority_spec:
  assumes "authority_laws http" and "hc_authority_host http host = Some h"
  shows "list_all (\<lambda>c. c \<notin> {CHR ''/'', CHR ''?'', CHR 0x23}) (redirect_authority h port)"
    and "split_port (redirect_authority h port) = (url_host h, unat port)"
proof -
  have h_laws: "list_all (\<lambda>c. c \<notin> {CHR ''/'', CHR ''?'', CHR 0x23}) h" "h \<noteq> [] \<and> hd h = CHR ''['' \<longrightarrow> last h = CHR '']''"
    using assms by (auto simp: authority_laws_def list_all_iff)
  then have "list_all (\<lambda>c. c \<notin> {CHR ''/'', CHR ''?'', CHR 0x23}) (url_host h)" by (auto simp: url_host_def)
  moreover have "list_all (\<lambda>c. c \<notin> {CHR ''/'', CHR ''?'', CHR 0x23}) (dec_digits (unat port))"
    using digits_no_delimiter [OF dec_digits_spec [THEN conjunct2, THEN conjunct1], of _ "unat port"] by (auto simp: list_all_iff)
  ultimately show "list_all (\<lambda>c. c \<notin> {CHR ''/'', CHR ''?'', CHR 0x23}) (redirect_authority h port)" by (simp add: redirect_authority_def)
  show "split_port (redirect_authority h port) = (url_host h, unat port)"
    using split_port_url_host [OF h_laws(2)] by (simp add: redirect_authority_def)
qed

lemma split_port_no_digit: "\<not> is_ascii_digit c \<Longrightarrow> c \<noteq> CHR '':'' \<Longrightarrow> split_port (h @ [c]) = (h @ [c], 443)"
  by (auto simp: split_port_def rsplit_once_eq_Some append_eq_append_conv2 Cons_eq_append_conv append_eq_Cons_conv list_all_iff split: option.split)

lemma location_parts_asterisk:
  assumes "list_all (\<lambda>c. c \<notin> {CHR ''/'', CHR ''?'', CHR 0x23}) authority"
  shows "location_parts (''https://'' @ authority @ ''*'') = Some (authority @ ''*'', 443, [])"
proof -
  have "takeWhile (Not \<circ> (\<lambda>c. c \<in> {CHR ''/'', CHR ''?'', CHR 0x23})) (authority @ ''*'') = authority @ ''*''"
    "dropWhile (Not \<circ> (\<lambda>c. c \<in> {CHR ''/'', CHR ''?'', CHR 0x23})) (authority @ ''*'') = []"
    using assms by (auto simp: list_all_iff takeWhile_eq_all_conv dropWhile_eq_Nil_conv)
  moreover have "strip_prefix ''https://'' (''https://'' @ authority @ ''*'') = Some (authority @ ''*'')"
    by (simp add: strip_prefix_def)
  moreover have "split_port (authority @ ''*'') = (authority @ ''*'', 443)"
    using split_port_no_digit [of "CHR ''*''" authority] by (simp add: is_ascii_digit_def)
  ultimately show ?thesis unfolding location_parts_def Let_def by simp
qed

lemma redirect_location_parts:
  assumes laws: "authority_laws http" and run: "redirect_location http host target port = Some location"
  shows "\<exists>h. hc_authority_host http host = Some h \<and> location = ''https://'' @ redirect_authority h port @ target \<and>
    (target \<noteq> [] \<and> hd target \<in> {CHR ''/'', CHR ''?''} \<longrightarrow> location_parts location = Some (url_host h, unat port, target)) \<and>
    (target = ''*'' \<longrightarrow> location_parts location = Some (redirect_authority h port @ ''*'', 443, []))"
proof -
  obtain h where h: "hc_authority_host http host = Some h" using run by (cases "hc_authority_host http host") (auto simp: redirect_location_def)
  have location: "location = ''https://'' @ redirect_authority h port @ target"
    using run unfolding redirect_location_def url_host_def [symmetric] Let_def h bind.bind_lunit redirect_authority_def
    by (simp split: if_splits)
  note authority = redirect_authority_spec [OF laws h, of port]
  show ?thesis
    using h location location_parts_append [OF authority(1), of target, unfolded authority(2)] location_parts_asterisk [OF authority(1)] by auto
qed

section \<open>An example\<close>

text \<open>A start with TLS in the year 2020, on an empty disk.\<close>

definition toy_server_env :: "(string \<times> string \<times> string, unit, string, octet list, unit, unit) server_env" where
  "toy_server_env = app_env.extend (toy_app_env\<lparr>env_epoch := \<lambda>_. 1600000000\<rparr>)
     \<lparr>env_var = Map.empty, env_builder_error = Map.empty, env_ca_file = (\<lambda>_. Inl []), env_pem_bundle = (\<lambda>_. Inr []),
      env_read_dir = (\<lambda>_. Inl IoNotFound), env_read_index = (\<lambda>_. Inl IoNotFound), env_providers_tree = None, env_metadata_tree = None,
      env_tls = example_env [example_certificate], env_bind = (\<lambda>_. None)\<rparr>"

definition toy_args :: args where
  "toy_args = default_args\<lparr>ag_tls_cert_file := Some ''tls.crt'', ag_tls_private_key_file := Some ''tls.key'',
     ag_data_source_dir := ''d'', ag_allowed_registries := [''h''],
     ag_metadata_ttl_seconds := 2000000000\<rparr>"

lemmas toy_server_defs = toy_server_env_def toy_app_defs app_env.defs

lemma toy_args_fields:
  "ag_bind_address toy_args = ''0.0.0.0''" "ag_http_port toy_args = 8080" "ag_https_port toy_args = 8443"
  "ag_enable_tls toy_args" "ag_tls_cert_file toy_args = Some ''tls.crt''" "ag_tls_private_key_file toy_args = Some ''tls.key''"
  "ag_tls_auto_cert_domains toy_args = []" "ag_data_source_dir toy_args = ''d''" "ag_metadata_ttl_seconds toy_args = 2000000000" "ag_conn_qps toy_args = 100" "ag_conn_burst toy_args = 200"
  "env_hash_order toy_server_env (ag_allowed_registries toy_args) = [''h'']"
  by (simp_all add: toy_args_def default_args_def toy_server_defs)

lemma toy_prepare:
  obtains s where "prepare_data_dir toy_server_env ''d'' toy_registry_state = (Inr (), s)"
    "\<And>p. w_fs s p \<in> {None, Some Directory}"
proof -
  have prefixes: "dir_prefixes ''d'' = [''d'']" "dir_prefixes ''d/metadata'' = [''d'', ''d/metadata'']"
      "dir_prefixes ''d/providers'' = [''d'', ''d/providers'']" by code_simp+
  show thesis
    using that
    by (simp add: prepare_data_dir_def op_defs create_dir_all_def io_op_def toy_server_defs toy_registry_state_def path_join_def
        prefixes fs_resolve.simps remove_stale_temp_files_def walk_def read_dir_at_def write_file_def create_file_def append_file_def
        remove_file_def startup_probe_name_def fs_target.simps Let_def)
qed

lemma toy_addresses: "bind_addr ''0.0.0.0'' port label = Inr (SocketV4 (Ipv4 0 0 0 0) port)"
  using bind_addr_show_ipv4 [of "Ipv4 0 0 0 0" port label] char_of_digit_zero [of 0] by (simp add: dec_digits.simps)

lemma toy_client_built:
  obtains client where "new_client (env_builder_error toy_server_env) (env_var toy_server_env) (env_ca_file toy_server_env)
      (env_pem_bundle toy_server_env) (ag_outbound_mode toy_args) (ag_upstream_ca_file toy_args) = Inr client"
  by (simp add: new_client_def build_client_def toy_server_defs toy_args_def default_args_def)

lemma toy_registry:
  "with_registry_client (env_read_dir toy_server_env) (env_read_index toy_server_env) (env_index_of_json toy_server_env) ''d'' [''h'']
      freshness registry = Inr (\<lparr>sv_data_dir = ''d/metadata'', sv_allowed_registries = [''h''], sv_freshness = freshness, sv_registry = registry,
        sv_refresh_backoff = 30 * second\<rparr>, [])"
  by (simp add: with_registry_client_def validate_hostname_def valid_component_def char_defs discover_indices_def path_join_def
      toy_server_defs Let_def)

lemma toy_acceptor:
  obtains resolver s' where "build_tls_acceptor toy_server_env ''tls.crt'' ''tls.key'' s = (Inr resolver, s')" "w_fs s' = w_fs s"
proof -
  have "env_tls toy_server_env = example_env [example_certificate]" "env_epoch toy_server_env n = 1600000000" for n
    by (simp_all add: toy_server_defs)
  then show thesis using example_created [THEN new_resolver_at] that
    by (simp add: build_tls_acceptor_def op_bind_def op_result_def now_epoch_def instant_now_def second_def)
qed

lemma toy_listening:
  obtains listeners s' where "tls_listeners toy_server_env toy_args addr s = (Inr listeners, s')" "w_fs s' = w_fs s"
proof -
  have bound: "bind_listener toy_server_env a = Inr ()" for a by (simp add: bind_listener_def toy_server_defs)
  obtain resolver s' where acceptor: "build_tls_acceptor toy_server_env ''tls.crt'' ''tls.key'' s = (Inr resolver, s')" "w_fs s' = w_fs s"
    by (rule toy_acceptor)
  show thesis
    by (rule that [of _ s']) (simp_all add: tls_listeners_def toy_args_fields toy_addresses bound acceptor op_bind_def op_result_def op_ok_def ok_or_def)
qed

definition toy_started_service :: "unit outbound_client \<Rightarrow> (string \<times> string \<times> string, unit) metadata_service" where
  "toy_started_service client = \<lparr>sv_data_dir = ''d/metadata'', sv_allowed_registries = [''h''], sv_freshness = 2000000000 * second,
     sv_registry = with_outbound client, sv_refresh_backoff = 30 * second\<rparr>"

lemma toy_start:
  obtains plan s client where "start_server toy_server_env toy_args toy_registry_state = (Inr plan, s)" "fs_faithful (\<lambda>_. []) (w_fs s)"
    "(sp_app plan, sp_bucket plan) = build_app (toy_started_service client) (with_bundled_mirror_and_outbound ''d'' None client) ''d'' 100 200 (60 * second)"
    "sp_indices plan = []"
proof -
  obtain s1 where prepared: "prepare_data_dir toy_server_env ''d'' toy_registry_state = (Inr (), s1)"
      and disk: "\<And>p. w_fs s1 p \<in> {None, Some Directory}" by (rule toy_prepare) blast
  obtain client where client: "new_client (env_builder_error toy_server_env) (env_var toy_server_env) (env_ca_file toy_server_env)
      (env_pem_bundle toy_server_env) (ag_outbound_mode toy_args) (ag_upstream_ca_file toy_args) = Inr client" by (rule toy_client_built)
  obtain listeners s3 where listening: "tls_listeners toy_server_env toy_args (SocketV4 (Ipv4 0 0 0 0) 8080) (s1\<lparr>w_tick := w_tick s1 + 1\<rparr>) = (Inr listeners, s3)"
      "w_fs s3 = w_fs (s1\<lparr>w_tick := w_tick s1 + 1\<rparr>)" by (rule toy_listening)
  have "env_instant toy_server_env n = 60 * second" "env_var toy_server_env name = None" for n name by (simp_all add: toy_server_defs)
  then have "\<exists>plan. start_server toy_server_env toy_args toy_registry_state = (Inr plan, s3) \<and> sp_indices plan = [] \<and>
      (sp_app plan, sp_bucket plan) = build_app (toy_started_service client) (with_bundled_mirror_and_outbound ''d'' None client) ''d'' 100 200 (60 * second)"
    unfolding start_server_def toy_args_fields client op_result_def op_bind_def map_err_simps
    using listening(1) by (simp add: prepared toy_registry toy_addresses instant_now_def build_app_def token_bucket_new_def op_ok_def toy_args_fields
        toy_started_service_def Let_def)
  moreover have "w_fs s1 p \<noteq> Some (File bytes st)" for p bytes st using disk [of p] by auto
  then have "fs_faithful (\<lambda>_. []) (w_fs s3)" using listening(2) by (simp add: fs_faithful_def)
  ultimately show thesis using that by blast
qed

section \<open>Properties\<close>

text \<open>C5: a server that starts is configured as its arguments say and starts in a state that satisfies the
  invariants of all components. The metadata stays fresh for the configured time, at least thirty seconds;
  the directories, the allowed registries, the bundled mirror, the rate and the burst (at least one each) are
  those given; metadata and archives are requested by one client, of the configured mode and with the given
  CA certificates, only from HTTPS URLs and public addresses; the test file is gone again. Without TLS there is one
  listener, at the HTTP port of the bind address. With TLS there is that one, which redirects to the given port
  or else to the HTTPS port, and one at the HTTPS port with the certificate and key files given, whose chain is not
  empty and has every certificate within its validity. All have the connection limit given.\<close>

theorem startup_establishes_the_invariants:
  fixes env :: "('u, 'c, 'v, 'h, 'k, 's, 'y) server_env_scheme" and s s' :: "'u registry_state"
  assumes "start_server env args s = (Inr plan, s')" and "fs_faithful contents (w_fs s')"
  shows "app_init env (sp_app plan) contents
      (initial_app_state (initial_storage_state (initial_metadata_state s' (sp_indices plan))) (sp_bucket plan)) \<and>
    ps_max_archive_bytes (ap_storage (sp_app plan)) < 2 ^ 64 - 1 \<and>
    30 * second \<le> sv_freshness (ap_metadata (sp_app plan)) \<and>
    app_follows env args (sp_app plan) (sp_bucket plan) \<and>
    client_follows env args (ps_outbound (ap_storage (sp_app plan))) \<and>
    w_fs s' (path_join (ag_data_source_dir args) (startup_probe_name (env_pid env))) = None \<and>
    listeners_follow env args (sp_listeners plan)"
proof -
  obtain outbound metadata indices http_addr s1 s2 where run: "30 \<le> ag_metadata_ttl_seconds args"
    "new_client (env_builder_error env) (env_var env) (env_ca_file env) (env_pem_bundle env) (ag_outbound_mode args)
       (ag_upstream_ca_file args) = Inr outbound"
    "prepare_data_dir env (ag_data_source_dir args) s = (Inr (), s1)"
    "with_registry_client (env_read_dir env) (env_read_index env) (env_index_of_json env) (ag_data_source_dir args)
       (env_hash_order env (ag_allowed_registries args)) (ag_metadata_ttl_seconds args * second) (with_outbound outbound) =
       Inr (metadata, indices)"
    "ap_metadata (sp_app plan) = metadata"
    and storage: "ap_storage (sp_app plan) =
       with_bundled_mirror_and_outbound (ag_data_source_dir args) (env_var env ''TF_PLUGIN_MIRROR_DIR'') outbound"
    and fs: "w_fs s2 = w_fs s1"
    and bound: "bind_addr (ag_bind_address args) (ag_http_port args) ''HTTP'' = Inr http_addr"
    and listening: "(if ag_enable_tls args then tls_listeners else plain_listeners) env args http_addr s2 = (Inr (sp_listeners plan), s')"
    and rest: "ap_data_dir (sp_app plan) = ag_data_source_dir args"
      "ap_limiter (sp_app plan) = \<lparr>tk_qps = real (max (ag_conn_qps args) 1), tk_burst = real (max (ag_conn_burst args) 1)\<rparr>"
      "bs_tokens (sp_bucket plan) = real (max (ag_conn_burst args) 1)"
    using assms(1) by (rule start_server_succeeds)
  have listeners: "w_fs s' = w_fs s1 \<and> listeners_follow env args (sp_listeners plan)"
    using listening fs tls_listeners_succeed [OF _ _ bound] plain_listeners_succeed [OF _ _ bound] by (fastforce split: if_splits)
  have outbound: "ps_outbound (ap_storage (sp_app plan)) = outbound"
    by (simp add: storage with_bundled_mirror_and_outbound_def storage_build_def)
  have "sv_data_dir metadata = path_join (ag_data_source_dir args) ''metadata'' \<and> rc_outbound (sv_registry metadata) = outbound"
    using run(4) by (auto simp: with_registry_client_def try_bind_eq_Inr Let_def with_outbound_def)
  then have "app_follows env args (sp_app plan) (sp_bucket plan)"
    unfolding app_follows_def run(5) outbound using start_init(3,4) [OF assms, unfolded run(5)] rest storage
    by (simp add: with_bundled_mirror_and_outbound_def storage_build_def MAX_PROVIDER_ARCHIVE_BYTES_def)
  moreover have "30 * second \<le> sv_freshness (ap_metadata (sp_app plan))" using run(1) start_init(4) [OF assms] by simp
  ultimately show ?thesis
    using start_init(1,2) [OF assms] new_client_follows [OF run(2)] prepare_data_dir_succeeds [OF run(3)] listeners
    unfolding outbound by auto
qed

theorem startup_establishes_the_invariants_witness:
  "\<exists>plan s http https. start_server toy_server_env toy_args toy_registry_state = (Inr plan, s) \<and> sp_listeners plan = [http, https] \<and>
     lc_addr http = SocketV4 (Ipv4 0 0 0 0) 8080 \<and> lc_redirect http = Some 8443 \<and> lc_addr https = SocketV4 (Ipv4 0 0 0 0) 8443 \<and>
     lc_max_connections https = 4096 \<and> sv_allowed_registries (ap_metadata (sp_app plan)) = [''h'']"
proof -
  obtain plan s where start: "start_server toy_server_env toy_args toy_registry_state = (Inr plan, s)" "fs_faithful (\<lambda>_. []) (w_fs s)"
    by (rule toy_start)
  have more: "ag_https_redirect_port toy_args = None" "ag_max_connections toy_args = 4096"
    by (simp_all add: toy_args_def default_args_def)
  have follows: "app_follows toy_server_env toy_args (sp_app plan) (sp_bucket plan)" "listeners_follow toy_server_env toy_args (sp_listeners plan)"
    using startup_establishes_the_invariants [OF start] by blast+
  have "sv_allowed_registries (ap_metadata (sp_app plan)) = [''h'']" using follows(1) by (simp add: app_follows_def toy_args_fields)
  moreover obtain resolver where "sp_listeners plan =
      [\<lparr>lc_addr = SocketV4 (Ipv4 0 0 0 0) 8080, lc_tls = None, lc_redirect = Some 8443, lc_max_connections = 4096\<rparr>,
       \<lparr>lc_addr = SocketV4 (Ipv4 0 0 0 0) 8443, lc_tls = Some resolver, lc_redirect = None, lc_max_connections = 4096\<rparr>]"
    using follows(2) unfolding listeners_follow_def listens_iff toy_args_fields more toy_addresses by (auto simp: toy_args_fields)
  ultimately show ?thesis using start(1) by force
qed

text \<open>C16: the plain listener only redirects. Unless the path is one of the probes, the handlers behind it are
  not run; the answer is 400, or for GET and HEAD 302 with a location made of the host of the request's
  \<open>Host\<close> header, the configured port unless it is 443, and the target of the request. If the target begins with
  \<open>/\<close> or \<open>?\<close>, a client reads the location as that host, an IPv6 address in brackets, with that port and
  the request's path and query, so that neither user information nor a port of the request leads to another
  host. The one other target that the HTTP crate knows is \<open>*\<close>: it becomes part of the authority, and the client
  reads another host.\<close>

theorem plain_listener_only_redirects:
  assumes "authority_laws http" and "rq_path request \<notin> {''/readyz'', ''/livez''}"
    and "target = (case rq_path_and_query request of None \<Rightarrow> ''/'' | Some v \<Rightarrow> v)"
    and "redirect_http_to_https http port request next_handler s = (r, s')"
  shows "s' = s \<and> (case r of
      Inl response \<Rightarrow> hr_status response = 400
    | Inr response \<Rightarrow> hr_status response = 302 \<and> rq_method request \<in> {Get, Head} \<and>
        (\<exists>v host h location. rq_host request = Some v \<and> hc_to_str http v = Some host \<and>
           hc_authority_host http host = Some h \<and> hr_headers response = [(''location'', location)] \<and>
           location = ''https://'' @ redirect_authority h port @ target \<and>
           (target \<noteq> [] \<and> hd target \<in> {CHR ''/'', CHR ''?''} \<longrightarrow> location_parts location = Some (url_host h, unat port, target)) \<and>
           (target = ''*'' \<longrightarrow> location_parts location = Some (redirect_authority h port @ ''*'', 443, []))))"
proof (cases r)
  case (Inl response)
  then show ?thesis using assms(2,4)
    by (auto simp: redirect_http_to_https_def op_err_def op_ok_def status_response_def text_response_def split: if_splits option.splits)
next
  case (Inr response)
  obtain v host location where run: "rq_method request \<in> {Get, Head}" "rq_host request = Some v" "hc_to_str http v = Some host"
      "redirect_location http host target port = Some location"
      "response = \<lparr>hr_status = 302, hr_headers = [(''location'', location)], hr_body = EmptyBody\<rparr>" "s' = s"
    using Inr assms(2,4) unfolding assms(3) redirect_http_to_https_def
    by (cases "Option.bind (rq_host request) (hc_to_str http)")
      (auto simp: op_err_def op_ok_def bind_eq_Some_conv split: if_splits option.splits)
  then show ?thesis using Inr redirect_location_parts [OF assms(1) run(4)] by auto
qed

definition toy_http :: "string http_crate" where
  "toy_http = \<lparr>hc_authority_host = (\<lambda>host. if host = ''m:80'' then Some ''m'' else None), hc_to_str = Some, hc_from_str_ok = (\<lambda>_. True)\<rparr>"

definition toy_request :: "string \<Rightarrow> string http_request" where
  "toy_request target = \<lparr>rq_method = Get, rq_path = target, rq_path_and_query = Some target, rq_host = Some ''m:80''\<rparr>"

theorem plain_listener_only_redirects_witness:
  "(\<exists>response location. redirect_http_to_https toy_http 8443 (toy_request ''/x'') (op_ok (status_response 500)) () = (Inr response, ()) \<and>
     hr_headers response = [(''location'', location)] \<and> location_parts location = Some (''m'', 8443, ''/x'')) \<and>
   (\<exists>response location. redirect_http_to_https toy_http 443 (toy_request ''*'') (op_ok (status_response 500)) () = (Inr response, ()) \<and>
     hr_headers response = [(''location'', location)] \<and> location_parts location = Some (''m*'', 443, []))"
proof -
  have laws: "authority_laws toy_http" by (simp add: authority_laws_def toy_http_def)
  have host: "hc_authority_host toy_http ''m:80'' = Some ''m''" "url_host ''m'' = ''m''" "unat (8443 :: port) = 8443"
      "hc_to_str toy_http v = Some v" "redirect_authority ''m'' 443 = ''m''" for v
    by (simp_all add: toy_http_def url_host_def redirect_authority_def)
  have run: "\<exists>response. redirect_http_to_https toy_http port (toy_request target) (op_ok (status_response 500)) () = (Inr response, ())"
    if "target \<notin> {''/readyz'', ''/livez''}" for port target
    using that by (simp add: redirect_http_to_https_def redirect_location_def toy_http_def toy_request_def op_ok_def Let_def)
  obtain r1 r2 where runs: "redirect_http_to_https toy_http 8443 (toy_request ''/x'') (op_ok (status_response 500)) () = (Inr r1, ())"
      "redirect_http_to_https toy_http 443 (toy_request ''*'') (op_ok (status_response 500)) () = (Inr r2, ())"
    using run [of "''/x''" 8443] run [of "''*''" 443] by auto
  show ?thesis
    using plain_listener_only_redirects [OF laws _ _ runs(1), of "''/x''"] plain_listener_only_redirects [OF laws _ _ runs(2), of "''*''"] runs
    by (auto simp: toy_request_def host)
qed

text \<open>A readiness probe whose file was left behind, by a crash between its creation and its removal, makes the
  check fail although the directory is writable.\<close>

lemma leftover_probe_fails_readiness:
  assumes "w_fs s (path_join (ap_data_dir app) (ready_probe_name (env_pid env) (ap_ready_sequence s))) = Some node"
    and "\<And>tick. env_io env tick = None"
  shows "hr_status (fst (handle_request env app Readyz s)) = 503"
proof -
  define probe where "probe = path_join (ap_data_dir app) (ready_probe_name (env_pid env) (ap_ready_sequence s))"
  define s0 where "s0 = s\<lparr>ap_ready_sequence := wrapping_inc64 (ap_ready_sequence s)\<rparr>"
  have "w_fs s0 probe = Some node" using assms(1) by (simp add: s0_def probe_def)
  then have "\<exists>s1. probe_write env probe s0 = (Inl (IoOther ''file exists''), s1)"
    using assms(2) by (simp add: probe_write_def create_new_file_def io_op_def op_bind_def)
  then show ?thesis
    by (auto simp: handle_request_def respond_def route_def readyz_def next_ready_sequence_def op_bind_def op_catch_def op_ok_def
        text_response_def s0_def probe_def)
qed

end
