(* ===== verification/Mirror.thy ===== *)
theory Mirror
  imports Server_Properties Metadata_Errors
begin

text \<open>
  The whole server, from \<open>main\<close> to the responses: which requests it sends to the outside and what its responses
  look like, in every state that it reaches after a start.
\<close>

section \<open>Requests to the outside\<close>

text \<open>The operations of the metadata service, the storage and the handlers only send requests that the policy of
  their client allows.\<close>

lemma polite_queries:
  "op_respects (polite env (rc_outbound (sv_registry svc))) (list_versions env svc h n t)"
  "op_respects (polite env (rc_outbound (sv_registry svc))) (get_version env svc h n t v)"
  "op_respects (polite env (rc_outbound (sv_registry svc))) (get_platform_by_archive env svc h n t f)"
proof -
  have entry: "op_respects (polite env (rc_outbound (sv_registry svc))) (get_version_entry env svc h n t v)" for v
    unfolding get_version_entry_def
    by (intro requests.respects_rules polite_load_version) (auto intro!: requests.respects_pure split: metadata_error.split)
  show "op_respects (polite env (rc_outbound (sv_registry svc))) (list_versions env svc h n t)"
    "op_respects (polite env (rc_outbound (sv_registry svc))) (get_version env svc h n t v)"
    "op_respects (polite env (rc_outbound (sv_registry svc))) (get_platform_by_archive env svc h n t f)"
    unfolding list_versions_def get_version_def get_platform_by_archive_def
    by (intro requests.respects_rules polite_load_index entry)+
qed

lemma polite_sync_indices:
  "op_respects (polite env (rc_outbound (sv_registry svc)))
     (sync_indices env svc keys failures :: (('u, 'z) metadata_state_scheme, metadata_error, nat) oper)"
  by (induction keys arbitrary: failures)
    (auto simp: sync_index_def intro!: requests.respects_rules polite_checks polite_locks polite_index)

lemma polite_sync_known: "op_respects (polite env (rc_outbound (sv_registry svc))) (sync_known env svc)"
  unfolding sync_known_def by (intro requests.respects_rules polite_sync_indices polite_modify; simp)

lemma polite_readyz: "op_respects (polite env' client) (readyz env app)"
proof -
  have "op_respects (polite env' client) next_ready_sequence" by (rule polite_same_log) (simp add: next_ready_sequence_def)
  then show ?thesis
    unfolding readyz_def probe_write_def create_new_file_def file_step_def remove_file_def
    by (intro requests.respects_rules polite_io)
qed

lemma polite_send_archive: "op_respects (polite env' client) (send_archive env archive path)"
proof -
  have io_case: "op_respects (polite env' client) f \<Longrightarrow> (\<And>e. op_respects (polite env' client) (j e)) \<Longrightarrow>
      op_respects (polite env' client) (case io of IoNotFound \<Rightarrow> f | IoOther e \<Rightarrow> j e)" for f j io
    by (cases io) auto
  show ?thesis unfolding send_archive_def open_file_def file_step_def Let_def by (intro requests.respects_rules polite_io io_case)
qed

lemma polite_acquire: "op_respects (polite env' client) (acquire_token env app)"
proof -
  have "op_respects (polite env' client) (\<lambda>s. case try_acquire (env_round env) (ap_limiter app) now (ap_bucket s) of
      (ok, bucket) \<Rightarrow> (Inr ok, s\<lparr>ap_bucket := bucket\<rparr>))" for now
    by (rule polite_same_log) (simp split: prod.splits)
  then show ?thesis unfolding acquire_token_def by (intro requests.respects_rules polite_clock)
qed

text \<open>The client of the application: the metadata service and the storage share it.\<close>

lemma polite_route:
  fixes env :: "('u, 'c, 'v, 'h, 'y) app_env_scheme"
  assumes "rc_outbound (sv_registry (ap_metadata app)) = client" "ps_outbound (ap_storage app) = client"
  shows "op_respects (polite env client) (route env app request)"
proof -
  note queries = polite_queries [of env "ap_metadata app", unfolded assms(1)]
    polite_sync_known [of env "ap_metadata app", unfolded assms(1)]
  note load = polite_within [OF requests_load [of env "ap_storage app", unfolded assms(2)]]
  have versions: "op_respects (polite env client) (get_provider_metadata env app h n t a)" for h n t a
    unfolding get_provider_metadata_def Let_def by (intro requests.respects_rules queries)
  have download: "op_respects (polite env client) (download_provider_archive env app h n t a)" for h n t a
    unfolding download_provider_archive_def by (intro requests.respects_rules queries load polite_send_archive)
  have sync: "op_respects (polite env client) (sync_providers env app)"
    unfolding sync_providers_def by (intro requests.respects_rules queries)
  have limited: "op_respects (polite env client) (enforce_rate_limit env app handler)"
    if "op_respects (polite env client) handler" for handler
    unfolding enforce_rate_limit_def using that by (intro requests.respects_rules polite_acquire)
  show ?thesis
    unfolding route_def livez_def
    by (cases request) (auto intro: limited versions download sync polite_readyz requests.respects_rules)
qed

subsection \<open>The start\<close>

text \<open>Nothing is sent before the server listens, and the state of the components is as they were made.\<close>

definition same_log :: "('u, 'z) world_scheme \<Rightarrow> ('u, 'z) world_scheme \<Rightarrow> bool" where
  "same_log s s' \<longleftrightarrow> w_sent s' = w_sent s \<and> world.more s' = world.more s"

interpretation log: state_preorder same_log
  by unfold_locales (simp_all add: same_log_def)

lemma same_log_basic:
  "op_respects same_log (io_op env act)" "op_respects same_log (instant_now env)" "op_respects same_log (now_epoch env)"
  by (auto simp: op_respects_def same_log_def io_op_def instant_now_def now_epoch_def split: option.splits sum.splits)

lemma same_log_io_case:
  "op_respects same_log f \<Longrightarrow> (\<And>e. op_respects same_log (j e)) \<Longrightarrow> op_respects same_log (case io of IoNotFound \<Rightarrow> f | IoOther e \<Rightarrow> j e)"
  by (cases io) auto

lemmas same_log_rules = log.respects_rules same_log_basic same_log_io_case

lemma same_log_walk:
  "op_respects same_log (walk_entries env directory entries removed :: (('u, 'z) world_scheme, io_error, nat) oper)"
  "op_respects same_log (walk_entry env directory name node removed :: (('u, 'z) world_scheme, io_error, nat) oper)"
  by (induction env directory entries removed and env directory name node removed rule: walk_entries_walk_entry.induct)
    (auto simp: file_step_def remove_file_def read_dir_at_def intro!: same_log_rules)

lemma same_log_prepare: "op_respects same_log (prepare_data_dir env data_dir)"
proof -
  have "op_respects same_log (remove_stale_temp_files env data_dir providers metadata)" for providers metadata
    unfolding remove_stale_temp_files_def walk_def read_dir_at_def by (intro same_log_rules same_log_walk)
  then show ?thesis
    unfolding prepare_data_dir_def create_directories.simps create_dir_all_def write_file_def create_file_def append_file_def
      remove_file_def Let_def
    by (intro same_log_rules)
qed

lemma start_sends_nothing: "op_respects same_log (start_server env args)"
proof -
  have "op_respects same_log (if ag_enable_tls args then tls_listeners env args http_addr else plain_listeners env args http_addr)" for http_addr
    unfolding tls_listeners_def plain_listeners_def build_tls_acceptor_def by (intro same_log_rules)
  then have listeners: "op_respects same_log ((if ag_enable_tls args then tls_listeners else plain_listeners) env args http_addr)" for http_addr
    by (cases "ag_enable_tls args") simp_all
  show ?thesis
    unfolding start_server_def Let_def case_prod_beta by (intro same_log_rules same_log_prepare listeners)
qed

text \<open>The state in which the server starts to serve.\<close>

definition mirror_start :: "('u, 'c, 's) server_plan \<Rightarrow> 'u registry_state \<Rightarrow> 'u app_state" where
  "mirror_start plan s = initial_app_state (initial_storage_state (initial_metadata_state s (sp_indices plan))) (sp_bucket plan)"

lemma mirror_start_world: "w_sent (mirror_start plan s) = w_sent s" "w_fs (mirror_start plan s) = w_fs s"
  by (simp_all add: mirror_start_def initial_app_state_def initial_storage_state_def initial_metadata_state_def
      storage_state.defs metadata_state.defs registry_state.defs)

text \<open>Both components of a started server send their requests through the client that \<open>main\<close> built.\<close>

lemma started_client:
  assumes "start_server env args s = (Inr plan, s')"
  obtains client where "new_client (env_builder_error env) (env_var env) (env_ca_file env) (env_pem_bundle env) (ag_outbound_mode args)
      (ag_upstream_ca_file args) = Inr client"
    "rc_outbound (sv_registry (ap_metadata (sp_app plan))) = client" "ps_outbound (ap_storage (sp_app plan)) = client"
  using assms
proof (rule start_server_succeeds)
  fix outbound metadata indices
  assume built: "new_client (env_builder_error env) (env_var env) (env_ca_file env) (env_pem_bundle env) (ag_outbound_mode args)
      (ag_upstream_ca_file args) = Inr outbound"
    and service: "with_registry_client (env_read_dir env) (env_read_index env) (env_index_of_json env) (ag_data_source_dir args)
      (env_hash_order env (ag_allowed_registries args)) (ag_metadata_ttl_seconds args * second) (with_outbound outbound) = Inr (metadata, indices)"
    and plan: "ap_metadata (sp_app plan) = metadata" "ap_storage (sp_app plan) =
       with_bundled_mirror_and_outbound (ag_data_source_dir args) (env_var env ''TF_PLUGIN_MIRROR_DIR'') outbound"
  have "sv_registry metadata = with_outbound outbound" using service by (auto simp: with_registry_client_def try_bind_eq_Inr Let_def)
  then show thesis
    by (intro that [OF built]) (simp_all add: plan with_outbound_def with_bundled_mirror_and_outbound_def storage_build_def)
qed

lemma app_step_polite:
  fixes env :: "('u, 'c, 'v, 'h, 'y) app_env_scheme"
  assumes "rc_outbound (sv_registry (ap_metadata app)) = client" "ps_outbound (ap_storage app) = client" "app_step env app contents s s'"
  shows "polite env client s s'"
  using assms(3)
proof cases
  case (request request response)
  then show ?thesis using respectsD [OF polite_route [OF assms(1,2)]] by (auto simp: handle_request_run)
next
  case (disk_change fs)
  then show ?thesis by (simp add: polite_def)
qed

lemma app_run_polite:
  fixes env :: "('u, 'c, 'v, 'h, 'y) app_env_scheme"
  assumes "rc_outbound (sv_registry (ap_metadata app)) = client" "ps_outbound (ap_storage app) = client"
    and "(app_step env app contents)\<^sup>*\<^sup>* s s'"
  shows "polite env client s s'"
  using assms(3) by (induction rule: rtranclp_induct) (auto intro: requests.refl requests.trans app_step_polite [OF assms(1,2)])

section \<open>The shape of the responses\<close>

definition bare_response :: "nat set \<Rightarrow> http_response \<Rightarrow> bool" where
  "bare_response statuses response \<longleftrightarrow> (\<exists>status \<in> statuses. response = status_response status)"

definition too_many_requests :: http_response where
  "too_many_requests = \<lparr>hr_status = 429, hr_headers = [(''retry-after'', ''1'')], hr_body = EmptyBody\<rparr>"

definition archive_headers :: "string \<Rightarrow> octet list \<Rightarrow> (string \<times> string) list" where
  "archive_headers archive bytes =
     [(''content-length'', dec_digits (length bytes)), (''content-type'', ''application/zip''),
      (''content-disposition'', ''attachment; filename='' @ [CHR 0x22] @ archive @ [CHR 0x22])]"

text \<open>The responses that a request may get.\<close>

definition response_type :: "api_request \<Rightarrow> http_response \<Rightarrow> bool" where
  "response_type request response = (case request of
     Livez \<Rightarrow> response = text_response 200 ''ok''
   | Readyz \<Rightarrow> response \<in> {text_response 200 ''ok'', text_response 503 ''cache unavailable''}
   | ProviderMetadata hostname namespace provider_type action \<Rightarrow>
       response = too_many_requests \<or> bare_response {400, 404, 502} response \<or>
       (case strip_suffix ''.json'' action of None \<Rightarrow> False | Some version \<Rightarrow>
          if trim_start_matches CHR ''v'' (str_trim version) = ''index''
          then \<exists>versions. response = json_response (VersionsBody versions)
          else \<exists>archives. response = json_response (ArchivesBody archives) \<and>
            (\<forall>archive \<in> ran archives. \<exists>filename. ar_url archive = ''download/'' @ filename \<and> length (ar_hashes archive) \<le> 1))
   | ProviderDownload hostname namespace provider_type archive \<Rightarrow>
       response = too_many_requests \<or> bare_response {400, 404, 500, 502} response \<or>
       (\<exists>bytes. response = \<lparr>hr_status = 200, hr_headers = archive_headers archive bytes, hr_body = FileBody bytes\<rparr>)
   | SyncProviders \<Rightarrow> response = too_many_requests \<or> bare_response {204, 409, 502} response)"

text \<open>Whatever the outcome of the operation, the response satisfies a predicate.\<close>

definition responds :: "('r \<Rightarrow> bool) \<Rightarrow> ('s, 'r, 'r) oper \<Rightarrow> bool" where
  "responds P f \<longleftrightarrow> (\<forall>s r s'. f s = (r, s') \<longrightarrow> (case r of Inl response \<Rightarrow> P response | Inr response \<Rightarrow> P response))"

lemma responds_pure: "P response \<Longrightarrow> responds P (op_ok response)" "P response \<Longrightarrow> responds P (op_err response)"
  by (simp_all add: responds_def op_ok_def op_err_def)

lemma responds_bind: "refuses_with P f \<Longrightarrow> (\<And>a. responds P (g a)) \<Longrightarrow> responds P (op_bind f g)"
  unfolding responds_def refuses_with_def op_bind_def by (fastforce split: prod.splits sum.splits)

lemma responds_catch: "(\<And>r. responds P (g r)) \<Longrightarrow> responds P (op_catch f g)"
  unfolding responds_def op_catch_def by (auto split: prod.splits)

lemma responds_cases:
  "responds P f \<Longrightarrow> responds P g \<Longrightarrow> responds P (if b then f else g)"
  "responds P f \<Longrightarrow> (\<And>x. responds P (h x)) \<Longrightarrow> responds P (case opt of None \<Rightarrow> f | Some x \<Rightarrow> h x)"
  "(\<And>y. responds P (k y)) \<Longrightarrow> (\<And>x. responds P (h x)) \<Longrightarrow> responds P (case res of Inl y \<Rightarrow> k y | Inr x \<Rightarrow> h x)"
  "responds P f \<Longrightarrow> (\<And>x. responds P (j x)) \<Longrightarrow> responds P (case io of IoNotFound \<Rightarrow> f | IoOther x \<Rightarrow> j x)"
  by (auto split: option.splits sum.splits io_error.splits)

lemmas responds_rules = responds_pure responds_bind responds_catch refuses_with_map_err(1) responds_cases

lemma bare_response_status: "status \<in> statuses \<Longrightarrow> bare_response statuses (status_response status)"
  by (auto simp: bare_response_def)

lemma bare_metadata_error: "query_error e \<Longrightarrow> {400, 404, 502} \<subseteq> statuses \<Longrightarrow> bare_response statuses (metadata_error_response e)"
  by (cases e) (auto simp: metadata_error_response_def query_error_def intro!: bare_response_status)

text \<open>A query is refused with the response of an error that it can end in.\<close>

lemma query_refused:
  assumes "\<And>e. query_error e \<Longrightarrow> P (metadata_error_response e)" "refuses_with query_error f"
  shows "refuses_with P (op_map_err metadata_error_response f)"
  using assms by (blast intro: refuses_with_map_err(2) refuses_with_weaken)

lemmas queries_refused = query_refused [OF _ query_errors(1)] query_refused [OF _ query_errors(2)] query_refused [OF _ query_errors(3)]

lemma responds_limited:
  assumes "responds P handler" "P too_many_requests"
  shows "responds P (enforce_rate_limit env app handler)"
  unfolding enforce_rate_limit_def
proof (rule responds_bind)
  show "refuses_with P (acquire_token env app)"
    by (auto simp: refuses_with_def acquire_token_def op_bind_def instant_now_def split: prod.splits)
qed (auto intro: responds_rules assms simp flip: too_many_requests_def)

lemma archives_of_ran:
  assumes "archive \<in> ran (archives_of metadata)"
  shows "\<exists>filename. ar_url archive = ''download/'' @ filename \<and> length (ar_hashes archive) \<le> 1"
proof -
  from assms obtain k where "(k, archive) \<in> set (rev (map (\<lambda>platform. (pm_os platform @ ''_'' @ pm_arch platform,
      \<lparr>ar_url = ''download/'' @ pm_filename platform,
       ar_hashes = (case pm_shasum platform of Some shasum \<Rightarrow> [''zh:'' @ shasum] | None \<Rightarrow> [])\<rparr>)) (vm_platforms metadata)))"
    by (auto simp: ran_def archives_of_def dest: map_of_SomeD)
  then show ?thesis by (auto split: option.split)
qed

lemma metadata_response_type: "responds (response_type (ProviderMetadata h n t a)) (get_provider_metadata env app h n t a)"
proof (cases "strip_suffix ''.json'' a")
  case None
  then show ?thesis by (auto simp: get_provider_metadata_def response_type_def intro!: responds_pure bare_response_status)
next
  case (Some v)
  have "response_type (ProviderMetadata h n t a) (metadata_error_response e)" if "query_error e" for e
    using that by (simp add: response_type_def bare_metadata_error)
  note refused = queries_refused [where P = "response_type (ProviderMetadata h n t a)", OF this]
  have "response_type (ProviderMetadata h n t a) (status_response 404)" by (simp add: response_type_def bare_response_status)
  moreover have "response_type (ProviderMetadata h n t a) (json_response (VersionsBody (set versions)))"
    if "trim_start_matches CHR ''v'' (str_trim v) = ''index''" for versions
    using that Some by (auto simp: response_type_def)
  moreover have "response_type (ProviderMetadata h n t a) (json_response (ArchivesBody (archives_of metadata)))"
    if "trim_start_matches CHR ''v'' (str_trim v) \<noteq> ''index''" for metadata
    using that Some archives_of_ran by (auto simp: response_type_def)
  ultimately show ?thesis
    unfolding get_provider_metadata_def Some option.map option.case Let_def
    by (cases "trim_start_matches CHR ''v'' (str_trim v) = ''index''") (auto intro!: responds_rules refused)
qed

lemma download_response_type: "responds (response_type (ProviderDownload h n t f)) (download_provider_archive env app h n t f)"
proof -
  have bare: "response_type (ProviderDownload h n t f) (status_response status)" if "status \<in> {400, 404, 500, 502}" for status
    using that by (auto simp: response_type_def intro: bare_response_status)
  have "response_type (ProviderDownload h n t f) (metadata_error_response e)" if "query_error e" for e
    using that by (simp add: response_type_def bare_metadata_error)
  note refused = queries_refused [where P = "response_type (ProviderDownload h n t f)", OF this]
  have sent: "response_type (ProviderDownload h n t f) \<lparr>hr_status = 200, hr_headers = archive_headers f bytes, hr_body = FileBody bytes\<rparr>" for bytes
    by (auto simp: response_type_def)
  have "responds (response_type (ProviderDownload h n t f)) (send_archive env f path)" for path
    unfolding send_archive_def Let_def archive_headers_def [symmetric]
    by (intro responds_rules bare sent; simp)
  then show ?thesis
    unfolding download_provider_archive_def by (intro responds_rules refused bare; simp)
qed

lemma route_response_type: "responds (response_type request) (route env app request)"
proof (cases request)
  case Livez
  then show ?thesis by (auto simp: route_def livez_def response_type_def intro: responds_pure)
next
  case Readyz
  have "refuses_with P next_ready_sequence" for P by (simp add: refuses_with_def next_ready_sequence_def)
  then have "responds (response_type Readyz) (readyz env app)"
    unfolding readyz_def by (intro responds_rules) (auto simp: response_type_def)
  then show ?thesis by (simp add: Readyz route_def)
next
  case (ProviderMetadata h n t a)
  then show ?thesis using metadata_response_type by (simp add: route_def) (rule responds_limited, auto simp: response_type_def)
next
  case (ProviderDownload h n t f)
  then show ?thesis using download_response_type by (simp add: route_def) (rule responds_limited, auto simp: response_type_def)
next
  case SyncProviders
  have "responds (response_type SyncProviders) (sync_providers env app)"
    unfolding sync_providers_def
    by (intro responds_rules) (auto simp: response_type_def split: sum.splits metadata_error.splits intro!: bare_response_status)
  then show ?thesis unfolding SyncProviders route_def api_request.case by (rule responds_limited) (simp add: response_type_def)
qed

section \<open>Runs of the server\<close>

text \<open>The server started from the state \<open>boot\<close>, handled requests one after the other, and is now in the state \<open>s\<close>.\<close>

definition mirror_runs ::
  "('u, 'c, 'v, 'h, 'k, 's, 'y) server_env_scheme \<Rightarrow> args \<Rightarrow> (file_identity \<Rightarrow> octet list) \<Rightarrow> 'u registry_state \<Rightarrow>
     ('u, 'c, 's) server_plan \<Rightarrow> 'u app_state \<Rightarrow> bool" where
  "mirror_runs env args contents boot plan s \<longleftrightarrow>
     (\<exists>s0. start_server env args boot = (Inr plan, s0) \<and> fs_faithful contents (w_fs s0) \<and>
        (app_step env (sp_app plan) contents)\<^sup>*\<^sup>* (mirror_start plan s0) s)"

lemma run_reaches: "step\<^sup>*\<^sup>* s s' \<Longrightarrow> init s \<Longrightarrow> reach init step s'"
  by (induction rule: rtranclp_induct) (auto intro: reach.intros)

subsection \<open>A small run\<close>

text \<open>The server of the small instance started, and then its files were written by someone else.\<close>

lemma toy_mirror_runs:
  obtains plan client s0 where "mirror_runs toy_server_env toy_args (\<lambda>_. []) toy_registry_state plan (mirror_start plan s0\<lparr>w_fs := toy_disk\<rparr>)"
    "start_server toy_server_env toy_args toy_registry_state = (Inr plan, s0)"
    "(sp_app plan, sp_bucket plan) = build_app (toy_started_service client) (with_bundled_mirror_and_outbound ''d'' None client) ''d'' 100 200 (60 * second)"
    "sp_indices plan = []"
proof (rule toy_start)
  fix plan s0 client
  assume start: "start_server toy_server_env toy_args toy_registry_state = (Inr plan, s0)" "fs_faithful (\<lambda>_. []) (w_fs s0)"
    and plan: "(sp_app plan, sp_bucket plan) = build_app (toy_started_service client) (with_bundled_mirror_and_outbound ''d'' None client) ''d'' 100 200 (60 * second)"
    "sp_indices plan = []"
  have "app_step toy_server_env (sp_app plan) (\<lambda>_. []) (mirror_start plan s0) (mirror_start plan s0\<lparr>w_fs := toy_disk\<rparr>)"
    by (rule app_step.disk_change) (simp add: fs_faithful_def toy_disk_def)
  then have "mirror_runs toy_server_env toy_args (\<lambda>_. []) toy_registry_state plan (mirror_start plan s0\<lparr>w_fs := toy_disk\<rparr>)"
    using start unfolding mirror_runs_def by blast
  then show thesis using plan start(1) that by blast
qed

lemma toy_started:
  assumes "(sp_app plan, sp_bucket plan) = build_app (toy_started_service client) (with_bundled_mirror_and_outbound ''d'' None client) ''d'' 100 200 (60 * second)"
  shows "ap_metadata (sp_app plan) = toy_started_service client"
    "ap_storage (sp_app plan) = with_bundled_mirror_and_outbound ''d'' None client"
    "\<exists>n b. acquire_token toy_server_env (sp_app plan) (mirror_start plan s0\<lparr>w_fs := fs\<rparr>) =
       (Inr True, mirror_start plan s0\<lparr>w_fs := fs, w_tick := n, ap_bucket := b\<rparr>)"
  using assms
  by (auto simp: build_app_def split: prod.splits simp: acquire_token_def instant_now_def op_bind_def try_acquire_def refill_def
      token_bucket_new_def toy_server_defs mirror_start_def initial_app_state_def storage_state.defs Let_def as_secs_f64_def second_def)

lemma toy_started_lookup:
  assumes "sp_indices plan = []"
  shows "\<exists>s1. get_platform_by_archive toy_server_env (toy_started_service client) ''h'' ''n'' ''t'' ''terraform-provider-t_1_l_a.zip''
       (mirror_start plan s0\<lparr>w_fs := toy_disk, w_tick := n, ap_bucket := b\<rparr>) = (Inr (Some toy_platform), s1) \<and> w_fs s1 = toy_disk"
  using toy_validated toy_fields assms
  by (simp add: get_platform_by_archive_def get_version_entry_def load_version_def load_version_locked_def load_entry_locked_def
      fresh_entry_def entry_fresh_def read_persisted_version_def read_json_def read_file_def io_op_def now_epoch_def op_defs
      toy_server_defs toy_started_service_def mirror_start_def initial_app_state_def initial_storage_state_def toy_disk_def
      initial_metadata_state_def storage_state.defs metadata_state.defs registry_state.defs toy_parse validate_version_def valid_version_def
      char_defs strip_v_def second_def provider_key_of_def validate_hostname_def validate_component_def valid_component_def
      with_version_lock_def lock_for_def empty_lock_table_def version_of_def fs_resolve.simps Let_def)

definition toy_discovery_url :: "string \<times> string \<times> string" where
  "toy_discovery_url = (''https'', ''.well-known/terraform.json'', ''/'')"

lemma toy_discovery_get:
  assumes "oc_mode client = Direct"
  shows "http_get toy_server_env client toy_discovery_url 30 s =
     (Inr \<lparr>resp_status = 200, resp_url = toy_discovery_url, resp_location = Some (Some ''other.example''), resp_content_length = None,
        resp_chunks = []\<rparr>, s\<lparr>w_sent := w_sent s @ [toy_discovery_url]\<rparr>)"
proof -
  let ?host = "''.well-known/terraform.json''"
  have "hex_value CHR ''.'' = None" by code_simp
  then have number: "read_number 10 3 255 False ?host = None" "read_number 16 4 65535 True ?host = None"
    by (simp_all add: read_number_def to_digit_def)
  then have v4: "read_ipv4_addr ?host = None" by (simp add: read_ipv4_addr_def read_octet_def read_separator_def)
  have "read_groups 0 (Suc 7) ?host = ([], False, ?host)"
    unfolding read_groups.simps(2) by (simp add: read_separator_def v4 number(2))
  then have "read_ipv6_addr ?host = None" by (simp add: read_ipv6_addr_def)
  then have "parse_ip_addr ?host = None" using v4 by (simp add: parse_ip_addr_def)
  moreover have "trim_end_matches CHR '']'' (trim_start_matches CHR ''['' ?host) = ?host"
    by (simp add: trim_end_matches_def trim_start_matches_def)
  ultimately have "literal_ip ?host = None" by (simp add: literal_ip_def)
  then show ?thesis
    unfolding http_get_def outbound_get_def MAX_REDIRECTS_def
    by (subst get_loop.simps) (simp add: validate_url_def toy_api_def toy_send_def toy_server_defs is_redirect_def toy_discovery_url_def)
qed

lemma toy_discovery_fails:
  fixes s :: "(string \<times> string \<times> string, 'z) registry_state_scheme"
  assumes client: "oc_mode client = Direct" and s: "rs_cache s = Map.empty" "rs_locks s = empty_lock_table"
  shows "\<exists>s'. registry_versions toy_server_env (with_outbound client) h n t s =
     (Inl (RegInvalidResponse ''Terraform discovery document is missing providers.v1''), s') \<and>
     w_fs s' = w_fs s \<and> w_sent s' = w_sent s @ [toy_discovery_url] \<and> registry_state.more s' = registry_state.more s"
proof -
  have env: "env_url toy_server_env = toy_api" "env_json_discovery toy_server_env body = Inr None" for body by (simp_all add: toy_server_defs)
  have "url_parse toy_api u = Inr (''https'', u, ''/'')" "url_join toy_api v ''.well-known/terraform.json'' = Inr toy_discovery_url" for u v
    by (simp_all add: toy_api_def toy_discovery_url_def)
  then show ?thesis
    using s env
    by (simp add: toy_discovery_get [OF client] registry_versions_def registry_get_def registry_origin_def with_outbound_def discover_def discover_locked_def
        with_discovery_lock_def cached_discovery_def fetch_origin_def store_origin_def instant_now_def op_defs error_for_status_def
        decode_json_def lock_for_def empty_lock_table_def Let_def)
qed

lemma toy_started_sends:
  assumes client: "oc_mode client = Direct" and start: "sp_indices plan = []" "world.more s0 = world.more toy_registry_state" "w_sent s0 = []"
  shows "\<exists>r s1. list_versions toy_server_env (toy_started_service client) ''h'' ''n'' ''t''
       (mirror_start plan s0\<lparr>w_fs := toy_disk, w_tick := n, ap_bucket := b\<rparr>) = (Inl r, s1) \<and> w_fs s1 = toy_disk \<and> w_sent s1 = [toy_discovery_url]"
proof -
  have fields: "rs_cache s0 = Map.empty" "rs_locks s0 = empty_lock_table"
    using start(2) by (cases s0; simp add: toy_registry_state_def)+
  define after where "after s = snd (registry_versions toy_server_env (with_outbound client) ''h'' ''n'' ''t'' s)" for s :: "(string \<times> string \<times> string) app_state"
  have versions: "registry_versions toy_server_env (with_outbound client) ''h'' ''n'' ''t'' s =
      (Inl (RegInvalidResponse ''Terraform discovery document is missing providers.v1''), after s)"
    "w_fs (after s) = w_fs s" "w_sent (after s) = w_sent s @ [toy_discovery_url]" "registry_state.more (after s) = registry_state.more s"
    if "rs_cache s = Map.empty" "rs_locks s = empty_lock_table" for s
    using toy_discovery_fails [OF client that, of "''h''" "''n''" "''t''"] by (auto simp: after_def)
  have env: "env_index_of_json toy_server_env = (\<lambda>_. Inl [])" "env_io toy_server_env tick = None" for tick by (simp_all add: toy_server_defs)
  show ?thesis
    using start fields
    by (simp add: versions same_metadata_fields [OF versions(4)] env list_versions_def load_index_def load_index_locked_def load_entry_locked_def refresh_index_unlocked_def
      fresh_entry_def entry_fresh_def read_persisted_index_def read_json_def read_file_def io_op_def op_defs instant_now_def
      index_refresh_allowed_def refresh_allowed_now_def record_index_failure_def
      toy_started_service_def mirror_start_def initial_app_state_def initial_storage_state_def toy_disk_def
      initial_metadata_state_def storage_state.defs metadata_state.defs registry_state.defs
      char_defs second_def provider_key_of_def validate_hostname_def validate_component_def valid_component_def
      with_index_lock_def lock_for_def empty_lock_table_def index_of_def fs_resolve.simps Let_def)
qed

text \<open>A client asks for the versions; the server asks the registry for its discovery document, which is empty.\<close>

lemma toy_mirror_asks:
  obtains plan s where "mirror_runs toy_server_env toy_args (\<lambda>_. []) toy_registry_state plan s" "w_sent s = [toy_discovery_url]"
proof (rule toy_mirror_runs)
  fix plan client s0
  assume runs: "mirror_runs toy_server_env toy_args (\<lambda>_. []) toy_registry_state plan (mirror_start plan s0\<lparr>w_fs := toy_disk\<rparr>)"
    and start: "start_server toy_server_env toy_args toy_registry_state = (Inr plan, s0)"
    and plan: "(sp_app plan, sp_bucket plan) = build_app (toy_started_service client) (with_bundled_mirror_and_outbound ''d'' None client) ''d'' 100 200 (60 * second)"
    "sp_indices plan = []"
  let ?request = "ProviderMetadata ''h'' ''n'' ''t'' ''index.json''"
  obtain client' where "new_client (env_builder_error toy_server_env) (env_var toy_server_env) (env_ca_file toy_server_env)
      (env_pem_bundle toy_server_env) (ag_outbound_mode toy_args) (ag_upstream_ca_file toy_args) = Inr client'"
    "ps_outbound (ap_storage (sp_app plan)) = client'" using start by (rule started_client)
  then have client: "oc_mode client = Direct"
    using new_client_ok(1) by (fastforce simp: toy_started(2) [OF plan(1)] with_bundled_mirror_and_outbound_def storage_build_def toy_args_def default_args_def)
  have boot: "world.more s0 = world.more toy_registry_state" "w_sent s0 = []"
    using respectsD [OF start_sends_nothing start] by (simp_all add: same_log_def toy_registry_state_def)
  obtain n b where token: "acquire_token toy_server_env (sp_app plan) (mirror_start plan s0\<lparr>w_fs := toy_disk\<rparr>) =
      (Inr True, mirror_start plan s0\<lparr>w_fs := toy_disk, w_tick := n, ap_bucket := b\<rparr>)" using toy_started(3) [OF plan(1)] by blast
  obtain r s1 where asked: "list_versions toy_server_env (ap_metadata (sp_app plan)) ''h'' ''n'' ''t''
      (mirror_start plan s0\<lparr>w_fs := toy_disk, w_tick := n, ap_bucket := b\<rparr>) = (Inl r, s1)"
    and s1: "w_fs s1 = toy_disk" "w_sent s1 = [toy_discovery_url]"
    unfolding toy_started(1) [OF plan(1)] using toy_started_sends [OF client plan(2) boot] by blast
  have "strip_suffix ''.json'' ''index.json'' = Some ''index''" "trim_start_matches CHR ''v'' (str_trim ''index'') = ''index''" by code_simp+
  then have handled: "handle_request toy_server_env (sp_app plan) ?request (mirror_start plan s0\<lparr>w_fs := toy_disk\<rparr>) = (metadata_error_response r, s1)"
    using token asked by (simp add: handle_request_run route_def enforce_rate_limit_def get_provider_metadata_def op_bind_def op_map_err_def Let_def)
  have "fs_faithful (\<lambda>_. []) toy_disk" by (simp add: fs_faithful_def toy_disk_def)
  then have "app_step toy_server_env (sp_app plan) (\<lambda>_. []) (mirror_start plan s0\<lparr>w_fs := toy_disk\<rparr>) s1"
    by (intro app_step.request [OF handled]) (simp_all add: s1 archive_lookup_def)
  then have "mirror_runs toy_server_env toy_args (\<lambda>_. []) toy_registry_state plan s1"
    using runs start unfolding mirror_runs_def by (auto intro: rtranclp.rtrancl_into_rtrancl)
  then show thesis using s1(2) that by blast
qed

section \<open>Properties\<close>

text \<open>C1: the server never hands out anything but the archives that the registries describe. In every state that it
  reaches after it started with some arguments, a download that is answered with the status 200 is of a registry
  among the allowed ones of the arguments, the metadata has a platform with the requested file name, and the body is
  a sequence of bytes whose SHA-256 digest is the checksum of that platform, with the length that the header
  announces. The state of the start, the limits and the lists of the components are those that \<open>main\<close> sets up.\<close>

theorem mirror_serves_authentic_archives:
  fixes env :: "('u, 'c, 'v, 'h, 'k, 's, 'y) server_env_scheme" and boot :: "'u registry_state"
  assumes "mirror_runs env args contents boot plan s"
    and "sha_laws (env_sha env) digest" and "set (env_hash_order env (ag_allowed_registries args)) = set (ag_allowed_registries args)"
    and "handle_request env (sp_app plan) (ProviderDownload hostname namespace provider_type archive) s = (response, s')"
    and "fs_faithful contents (w_fs (archive_lookup env (sp_app plan) (ProviderDownload hostname namespace provider_type archive) s))"
    and "hr_status response = 200"
  shows "hostname \<in> set (ag_allowed_registries args) \<and>
    (\<exists>platform checksum bytes.
       fst (get_platform_by_archive env (ap_metadata (sp_app plan)) hostname namespace provider_type archive
         (snd (acquire_token env (sp_app plan) s))) = Inr (Some platform) \<and>
       pm_filename platform = archive \<and> pm_shasum platform = Some checksum \<and> checksum_ok checksum \<and>
       hr_body response = FileBody bytes \<and> digest bytes = to_ascii_lowercase checksum \<and>
       (''content-length'', dec_digits (length bytes)) \<in> set (hr_headers response))"
proof -
  obtain s0 where start: "start_server env args boot = (Inr plan, s0)" "fs_faithful contents (w_fs s0)"
    and run: "(app_step env (sp_app plan) contents)\<^sup>*\<^sup>* (mirror_start plan s0) s" using assms(1) by (auto simp: mirror_runs_def)
  note init = start_init [OF start]
  have reached: "reach (app_init env (sp_app plan) contents) (app_step env (sp_app plan) contents) s"
    by (rule run_reaches [OF run]) (simp add: mirror_start_def init(1))
  from download_authentic [OF assms(2) init(2) app_reach_inv [OF assms(2) init(2) reached] assms(5,4,6)]
  show ?thesis using init(3) assms(3) by auto
qed

theorem mirror_serves_authentic_archives_witness:
  "\<exists>plan s response s' bytes. mirror_runs toy_server_env toy_args (\<lambda>_. []) toy_registry_state plan s \<and>
     handle_request toy_server_env (sp_app plan) (ProviderDownload ''h'' ''n'' ''t'' ''terraform-provider-t_1_l_a.zip'') s = (response, s') \<and>
     hr_status response = 200 \<and> hr_body response = FileBody bytes \<and>
     (''content-length'', dec_digits (length bytes)) \<in> set (hr_headers response)"
proof (rule toy_mirror_runs)
  fix plan client s0
  assume runs: "mirror_runs toy_server_env toy_args (\<lambda>_. []) toy_registry_state plan (mirror_start plan s0\<lparr>w_fs := toy_disk\<rparr>)"
    and plan: "(sp_app plan, sp_bucket plan) = build_app (toy_started_service client) (with_bundled_mirror_and_outbound ''d'' None client) ''d'' 100 200 (60 * second)"
    "sp_indices plan = []"
  have env: "env_sha toy_server_env = env_sha toy_storage_env" "env_semver toy_server_env = env_semver toy_storage_env"
    "env_io toy_server_env tick = None" "env_header_ok toy_server_env d" for tick d by (simp_all add: toy_server_defs)
  obtain n b where token: "acquire_token toy_server_env (sp_app plan) (mirror_start plan s0\<lparr>w_fs := toy_disk\<rparr>) =
      (Inr True, mirror_start plan s0\<lparr>w_fs := toy_disk, w_tick := n, ap_bucket := b\<rparr>)" using toy_started(3) [OF plan(1)] by blast
  obtain s1 where lookup: "get_platform_by_archive toy_server_env (ap_metadata (sp_app plan)) ''h'' ''n'' ''t'' ''terraform-provider-t_1_l_a.zip''
      (mirror_start plan s0\<lparr>w_fs := toy_disk, w_tick := n, ap_bucket := b\<rparr>) = (Inr (Some toy_platform), s1)" "w_fs s1 = toy_disk"
    unfolding toy_started(1) [OF plan(1)] using toy_started_lookup [OF plan(2)] by blast
  obtain response s' where served:
    "handle_request toy_server_env (sp_app plan) (ProviderDownload ''h'' ''n'' ''t'' ''terraform-provider-t_1_l_a.zip'') (mirror_start plan s0\<lparr>w_fs := toy_disk\<rparr>) = (response, s')"
    "hr_status response = 200" "w_fs (archive_lookup toy_server_env (sp_app plan)
       (ProviderDownload ''h'' ''n'' ''t'' ''terraform-provider-t_1_l_a.zip'') (mirror_start plan s0\<lparr>w_fs := toy_disk\<rparr>)) = toy_disk"
    by (rule toy_download [OF env toy_started(2) [OF plan(1)] token lookup])
  have "sha_laws (env_sha toy_server_env) toy_digest" "fs_faithful (\<lambda>_. []) toy_disk"
    "set (env_hash_order toy_server_env (ag_allowed_registries toy_args)) = set (ag_allowed_registries toy_args)"
    using toy_sha_laws by (simp_all add: env(1) fs_faithful_def toy_disk_def toy_server_defs)
  then show ?thesis
    using mirror_serves_authentic_archives [OF runs _ _ served(1) _ served(2), of toy_digest] served runs by auto
qed

text \<open>C3: the server asks only the outside that it may ask. In every state that a started server reaches, the requests
  that it sent since the process began, whatever handlers sent them and wherever redirects led, all went to HTTPS
  URLs with a host and, in the direct mode, never to a literal address that is not public; the start itself sends
  none.\<close>

theorem mirror_requests_obey_policy:
  fixes env :: "('u, 'c, 'v, 'h, 'k, 's, 'y) server_env_scheme" and boot :: "'u registry_state"
  assumes "mirror_runs env args contents boot plan s"
  shows "\<exists>new. w_sent s = w_sent boot @ new \<and>
    (\<forall>url \<in> set new. url_scheme (env_url env) url = ''https'' \<and>
       (\<exists>host. url_host_str (env_url env) url = Some host \<and>
          (ag_outbound_mode args = Direct \<longrightarrow> (\<forall>ip. literal_ip host = Some ip \<longrightarrow> is_public_ip ip))))"
proof -
  obtain s0 where start: "start_server env args boot = (Inr plan, s0)"
    and run: "(app_step env (sp_app plan) contents)\<^sup>*\<^sup>* (mirror_start plan s0) s" using assms by (auto simp: mirror_runs_def)
  obtain client where built: "new_client (env_builder_error env) (env_var env) (env_ca_file env) (env_pem_bundle env)
      (ag_outbound_mode args) (ag_upstream_ca_file args) = Inr client"
    and shared: "rc_outbound (sv_registry (ap_metadata (sp_app plan))) = client" "ps_outbound (ap_storage (sp_app plan)) = client"
    using start by (rule started_client)
  have "w_sent (mirror_start plan s0) = w_sent boot"
    using respectsD [OF start_sends_nothing start] by (simp add: same_log_def mirror_start_world)
  moreover have "polite env client (mirror_start plan s0) s" by (rule app_run_polite [OF shared run])
  ultimately obtain new where "w_sent s = w_sent boot @ new" "list_all (\<lambda>u. validate_url (env_url env) client u = Inr ()) new"
    by (auto simp: polite_def)
  then show ?thesis
    using new_client_ok(1-3) [OF built] by (auto simp: list_all_iff validate_url_ok)
qed

theorem mirror_requests_obey_policy_witness:
  "\<exists>plan s. mirror_runs toy_server_env toy_args (\<lambda>_. []) toy_registry_state plan s \<and> w_sent s = [toy_discovery_url] \<and>
     url_scheme toy_api toy_discovery_url = ''https''"
proof (rule toy_mirror_asks)
  fix plan s
  assume runs: "mirror_runs toy_server_env toy_args (\<lambda>_. []) toy_registry_state plan s" and asked: "w_sent s = [toy_discovery_url]"
  have "w_sent toy_registry_state = []" "env_url toy_server_env = toy_api" by (simp_all add: toy_registry_state_def toy_server_defs)
  then have "url_scheme toy_api toy_discovery_url = ''https''" using mirror_requests_obey_policy [OF runs] asked by simp
  with runs asked show ?thesis by blast
qed

text \<open>C8: the responses have the type that the protocol of the mirror gives them. In every state a request is answered
  with one of the responses of its route: the probes with their texts; the list of versions for the index and the
  archives otherwise, each with a relative download URL and at most one hash; the bytes of a file with its length,
  type and name; or a status of the route without a body. In particular only a synchronisation is answered with
  409, and only the handler of downloads with 500.\<close>

theorem responses_well_typed: "response_type request (fst (handle_request env app request s))"
proof -
  obtain response s' where handled: "handle_request env app request s = (response, s')" by fastforce
  then obtain r where "route env app request s = (r, s')" "response = (case r of Inl x \<Rightarrow> x | Inr x \<Rightarrow> x)"
    by (auto simp: handle_request_run)
  moreover have "case r of Inl x \<Rightarrow> response_type request x | Inr x \<Rightarrow> response_type request x"
    using route_response_type calculation(1) unfolding responds_def by blast
  ultimately show ?thesis using handled by (cases r) simp_all
qed

end
