(* ===== verification/Connection.thy ===== *)
theory Connection
  imports Ip_Policy "HOL-Library.Sublist"
begin

text \<open>
  What the task of one connection does (\<^verbatim>\<open>src/src/main.rs\<close>: the block spawned by \<open>serve_listener\<close>,
  \<open>accept_tls_with_timeout\<close>, \<open>wait_for_protocol_preface\<close>, \<open>serve_connection\<close>). What the branches of a \<open>select!\<close>
  see is a list of events, with the time since the start where there is a timeout; the TLS handshake and
  the serving of requests by \<^verbatim>\<open>hyper\<close> are library calls, whose outcomes are events.
\<close>

section \<open>Definitions\<close>

text \<open>Times in nanoseconds.\<close>

record serve_options =
  so_handshake_timeout :: nat
  so_shutdown_grace_period :: nat

definition TLS_HANDSHAKE_TIMEOUT :: nat where "TLS_HANDSHAKE_TIMEOUT = 10 * 10 ^ 9"
definition SHUTDOWN_GRACE_PERIOD :: nat where "SHUTDOWN_GRACE_PERIOD = 15 * 10 ^ 9"

definition default_serve_options :: serve_options where
  "default_serve_options = \<lparr>so_handshake_timeout = TLS_HANDSHAKE_TIMEOUT, so_shutdown_grace_period = SHUTDOWN_GRACE_PERIOD\<rparr>"

subsection \<open>The first bytes of a plain connection\<close>

definition H2_PREFACE :: "octet list" where
  "H2_PREFACE = map of_char (''PRI * HTTP/2.0'' @ [CHR 0x0D, CHR 0x0A, CHR 0x0D, CHR 0x0A] @ ''SM'' @ [CHR 0x0D, CHR 0x0A, CHR 0x0D, CHR 0x0A])"

datatype preface_event = Peeked "octet list" | PeekFailed | ShutdownRequested

text \<open>What the two branches of the \<open>select!\<close> see, in order, with the time since the start. A peek
  returns at most as many bytes as the buffer has.\<close>

fun wait_for_protocol_preface :: "nat \<Rightarrow> (nat \<times> preface_event) list \<Rightarrow> bool" where
  "wait_for_protocol_preface timeout [] = False"
| "wait_for_protocol_preface timeout ((elapsed, event) # events) =
     (if elapsed > timeout then False
      else case event of
        ShutdownRequested \<Rightarrow> False
      | PeekFailed \<Rightarrow> False
      | Peeked bytes \<Rightarrow>
         (let buffer = take (length H2_PREFACE) bytes
          in if buffer = [] then False
             else if length buffer = length H2_PREFACE \<or> buffer \<noteq> take (length buffer) H2_PREFACE then True
             else wait_for_protocol_preface timeout events))"

subsection \<open>The TLS handshake\<close>

datatype 't accept_event = HandshakeDone 't | HandshakeFailed | HandshakeShutdown

fun accept_tls_with_timeout :: "nat \<Rightarrow> (nat \<times> 't accept_event) list \<Rightarrow> 't option" where
  "accept_tls_with_timeout handshake_timeout [] = None"
| "accept_tls_with_timeout handshake_timeout ((elapsed, event) # events) =
     (if elapsed > handshake_timeout then None
      else case event of HandshakeDone stream \<Rightarrow> Some stream | HandshakeFailed \<Rightarrow> None | HandshakeShutdown \<Rightarrow> None)"

subsection \<open>Serving\<close>

text \<open>The steps of a task that others can see: it starts to serve, it asks the connection to shut down
  gracefully, it ends.\<close>

datatype task_step = StartsServing | BeginsShutdown | Ends

datatype connection_event = ConnectionResult "(string, unit) result" | ConnectionShutdown

text \<open>After the graceful shutdown only the result of the connection is awaited.\<close>

fun await_connection :: "connection_event list \<Rightarrow> task_step list" where
  "await_connection [] = []"
| "await_connection (ConnectionResult r # events) = [Ends]"
| "await_connection (ConnectionShutdown # events) = await_connection events"

fun serve_connection :: "connection_event list \<Rightarrow> task_step list" where
  "serve_connection [] = []"
| "serve_connection (ConnectionResult r # events) = [Ends]"
| "serve_connection (ConnectionShutdown # events) = BeginsShutdown # await_connection events"

definition connection_task ::
  "bool \<Rightarrow> serve_options \<Rightarrow> (nat \<times> 't accept_event) list \<Rightarrow> (nat \<times> preface_event) list \<Rightarrow> connection_event list \<Rightarrow> task_step list" where
  "connection_task tls options handshake preface_events events =
     (if tls
      then (case accept_tls_with_timeout (so_handshake_timeout options) handshake of
              None \<Rightarrow> [Ends]
            | Some stream \<Rightarrow> StartsServing # serve_connection events)
      else if \<not> wait_for_protocol_preface (so_handshake_timeout options) preface_events then [Ends]
      else StartsServing # serve_connection events)"

section \<open>Specification\<close>

text \<open>The first bytes decide between HTTP/1 and HTTP/2: whatever follows, the connection starts with the
  preface, or whatever follows, it does not.\<close>

definition protocol_decided :: "octet list \<Rightarrow> bool" where
  "protocol_decided bytes \<longleftrightarrow> (\<forall>more. prefix H2_PREFACE (bytes @ more)) \<or> (\<forall>more. \<not> prefix H2_PREFACE (bytes @ more))"

section \<open>Lemmas\<close>

lemma protocol_decided_iff: "protocol_decided bytes \<longleftrightarrow> prefix H2_PREFACE bytes \<or> \<not> prefix bytes H2_PREFACE"
proof
  assume decided: "protocol_decided bytes"
  show "prefix H2_PREFACE bytes \<or> \<not> prefix bytes H2_PREFACE"
  proof (rule ccontr)
    assume "\<not> ?thesis"
    then obtain more where "\<not> prefix H2_PREFACE (bytes @ [])" "H2_PREFACE = bytes @ more" by (auto elim: prefixE)
    then show False using decided prefix_order.refl [of H2_PREFACE] unfolding protocol_decided_def by metis
  qed
next
  assume "prefix H2_PREFACE bytes \<or> \<not> prefix bytes H2_PREFACE"
  then show "protocol_decided bytes"
  proof
    assume "prefix H2_PREFACE bytes"
    then show ?thesis by (simp add: protocol_decided_def)
  next
    assume not: "\<not> prefix bytes H2_PREFACE"
    show ?thesis
    proof (cases "prefix H2_PREFACE bytes")
      case False
      then have "\<not> prefix H2_PREFACE (bytes @ more)" for more
        using not prefix_same_cases [of H2_PREFACE "bytes @ more" bytes] by auto
      then show ?thesis unfolding protocol_decided_def by blast
    qed (simp add: protocol_decided_def)
  qed
qed

lemma peek_decides:
  assumes "buffer = take (length H2_PREFACE) bytes"
  shows "length buffer = length H2_PREFACE \<or> buffer \<noteq> take (length buffer) H2_PREFACE \<longleftrightarrow> protocol_decided bytes"
proof (cases "length H2_PREFACE \<le> length bytes")
  case True
  then have "prefix bytes H2_PREFACE \<longrightarrow> bytes = H2_PREFACE" by (metis append_eq_conv_conj prefix_def take_all)
  then have "protocol_decided bytes" by (auto simp: protocol_decided_iff)
  then show ?thesis using True assms by simp
next
  case False
  then have "buffer = bytes" "\<not> prefix H2_PREFACE bytes" using assms by (auto dest: prefix_length_le)
  moreover have "prefix bytes H2_PREFACE \<longleftrightarrow> bytes = take (length bytes) H2_PREFACE" by (metis append_eq_conv_conj prefix_def take_is_prefix)
  ultimately show ?thesis using False by (auto simp: protocol_decided_iff)
qed

lemma buffer_empty: "take (length H2_PREFACE) bytes = [] \<longleftrightarrow> bytes = []"
  by (simp add: H2_PREFACE_def)

lemma preface_nonempty: "H2_PREFACE \<noteq> []"
  by (simp add: H2_PREFACE_def)

lemma wait_decides:
  "wait_for_protocol_preface timeout events \<longleftrightarrow>
     (\<exists>earlier elapsed bytes later. events = earlier @ (elapsed, Peeked bytes) # later \<and> elapsed \<le> timeout \<and>
        bytes \<noteq> [] \<and> protocol_decided bytes \<and>
        list_all (\<lambda>(t, e). t \<le> timeout \<and> (case e of Peeked b \<Rightarrow> b \<noteq> [] | _ \<Rightarrow> False)) earlier)"
  (is "_ \<longleftrightarrow> ?spec events")
proof (induction events)
  case (Cons event events)
  obtain elapsed e where event: "event = (elapsed, e)" by fastforce
  have spec: "?spec ((elapsed, e) # events) \<longleftrightarrow>
      elapsed \<le> timeout \<and> (case e of Peeked b \<Rightarrow> b \<noteq> [] \<and> (protocol_decided b \<or> ?spec events) | _ \<Rightarrow> False)"
    (is "_ \<longleftrightarrow> ?step")
  proof
    assume "?spec ((elapsed, e) # events)"
    then obtain earlier t bytes later where *: "(elapsed, e) # events = earlier @ (t, Peeked bytes) # later" "t \<le> timeout" "bytes \<noteq> []"
        "protocol_decided bytes" "list_all (\<lambda>(t, e). t \<le> timeout \<and> (case e of Peeked b \<Rightarrow> b \<noteq> [] | _ \<Rightarrow> False)) earlier" by blast
    show ?step
    proof (cases earlier)
      case Nil
      then show ?thesis using * by simp
    next
      case (Cons x xs)
      then have "?spec events" using * by auto
      then show ?thesis using * Cons by (auto split: preface_event.splits)
    qed
  next
    assume step: ?step
    then obtain b where b: "elapsed \<le> timeout" "e = Peeked b" "b \<noteq> []" "protocol_decided b \<or> ?spec events"
      by (auto split: preface_event.splits)
    from b(4) show "?spec ((elapsed, e) # events)"
    proof
      assume "protocol_decided b"
      then have "(elapsed, e) # events = [] @ (elapsed, Peeked b) # events \<and> elapsed \<le> timeout \<and> b \<noteq> [] \<and> protocol_decided b \<and>
          list_all (\<lambda>(t, e). t \<le> timeout \<and> (case e of Peeked b \<Rightarrow> b \<noteq> [] | _ \<Rightarrow> False)) []" using b by simp
      then show ?thesis by blast
    next
      assume "?spec events"
      then obtain earlier t bytes later where *: "events = earlier @ (t, Peeked bytes) # later" "t \<le> timeout" "bytes \<noteq> []"
        "protocol_decided bytes" "list_all (\<lambda>(t, e). t \<le> timeout \<and> (case e of Peeked b \<Rightarrow> b \<noteq> [] | _ \<Rightarrow> False)) earlier" by blast
      then have "(elapsed, e) # events = ((elapsed, e) # earlier) @ (t, Peeked bytes) # later \<and> t \<le> timeout \<and> bytes \<noteq> [] \<and>
          protocol_decided bytes \<and> list_all (\<lambda>(t, e). t \<le> timeout \<and> (case e of Peeked b \<Rightarrow> b \<noteq> [] | _ \<Rightarrow> False)) ((elapsed, e) # earlier)"
        using b by simp
      then show ?thesis by blast
    qed
  qed
  show ?case unfolding event spec using Cons.IH peek_decides [OF refl] buffer_empty preface_nonempty
    by (cases e) (auto simp: Let_def not_less)
qed simp

lemma accept_tls_in_time:
  "accept_tls_with_timeout timeout events = Some stream \<longleftrightarrow>
     (\<exists>elapsed later. events = (elapsed, HandshakeDone stream) # later \<and> elapsed \<le> timeout)"
  by (cases "(timeout, events)" rule: accept_tls_with_timeout.cases) (auto split: accept_event.splits)

text \<open>A task ends at most once, and at most one graceful shutdown comes before.\<close>

lemma await_connection_steps: "await_connection events \<in> {[], [Ends]}"
  by (induction events rule: await_connection.induct) auto

lemma serve_connection_steps: "serve_connection events \<in> {[], [Ends], [BeginsShutdown], [BeginsShutdown, Ends]}"
  by (cases events rule: serve_connection.cases) (use await_connection_steps in fastforce)+

lemma connection_task_steps:
  "connection_task tls options handshake preface_events events \<in>
     {[Ends], [StartsServing], [StartsServing, Ends], [StartsServing, BeginsShutdown], [StartsServing, BeginsShutdown, Ends]}"
  using serve_connection_steps [of events] by (auto simp: connection_task_def split: option.split)

section \<open>Properties\<close>

text \<open>C40: a plain connection is passed on exactly when its first bytes decide the protocol in time. The wait
  ends with \<open>True\<close> if and only if, within the timeout and before a shutdown, a failed read or the end of the
  stream, the bytes that have arrived fix whether the connection starts with the HTTP/2 preface whatever
  follows, so that the protocol detection behind it cannot be left waiting.\<close>

theorem preface_wait_decides_the_protocol:
  "wait_for_protocol_preface timeout events \<longleftrightarrow>
     (\<exists>earlier elapsed bytes later. events = earlier @ (elapsed, Peeked bytes) # later \<and> elapsed \<le> timeout \<and>
        bytes \<noteq> [] \<and> protocol_decided bytes \<and>
        list_all (\<lambda>(t, e). t \<le> timeout \<and> (case e of Peeked b \<Rightarrow> b \<noteq> [] | _ \<Rightarrow> False)) earlier)"
  by (rule wait_decides)

end
