(* ===== verification/Listener.thy ===== *)
theory Listener
  imports Contracts Connection
begin

text \<open>
  The accept loop (\<^verbatim>\<open>src/src/main.rs\<close>: \<open>serve_listener\<close>) as a
  state machine: the loop takes a permit of the semaphore, accepts a connection and hands both to a task of
  the \<open>JoinSet\<close>; after a shutdown it waits for the tasks and cancels them when the grace period is over.

  An event is one step of the loop or of a task, as the runtime happens to schedule them; timeouts, the end
  of a connection and the choice of a \<open>select!\<close> branch are events that may happen at any time.
\<close>

section \<open>Definitions\<close>

text \<open>A task waits for the handshake or the first bytes, serves its connection, or lets the connection finish
  after a shutdown; the result of one that has ended stays in the set until it is joined.\<close>

datatype conn_task = Starting | Serving | ShuttingDown | Ended

datatype loop_phase = Acquiring | Accepting | AcceptBackoff | Draining | Cancelling | Stopped

record listener =
  ln_phase :: loop_phase
  ln_permits :: nat
  ln_shutdown :: bool
  ln_connections :: "conn_task list"

datatype listener_event =
    ShutdownSignal
  | PermitAcquired
  | Accepted
  | AcceptFailed
  | BackoffOver
  | LoopSeesShutdown
  | TaskReady nat
  | TaskSeesShutdown nat
  | TaskEnds nat
  | TaskJoined nat
  | GraceExpired
  | AllJoined

definition listener_init :: "nat \<Rightarrow> listener" where
  "listener_init max_connections =
     \<lparr>ln_phase = Acquiring, ln_permits = max max_connections 1, ln_shutdown = False, ln_connections = []\<rparr>"

definition task_at :: "listener \<Rightarrow> nat \<Rightarrow> conn_task option" where
  "task_at s i = (if i < length (ln_connections s) then Some (ln_connections s ! i) else None)"

definition set_task :: "nat \<Rightarrow> conn_task \<Rightarrow> listener \<Rightarrow> listener" where
  "set_task i t s = s\<lparr>ln_connections := (ln_connections s)[i := t]\<rparr>"

text \<open>The step of an event, if it can happen. The permit that the loop holds is dropped when an iteration ends
  or the loop is left, that of a task when the task ends. After each spawn the ended tasks are joined.\<close>

fun listener_step :: "listener_event \<Rightarrow> listener \<Rightarrow> listener option" where
  "listener_step ShutdownSignal s = (if ln_shutdown s then None else Some (s\<lparr>ln_shutdown := True\<rparr>))"
| "listener_step PermitAcquired s =
     (if ln_phase s = Acquiring \<and> ln_permits s > 0
      then Some (s\<lparr>ln_phase := Accepting, ln_permits := ln_permits s - 1\<rparr>) else None)"
| "listener_step Accepted s =
     (if ln_phase s = Accepting
      then Some (s\<lparr>ln_phase := Acquiring, ln_connections := filter (\<lambda>t. t \<noteq> Ended) (ln_connections s @ [Starting])\<rparr>) else None)"
| "listener_step AcceptFailed s = (if ln_phase s = Accepting then Some (s\<lparr>ln_phase := AcceptBackoff\<rparr>) else None)"
| "listener_step BackoffOver s =
     (if ln_phase s = AcceptBackoff then Some (s\<lparr>ln_phase := Acquiring, ln_permits := ln_permits s + 1\<rparr>) else None)"
| "listener_step LoopSeesShutdown s =
     (if \<not> ln_shutdown s then None
      else case ln_phase s of
        Acquiring \<Rightarrow> Some (s\<lparr>ln_phase := Draining\<rparr>)
      | Accepting \<Rightarrow> Some (s\<lparr>ln_phase := Draining, ln_permits := ln_permits s + 1\<rparr>)
      | AcceptBackoff \<Rightarrow> Some (s\<lparr>ln_phase := Draining, ln_permits := ln_permits s + 1\<rparr>)
      | _ \<Rightarrow> None)"
| "listener_step (TaskReady i) s = (if task_at s i = Some Starting then Some (set_task i Serving s) else None)"
| "listener_step (TaskSeesShutdown i) s =
     (if ln_shutdown s \<and> task_at s i = Some Serving then Some (set_task i ShuttingDown s) else None)"
| "listener_step (TaskEnds i) s =
     (if task_at s i \<in> {Some Starting, Some Serving, Some ShuttingDown}
      then Some ((set_task i Ended s)\<lparr>ln_permits := ln_permits s + 1\<rparr>) else None)"
| "listener_step (TaskJoined i) s =
     (if ln_phase s \<in> {Draining, Cancelling} \<and> task_at s i = Some Ended
      then Some (s\<lparr>ln_connections := take i (ln_connections s) @ drop (Suc i) (ln_connections s)\<rparr>) else None)"
| "listener_step GraceExpired s =
     (if ln_phase s = Draining \<and> ln_connections s \<noteq> [] then Some (s\<lparr>ln_phase := Cancelling\<rparr>) else None)"
| "listener_step AllJoined s =
     (if ln_phase s \<in> {Draining, Cancelling} \<and> ln_connections s = [] then Some (s\<lparr>ln_phase := Stopped\<rparr>) else None)"

fun listener_run :: "listener_event list \<Rightarrow> listener \<Rightarrow> listener option" where
  "listener_run [] s = Some s"
| "listener_run (e # es) s = Option.bind (listener_step e s) (listener_run es)"

text \<open>The event of a step of the task at position \<open>i\<close>.\<close>

fun event_of :: "nat \<Rightarrow> task_step \<Rightarrow> listener_event" where
  "event_of i StartsServing = TaskReady i"
| "event_of i BeginsShutdown = TaskSeesShutdown i"
| "event_of i Ends = TaskEnds i"

section \<open>Specification\<close>

text \<open>What the semaphore promises: a number of open connections that never exceeds the limit.\<close>

definition open_connections :: "listener \<Rightarrow> nat" where
  "open_connections s = length (filter (\<lambda>t. t \<noteq> Ended) (ln_connections s))"

definition counter_step :: "nat \<Rightarrow> nat \<Rightarrow> nat \<Rightarrow> bool" where
  "counter_step limit n n' \<longleftrightarrow> n' = n \<or> n < limit \<and> n' = n + 1 \<or> n = n' + 1"

text \<open>The permit the loop holds.\<close>

definition held :: "listener \<Rightarrow> nat" where
  "held s = (if ln_phase s \<in> {Accepting, AcceptBackoff} then 1 else 0)"

definition listener_inv :: "nat \<Rightarrow> listener \<Rightarrow> bool" where
  "listener_inv limit s \<longleftrightarrow>
     ln_permits s + held s + open_connections s = limit \<and> length (ln_connections s) \<le> limit \<and>
     (ln_phase s \<in> {Draining, Cancelling, Stopped} \<longrightarrow> ln_shutdown s) \<and> (ln_phase s = Stopped \<longrightarrow> ln_connections s = [])"

text \<open>The steps that are left after the loop has ended.\<close>

fun task_weight :: "conn_task \<Rightarrow> nat" where
  "task_weight Starting = 4"
| "task_weight Serving = 3"
| "task_weight ShuttingDown = 2"
| "task_weight Ended = 1"

fun phase_weight :: "loop_phase \<Rightarrow> nat" where
  "phase_weight Cancelling = 1"
| "phase_weight Stopped = 0"
| "phase_weight _ = 2"

definition steps_left :: "listener \<Rightarrow> nat" where
  "steps_left s = sum_list (map task_weight (ln_connections s)) + phase_weight (ln_phase s)"

section \<open>Lemmas\<close>

lemma task_at_split:
  assumes "task_at s i = Some t"
  obtains before after where "ln_connections s = before @ t # after" "i = length before"
  using assms that [of "take i (ln_connections s)" "drop (Suc i) (ln_connections s)"]
  by (auto simp: task_at_def id_take_nth_drop split: if_splits)

lemma set_task_split:
  assumes "ln_connections s = before @ t # after" "i = length before"
  shows "ln_connections (set_task i t' s) = before @ t' # after" "ln_phase (set_task i t' s) = ln_phase s"
    "ln_permits (set_task i t' s) = ln_permits s" "ln_shutdown (set_task i t' s) = ln_shutdown s"
  using assms by (simp_all add: set_task_def)

text \<open>The events of a task change one entry of the set or remove it.\<close>

definition task_change :: "listener \<Rightarrow> listener \<Rightarrow> bool" where
  "task_change s s' \<longleftrightarrow> ln_phase s' = ln_phase s \<and> ln_shutdown s' = ln_shutdown s \<and>
     (\<exists>before t after. ln_connections s = before @ t # after \<and>
       (t = Starting \<and> ln_connections s' = before @ Serving # after \<and> ln_permits s' = ln_permits s \<or>
        t = Serving \<and> ln_connections s' = before @ ShuttingDown # after \<and> ln_permits s' = ln_permits s \<or>
        t \<noteq> Ended \<and> ln_connections s' = before @ Ended # after \<and> ln_permits s' = ln_permits s + 1 \<or>
        t = Ended \<and> ln_connections s' = before @ after \<and> ln_permits s' = ln_permits s))"

lemma task_step:
  assumes step: "listener_step e s = Some s'" and e: "e = TaskReady i \<or> e = TaskSeesShutdown i \<or> e = TaskEnds i \<or> e = TaskJoined i"
  shows "task_change s s'"
proof -
  obtain t where t: "task_at s i = Some t" using assms by (auto split: if_splits)
  then obtain before after where split: "ln_connections s = before @ t # after" "i = length before" by (rule task_at_split)
  note fields = set_task_split [OF split]
  from e show ?thesis
  proof (elim disjE)
    assume "e = TaskReady i"
    then have "t = Starting" and s': "s' = set_task i Serving s" using step t by (auto split: if_splits)
    then show ?thesis unfolding task_change_def s' fields using split(1) by blast
  next
    assume "e = TaskSeesShutdown i"
    then have "t = Serving" and s': "s' = set_task i ShuttingDown s" using step t by (auto split: if_splits)
    then show ?thesis unfolding task_change_def s' fields using split(1) by blast
  next
    assume "e = TaskEnds i"
    then have "t \<noteq> Ended" "ln_phase s' = ln_phase s" "ln_shutdown s' = ln_shutdown s" "ln_connections s' = before @ Ended # after"
        "ln_permits s' = ln_permits s + 1" using step t fields by (auto split: if_splits)
    then show ?thesis unfolding task_change_def using split(1) by blast
  next
    assume "e = TaskJoined i"
    then have "t = Ended" "ln_phase s' = ln_phase s" "ln_shutdown s' = ln_shutdown s" "ln_connections s' = before @ after"
        "ln_permits s' = ln_permits s" using step t split by (auto split: if_splits)
    then show ?thesis unfolding task_change_def using split(1) by blast
  qed
qed

lemma task_change_inv:
  assumes inv: "listener_inv limit s" and step: "task_change s s'"
  shows "listener_inv limit s' \<and> counter_step limit (open_connections s) (open_connections s')"
proof -
  have held: "held s' = held s" using step by (simp add: held_def task_change_def)
  obtain before t after where t: "ln_connections s = before @ t # after"
      "t = Starting \<and> ln_connections s' = before @ Serving # after \<and> ln_permits s' = ln_permits s \<or>
        t = Serving \<and> ln_connections s' = before @ ShuttingDown # after \<and> ln_permits s' = ln_permits s \<or>
        t \<noteq> Ended \<and> ln_connections s' = before @ Ended # after \<and> ln_permits s' = ln_permits s + 1 \<or>
        t = Ended \<and> ln_connections s' = before @ after \<and> ln_permits s' = ln_permits s"
    using step unfolding task_change_def by blast
  then have "ln_permits s' + open_connections s' = ln_permits s + open_connections s \<and> length (ln_connections s') \<le> length (ln_connections s) \<and>
      (open_connections s' = open_connections s \<or> open_connections s = open_connections s' + 1)"
    by (elim disjE conjE) (simp_all add: open_connections_def)
  then show ?thesis using inv held step t(1) unfolding listener_inv_def counter_step_def task_change_def by auto
qed

lemma listener_step_inv:
  assumes inv: "listener_inv limit s" and step: "listener_step e s = Some s'"
  shows "listener_inv limit s' \<and> counter_step limit (open_connections s) (open_connections s')"
proof (cases "\<exists>i. e = TaskReady i \<or> e = TaskSeesShutdown i \<or> e = TaskEnds i \<or> e = TaskJoined i")
  case True
  then show ?thesis using task_change_inv [OF inv] task_step [OF step] by blast
next
  case False
  have reaped: "length (filter (\<lambda>t. t \<noteq> Ended) (ln_connections s @ [Starting])) = open_connections s + 1" by (simp add: open_connections_def)
  have loop_step: ?thesis if "ln_connections s' = ln_connections s" "ln_permits s' + held s' = ln_permits s + held s"
    "ln_phase s' \<in> {Draining, Cancelling, Stopped} \<longrightarrow> ln_shutdown s'" "ln_phase s' = Stopped \<longrightarrow> ln_connections s' = []"
    using that inv by (simp add: listener_inv_def counter_step_def open_connections_def)
  show ?thesis
  proof (cases e)
    case Accepted
    then have "open_connections s' = open_connections s + 1" "length (ln_connections s') = open_connections s + 1"
        "ln_phase s' = Acquiring" "ln_permits s' = ln_permits s" "ln_phase s = Accepting"
      using step reaped by (auto simp: open_connections_def split: if_splits)
    then show ?thesis using inv by (simp add: listener_inv_def held_def counter_step_def)
  next
    case LoopSeesShutdown
    then show ?thesis using step by (cases "ln_phase s"; intro loop_step) (auto simp: held_def split: if_splits)
  next
    case ShutdownSignal
    then show ?thesis using step inv by (intro loop_step) (auto simp: held_def listener_inv_def split: if_splits)
  next
    case GraceExpired
    then show ?thesis using step inv by (intro loop_step) (auto simp: held_def listener_inv_def split: if_splits)
  next
    case AllJoined
    then show ?thesis using step inv by (intro loop_step) (auto simp: held_def listener_inv_def split: if_splits)
  next
    case PermitAcquired
    then show ?thesis using step by (intro loop_step) (auto simp: held_def split: if_splits)
  next
    case AcceptFailed
    then show ?thesis using step by (intro loop_step) (auto simp: held_def split: if_splits)
  next
    case BackoffOver
    then show ?thesis using step by (intro loop_step) (auto simp: held_def split: if_splits)
  qed (use False in blast)+
qed

interpretation listening: inductive_invariant "\<lambda>s. s = listener_init m" "\<lambda>s s'. \<exists>e. listener_step e s = Some s'" "listener_inv (max m 1)" for m
proof
  fix s s'
  show "listener_inv (max m 1) s" if "s = listener_init m"
    using that by (simp add: listener_init_def listener_inv_def held_def open_connections_def)
  show "listener_inv (max m 1) s'" if "listener_inv (max m 1) s" "\<exists>e. listener_step e s = Some s'"
    using that listener_step_inv by blast
qed

lemma listener_progress:
  assumes "listener_inv limit s" "0 < limit"
  shows "ln_phase s = Stopped \<or> (\<exists>e. listener_step e s \<noteq> None)"
proof (cases "ln_phase s")
  case Acquiring
  show ?thesis
  proof (cases "ln_permits s = 0")
    case True
    then have "filter (\<lambda>t. t \<noteq> Ended) (ln_connections s) \<noteq> []" using assms Acquiring by (auto simp: listener_inv_def held_def open_connections_def)
    then obtain i where "i < length (ln_connections s)" "ln_connections s ! i \<noteq> Ended" by (auto simp: filter_empty_conv in_set_conv_nth)
    then have "listener_step (TaskEnds i) s \<noteq> None" by (cases "ln_connections s ! i") (simp_all add: task_at_def)
    then show ?thesis by blast
  next
    case False
    then have "listener_step PermitAcquired s \<noteq> None" using Acquiring by simp
    then show ?thesis by blast
  qed
next
  case Accepting
  then have "listener_step Accepted s \<noteq> None" by simp
  then show ?thesis by blast
next
  case AcceptBackoff
  then have "listener_step BackoffOver s \<noteq> None" by simp
  then show ?thesis by blast
next
  case Stopped
  then show ?thesis by blast
next
  case Draining
  then have "listener_step AllJoined s \<noteq> None \<or> listener_step (TaskEnds 0) s \<noteq> None \<or> listener_step (TaskJoined 0) s \<noteq> None"
    by (cases "ln_connections s"; cases "hd (ln_connections s)") (simp_all add: task_at_def)
  then show ?thesis by blast
next
  case Cancelling
  then have "listener_step AllJoined s \<noteq> None \<or> listener_step (TaskEnds 0) s \<noteq> None \<or> listener_step (TaskJoined 0) s \<noteq> None"
    by (cases "ln_connections s"; cases "hd (ln_connections s)") (simp_all add: task_at_def)
  then show ?thesis by blast
qed

lemma task_change_weight: "task_change s s' \<Longrightarrow> steps_left s' < steps_left s"
proof -
  assume change: "task_change s s'"
  obtain before t after where "ln_connections s = before @ t # after"
      "t = Starting \<and> ln_connections s' = before @ Serving # after \<or> t = Serving \<and> ln_connections s' = before @ ShuttingDown # after \<or>
        t \<noteq> Ended \<and> ln_connections s' = before @ Ended # after \<or> t = Ended \<and> ln_connections s' = before @ after"
    using change unfolding task_change_def by blast
  then show ?thesis using change unfolding task_change_def steps_left_def
    by (elim disjE conjE; cases t) simp_all
qed

definition loop_over :: "listener \<Rightarrow> bool" where
  "loop_over s \<longleftrightarrow> ln_phase s \<in> {Draining, Cancelling, Stopped} \<and> ln_shutdown s \<and> (ln_phase s = Stopped \<longrightarrow> ln_connections s = [])"

lemma loop_over_step:
  assumes over: "loop_over s" and step: "listener_step e s = Some s'"
  shows "loop_over s' \<and> steps_left s' < steps_left s"
proof (cases "\<exists>i. e = TaskReady i \<or> e = TaskSeesShutdown i \<or> e = TaskEnds i \<or> e = TaskJoined i")
  case True
  then have change: "task_change s s'" using task_step [OF step] by blast
  then have "loop_over s'" using over by (auto simp: loop_over_def task_change_def)
  with task_change_weight [OF change] show ?thesis by blast
next
  case False
  then show ?thesis using over step by (cases e) (auto simp: loop_over_def steps_left_def split: if_splits loop_phase.splits)
qed

lemma loop_over_run:
  "loop_over s \<Longrightarrow> listener_run es s = Some s' \<Longrightarrow> loop_over s' \<and> length es + steps_left s' \<le> steps_left s"
proof (induction es arbitrary: s)
  case (Cons e es)
  then obtain s1 where "listener_step e s = Some s1" "listener_run es s1 = Some s'" by (auto simp: bind_eq_Some_conv)
  with Cons.IH loop_over_step [OF Cons.prems(1)] show ?case by fastforce
qed simp

lemma steps_left_bound: "steps_left s \<le> 4 * length (ln_connections s) + 2"
proof -
  have "task_weight t \<le> 4" for t by (cases t) simp_all
  then have "sum_list (map task_weight (ln_connections s)) \<le> 4 * length (ln_connections s)"
    using sum_list_mono [of "ln_connections s" task_weight "\<lambda>_. 4"] by (simp add: sum_list_triv)
  moreover have "phase_weight (ln_phase s) \<le> 2" by (cases "ln_phase s") simp_all
  ultimately show ?thesis by (simp add: steps_left_def)
qed

abbreviation listener_reach :: "nat \<Rightarrow> listener \<Rightarrow> bool" where
  "listener_reach max_connections \<equiv> reach (\<lambda>s. s = listener_init max_connections) (\<lambda>s s'. \<exists>e. listener_step e s = Some s')"

lemma listener_run_reach: "listener_reach m s \<Longrightarrow> listener_run es s = Some s' \<Longrightarrow> listener_reach m s'"
proof (induction es arbitrary: s)
  case (Cons e es)
  then obtain s1 where step: "listener_step e s = Some s1" "listener_run es s1 = Some s'" by (auto simp: bind_eq_Some_conv)
  have "listener_reach m s1" by (rule reach.move [OF Cons.prems(1)]) (use step(1) in blast)
  then show ?case by (rule Cons.IH) (rule step(2))
qed simp

text \<open>The state machine allows every behaviour of a connection task, once shutdown is requested where the task
  notices it, and gives its permit back exactly when it ends.\<close>

lemma task_at_set_task: "i < length (ln_connections s) \<Longrightarrow> task_at (set_task i t s) i = Some t"
  by (simp add: task_at_def set_task_def)

lemma connection_task_runs:
  assumes "task_at s i = Some Starting" and "steps = connection_task tls options handshake preface_events events"
    and "BeginsShutdown \<in> set steps \<longrightarrow> ln_shutdown s"
  shows "\<exists>s'. listener_run (map (event_of i) steps) s = Some s' \<and>
    ln_permits s' = ln_permits s + (if Ends \<in> set steps then 1 else 0) \<and> (task_at s' i = Some Ended \<longleftrightarrow> Ends \<in> set steps)"
proof -
  have i: "i < length (ln_connections s)" using assms(1) by (auto simp: task_at_def split: if_splits)
  have "steps \<in> {[Ends], [StartsServing], [StartsServing, Ends], [StartsServing, BeginsShutdown], [StartsServing, BeginsShutdown, Ends]}"
    using assms(2) connection_task_steps by blast
  then show ?thesis using assms(1,3) i
    by (elim insertE emptyE) (simp_all add: task_at_def set_task_def)
qed

section \<open>Properties\<close>

text \<open>C15: the accept loop is a bounded counter of connections. In every reachable state each event leaves the
  number of open connections alone, adds one below the limit or takes one away; so the limit (at least one)
  is never exceeded, however connections fail, end or are shut down. The set of tasks stays as small, no
  permit is lost, and the loop is never stuck.\<close>

theorem listener_refines_connection_counter:
  assumes "listener_reach max_connections s" and "listener_step event s = Some s'"
  shows "counter_step (max max_connections 1) (open_connections s) (open_connections s') \<and>
    open_connections s' \<le> max max_connections 1 \<and> length (ln_connections s') \<le> max max_connections 1 \<and>
    (ln_phase s' = Acquiring \<longrightarrow> ln_permits s' + open_connections s' = max max_connections 1) \<and>
    (ln_phase s' = Stopped \<or> (\<exists>e. listener_step e s' \<noteq> None))"
proof -
  have step: "listener_inv (max max_connections 1) s' \<and> counter_step (max max_connections 1) (open_connections s) (open_connections s')"
    using listener_step_inv [OF listening.reach_inv [OF assms(1)] assms(2)] .
  moreover have "open_connections s' \<le> length (ln_connections s')" by (simp add: open_connections_def)
  ultimately show ?thesis using listener_progress [of "max max_connections 1" s'] by (auto simp: listener_inv_def held_def)
qed

theorem listener_refines_connection_counter_witness:
  "\<exists>s s'. listener_run [PermitAcquired, Accepted] (listener_init 0) = Some s \<and> listener_step (TaskEnds 0) s = Some s' \<and>
     counter_step 1 (open_connections s) (open_connections s')"
proof -
  have init: "listener_reach 0 (listener_init 0)" by (rule reach.start) (rule refl)
  obtain s where run: "listener_run [PermitAcquired, Accepted] (listener_init 0) = Some s" and s: "ln_connections s = [Starting]"
    by (simp add: listener_init_def)
  obtain s' where "listener_step (TaskEnds 0) s = Some s'" using s by (simp add: task_at_def)
  with listener_refines_connection_counter [OF listener_run_reach [OF init run] this] run show ?thesis by auto
qed

text \<open>C19: a shutdown completes. Once the loop has ended, at most four steps for each task of the set and two
  more are possible, in whatever order the tasks are scheduled and whether or not the grace period expires;
  and while the listener has not stopped, some step is possible. When it has stopped no connection is left
  and every permit has been returned.\<close>

theorem listener_shutdown_completes:
  assumes "listener_reach max_connections s" and "ln_phase s \<in> {Draining, Cancelling}" and "listener_run events s = Some s'"
  shows "length events \<le> 4 * length (ln_connections s) + 2 \<and>
    (ln_phase s' = Stopped \<and> ln_connections s' = [] \<and> ln_permits s' = max max_connections 1 \<or>
     ln_phase s' \<in> {Draining, Cancelling} \<and> (\<exists>e. listener_step e s' \<noteq> None))"
proof -
  have "loop_over s" using listening.reach_inv [OF assms(1)] assms(2) by (auto simp: listener_inv_def loop_over_def)
  then have run: "loop_over s'" "length events \<le> steps_left s" using loop_over_run [OF _ assms(3)] by auto
  have inv: "listener_inv (max max_connections 1) s'" using listening.reach_inv [OF listener_run_reach [OF assms(1,3)]] .
  have positive: "0 < max max_connections 1" by simp
  have "ln_phase s' = Stopped \<Longrightarrow> ln_permits s' = max max_connections 1"
    using inv by (auto simp: listener_inv_def held_def open_connections_def)
  then show ?thesis using run steps_left_bound [of s] listener_progress [OF inv positive] by (auto simp: loop_over_def)
qed

theorem listener_shutdown_completes_witness:
  "\<exists>s s'. listener_run [PermitAcquired, Accepted, ShutdownSignal, LoopSeesShutdown] (listener_init 4096) = Some s \<and>
     listener_run [GraceExpired, TaskEnds 0, TaskJoined 0, AllJoined] s = Some s' \<and> ln_permits s' = 4096"
proof -
  have init: "listener_reach 4096 (listener_init 4096)" by (rule reach.start) (rule refl)
  obtain s where run: "listener_run [PermitAcquired, Accepted, ShutdownSignal, LoopSeesShutdown] (listener_init 4096) = Some s"
      and s: "ln_connections s = [Starting]" "ln_phase s = Draining" by (simp add: listener_init_def)
  obtain s' where stop: "listener_run [GraceExpired, TaskEnds 0, TaskJoined 0, AllJoined] s = Some s'" "ln_phase s' = Stopped"
    using s by (simp add: task_at_def set_task_def)
  from listener_shutdown_completes [OF listener_run_reach [OF init run] _ stop(1)] stop(2) s(2) have "ln_permits s' = 4096" by auto
  with run stop show ?thesis by blast
qed

end
