(* ===== verification/Spec2Isabelle.thy ===== *)
theory Spec2Isabelle
  imports Archive_Name Cert_Reload Index_Refresh Lone_Load Stale_Files Mirror Listener
begin

text \<open>
  \<^bold>\<open>A verification of the provider mirror\<close>

  The program is an HTTP server that mirrors Terraform provider registries. A request for a version list, for
  the archives of a version or for an archive passes the rate limit, reaches the metadata service and, for an
  archive, the archive storage; both answer from memory or disk when they can and from the upstream
  registry through the outbound client when they must. This library models the server as pure functions on an
  explicit state and proves what its operators and clients rely on: only archives with the checksum of
  validated metadata are ever served or published, only allowed registries and public addresses are ever
  asked, expired certificates are never served, and failures leave caches, files, locks and permits in order.

  \<^bold>\<open>Theories and source files\<close>

  Foundations. \<open>Mirror_Prelude\<close>: strings, \<open>Option\<close>, \<open>Result\<close> and hash maps of Rust's standard library.
  \<open>Contracts\<close>: the locales \<open>inductive_invariant\<close> (a transition system whose invariant holds in all reachable
  states) and \<open>bounded_table\<close>. \<open>Effects\<close>: operations as functions from a state to a result and a state, with
  the \<open>?\<close> operator as \<open>op_bind\<close>, the world (file system, sent requests, clock tick), Hoare triples, and the locale
  \<open>state_preorder\<close> for frame conditions.

  \<^verbatim>\<open>src/src/provider.rs\<close>: \<open>Archive_Name\<close> (the parser of archive names).

  \<^verbatim>\<open>src/src/tls_reload.rs\<close>: \<open>Cert_Der\<close> (DER reader), \<open>Cert_Time\<close> (calendar and certificate times),
  \<open>Cert_Reload\<close> (validity of chains and the reloading resolver as a state machine, with a log of the instants
  at which it reads the files, which is not in the code).

  \<^verbatim>\<open>src/src/outbound.rs\<close>: \<open>Ip_Policy\<close> (\<open>is_public_ip\<close> on words and the address parsers of \<open>std::net\<close>), \<open>Outbound\<close>
  (construction of the client, URL policy, the redirect loop).

  \<^verbatim>\<open>src/src/registry.rs\<close>: \<open>Registry\<close> (service discovery with cache and backoff, version lists, packages).

  \<^verbatim>\<open>src/src/metadata.rs\<close>: \<open>Metadata_Validation\<close> (addresses, validators, version order, paths), \<open>Key_Locks\<close> (per-key
  locks, also those of \<^verbatim>\<open>storage.rs\<close>, as an interleaving step relation), \<open>Refresh_Backoff\<close> (failure tables),
  \<open>Metadata_Store\<close> (atomic JSON files), \<open>Metadata_Service\<close> (caches and refreshes), \<open>Metadata_Queries\<close> (public
  operations, construction, runs), \<open>Metadata_Properties\<close>, \<open>Metadata_Errors\<close> (which errors back off, which the queries
  never return), \<open>Index_Refresh\<close> (many loads of an index, one refresh).

  \<^verbatim>\<open>src/src/storage.rs\<close>: \<open>Archive_Storage\<close> (all operations), \<open>Archive_Effects\<close> (what they do to the state),
  \<open>Archive_Properties\<close>, \<open>Archive_Keys\<close>, \<open>Single_Flight\<close> and \<open>Flight_Properties\<close> (interleaved loads of many tasks),
  \<open>Lone_Load\<close> (without contention they compute \<open>load_or_fetch\<close>), \<open>Stale_Files\<close> (the cleanup at start).

  \<^verbatim>\<open>src/src/http_api.rs\<close>: \<open>Rate_Limit\<close> (the token bucket), \<open>Http_Api\<close> (handlers, router, status codes), \<open>App_Frame\<close>
  (metadata service and storage leave each other's state alone), \<open>Http_Properties\<close> (runs of the server).

  \<^verbatim>\<open>src/src/main.rs\<close>: \<open>Server\<close> (arguments, preparation of the data directory, start, redirect to HTTPS),
  \<open>Server_Properties\<close>, \<open>Connection\<close> (the task of a connection), \<open>Listener\<close> (the accept loop as a state machine).

  The whole program: \<open>Mirror\<close> (from \<open>main\<close> through any run to the responses and the requests sent).

  \<^bold>\<open>State\<close>

  Records extend each other as the components do: \<open>world\<close> (files, requests, counters), \<open>registry_state\<close> (discovery
  cache and locks), \<open>metadata_state\<close> (caches, failure tables, locks), \<open>storage_state\<close> (verified files, locks,
  permits), \<open>app_state\<close> (token bucket, sequence of the readiness probe). Operations are polymorphic in what
  extends their record, so the operation of a component runs unchanged on the state of the server. Immutable
  parts are arguments (\<open>outbound_client\<close>, \<open>metadata_service\<close>, \<open>provider_storage\<close>, \<open>app\<close>). The environment
  records (\<open>env\<close> up to \<open>server_env\<close>) hold what is not under \<^verbatim>\<open>src/\<close>: clock readings and I/O failures per tick,
  the URL, JSON, semver, SHA-256, TLS and HTTP crates and the network. A theorem about all environments holds
  for every timing and every failure.

  \<^bold>\<open>What the lemmas show\<close>

  Each component has an invariant that all its operations keep (\<open>lock_inv\<close>, \<open>resolver_ok\<close>, \<open>caches_ok\<close>,
  \<open>storage_inv\<close>, \<open>listener_inv\<close>, and \<open>app_inv\<close> for the whole server), functional descriptions of its operations
  on every branch (\<open>\<dots>_run\<close>, \<open>\<dots>_spec\<close>, \<open>\<dots>_ok\<close>) and frame lemmas. The components meet in
  \<open>mirror_serves_authentic_archives\<close>, which carries the checksum of the validated metadata through storage and
  handlers into the body of the response, from any start of the server (\<open>startup_establishes_the_invariants\<close>)
  through any run. \<open>mirror_requests_obey_policy\<close> bounds what a run asks the outside, \<open>responses_well_typed\<close> what it
  answers, and \<open>index_refreshed_once\<close> how often a load of an index asks the upstream. \<open>archive_downloaded_once\<close> and
  \<open>concurrent_loads_finish\<close> join the locks with the storage: concurrent loads download an archive once and end.

  \<^bold>\<open>Bounds and fuel\<close>

  Loops recurse over data or over a number that the code counts too (redirects at most five, versions and
  platforms at most the limits of the code); reading a file recurses over its bytes. Opening a path follows at
  most forty symbolic links, the limit of Linux, after which the call fails as it does there. Integers are
  words where the code depends on their width (octets, segments, ports, DER lengths) and otherwise natural
  numbers with the checks written out. Instants are nanoseconds.

  \<^bold>\<open>Assumptions\<close>

  \<open>sha_laws\<close>: the streaming hash is a function of the concatenated input. \<open>fs_faithful\<close>: device, inode, size and
  modification time of a file determine its contents, which the table of verified files relies on.
  \<open>float_laws\<close>: rounding is monotone with a relative error (clock readings of the rate limit may go back).
  \<open>url_laws\<close> and \<open>authority_laws\<close>: what the URL and HTTP crates document of the URLs and hosts they parse. \<open>refresh_window\<close> and \<open>upstream_answers\<close>: the clock readings and
  the answers of the upstream during which \<open>index_refreshed_once\<close> counts. The iteration order of a hash set has its elements.

  \<^bold>\<open>Not modelled\<close>

  The tests and what only they call (\<open>AppState::for_tests\<close>, \<open>resolve_current_cert\<close>, the accessors of the client),
  the list of modules in \<^verbatim>\<open>lib.rs\<close>, logging, the parsing of the command line, the installation of the
  crypto provider, the keep-alive settings handed to \<^verbatim>\<open>hyper\<close>, and the matching of paths in \<^verbatim>\<open>axum\<close>: they call
  libraries and keep no state of the program. Requests to the server run one after the other in \<open>Http_Properties\<close>,
  loads of archives in \<open>Archive_Properties\<close> (overlapping ones can leave a lock entry, see \<open>Key_Locks\<close>), handshakes
  in \<open>Cert_Reload\<close>;
  the interleaving of tasks is modelled where the code synchronises them itself (\<open>Key_Locks\<close>, \<open>Single_Flight\<close>,
  \<open>Listener\<close>); there a look at the cache, a download and the handling of an event are one step each. The
  bytes of a response are those of the file when it was opened.
\<close>

end
